(* ===== verification/Prelude.thy ===== *)
theory Prelude
  imports Main "HOL-Library.Word"
begin

unbundle bit_operations_syntax

text \<open>
  What every component shares: the names of the C integer types, the \<open>unat\<close> reading of
  the shifts and masks the byte code uses, the model of \<^verbatim>\<open>memcpy\<close> into a buffer, and
  list facts about splitting and updating buffers.

  A C buffer is a list of bytes. An unsigned integer type is a word of its width, so that
  \<open>+\<close> wraps as in C; \<^verbatim>\<open>size_t\<close> is \<open>nat\<close> where the code bounds it far below
  \<open>2 ^ 64\<close>; \<^verbatim>\<open>int32_t\<close> fields are 32-bit words read by \<open>sint\<close>.

  The collection \<open>unat_bytes\<close> holds the equations that turn a word built from bytes, or a
  byte cut out of a word, into \<open>nat\<close> arithmetic; \<open>buf_simps\<close> holds the facts on buffers.
\<close>

section \<open>C integer types\<close>

type_synonym u8 = "8 word"
type_synonym u16 = "16 word"
type_synonym u32 = "32 word"
type_synonym u64 = "64 word"
type_synonym i32 = "32 word"

text \<open>The error numbers the program returns or tests; a system call's result is an error or a count.\<close>

datatype errno = EINVAL | EFAULT | EAGAIN | ERESTARTSYS | ENOTTY | ENOMEM | EINTR | EBADF | ECONNRESET | EPIPE

type_synonym sys_result = "errno + nat"

named_theorems unat_bytes "words built from bytes and bytes cut out of words, as nat"
named_theorems buf_simps "lengths and elements of buffers after a write"

section \<open>Words and bytes as natural numbers\<close>

lemma nat_mult_or_add:
  assumes "b < 2 ^ k"
  shows "((a::nat) * 2 ^ k) OR b = a * 2 ^ k + b"
proof -
  from assms have b: "take_bit k b = b" by (simp add: take_bit_nat_eq_self)
  have "push_bit k a AND take_bit k b = 0"
    by (rule bit_eqI) (auto simp: bit_simps)
  then show ?thesis
    by (simp add: b disjunctive_add_eq_or push_bit_eq_mult)
qed

lemma unat_or_push_bit:
  fixes x y :: "'a::len word"
  assumes "unat x * 2 ^ k < 2 ^ LENGTH('a)" and "unat y < 2 ^ k"
  shows "unat (push_bit k x OR y) = unat x * 2 ^ k + unat y"
proof -
  have "unat (push_bit k x) = take_bit LENGTH('a) (push_bit k (unat x))"
    by (rule unsigned_push_bit_eq)
  also have "\<dots> = unat x * 2 ^ k"
    using assms(1) by (simp add: push_bit_eq_mult take_bit_nat_eq_self)
  finally have "unat (push_bit k x) = unat x * 2 ^ k" .
  then show ?thesis
    using nat_mult_or_add [OF assms(2), of "unat x"] by (simp add: unsigned_or_eq)
qed

lemma unat_u8_less: "unat (a::u8) < 256"
  using unsigned_less [of a] by simp

lemma unat_u16_less: "unat (a::u16) < 65536"
  using unsigned_less [of a] by simp

lemma unat_u32_less: "unat (a::u32) < 4294967296"
  using unsigned_less [of a] by simp

lemma unat_u64_less: "unat (a::u64) < 18446744073709551616"
  using unsigned_less [of a] by simp

lemma unat_of_nat_small: "n < 2 ^ LENGTH('a) \<Longrightarrow> unat (of_nat n :: 'a::len word) = n"
  by (simp add: unat_of_nat)

lemma unat_ucast_u8_u16 [unat_bytes]: "unat (ucast (a::u8) :: u16) = unat a"
  by (simp add: unsigned_ucast_eq take_bit_nat_eq_self order.strict_trans [OF unat_u8_less])

lemma unat_ucast_u8_u32 [unat_bytes]: "unat (ucast (a::u8) :: u32) = unat a"
  by (simp add: unsigned_ucast_eq take_bit_nat_eq_self order.strict_trans [OF unat_u8_less])

lemma unat_ucast_u16_u32 [unat_bytes]: "unat (ucast (a::u16) :: u32) = unat a"
  by (simp add: unsigned_ucast_eq take_bit_nat_eq_self order.strict_trans [OF unat_u16_less])

lemma unat_ucast_u16_u8 [unat_bytes]: "unat (ucast (v::u16) :: u8) = unat v mod 256"
  by (simp add: unsigned_ucast_eq take_bit_eq_mod)

lemma unat_ucast_u32_u8 [unat_bytes]: "unat (ucast (v::u32) :: u8) = unat v mod 256"
  by (simp add: unsigned_ucast_eq take_bit_eq_mod)

lemma unat_ucast_u32_u16 [unat_bytes]: "unat (ucast (v::u32) :: u16) = unat v mod 65536"
  by (simp add: unsigned_ucast_eq take_bit_eq_mod)

lemma unat_ucast_u32_u64 [unat_bytes]: "unat (ucast (a::u32) :: u64) = unat a"
  by (simp add: unsigned_ucast_eq take_bit_nat_eq_self order.strict_trans [OF unat_u32_less])

lemma unat_ucast_u64_u32 [unat_bytes]: "unat (ucast (v::u64) :: u32) = unat v mod 4294967296"
  by (simp add: unsigned_ucast_eq take_bit_eq_mod)

lemma unat_drop_bit_div: "unat (drop_bit k (v::'a::len word)) = unat v div 2 ^ k"
  unfolding unat_drop_bit_eq by (simp add: drop_bit_eq_div)

lemma unat_drop_bit_8 [unat_bytes]: "unat (drop_bit 8 (v::'a::len word)) = unat v div 256"
  using unat_drop_bit_div [of 8 v] by simp

lemma unat_drop_bit_16 [unat_bytes]: "unat (drop_bit 16 (v::'a::len word)) = unat v div 65536"
  using unat_drop_bit_div [of 16 v] by simp

lemma unat_drop_bit_24 [unat_bytes]: "unat (drop_bit 24 (v::'a::len word)) = unat v div 16777216"
  using unat_drop_bit_div [of 24 v] by simp

lemma unat_drop_bit_32 [unat_bytes]: "unat (drop_bit 32 (v::'a::len word)) = unat v div 4294967296"
  using unat_drop_bit_div [of 32 v] by simp

lemma unat_join16 [unat_bytes]:
  "unat (push_bit 8 (ucast (a::u8)) OR ucast (b::u8) :: u16) = unat a * 256 + unat b"
  using unat_or_push_bit [of "ucast a :: u16" 8 "ucast b"] unat_u8_less [of a] unat_u8_less [of b]
  by (simp add: unat_bytes)

lemma unat_join32 [unat_bytes]:
  "unat (push_bit 24 (ucast (a::u8)) OR push_bit 16 (ucast (b::u8)) OR
         push_bit 8 (ucast (c::u8)) OR ucast (d::u8) :: u32)
   = unat a * 16777216 + unat b * 65536 + unat c * 256 + unat d"
proof -
  have cd: "unat (push_bit 8 (ucast c) OR ucast d :: u32) = unat c * 256 + unat d"
    using unat_or_push_bit [of "ucast c :: u32" 8 "ucast d"] unat_u8_less [of c] unat_u8_less [of d]
    by (simp add: unat_bytes)
  have bcd: "unat (push_bit 16 (ucast b) OR push_bit 8 (ucast c) OR ucast d :: u32)
      = unat b * 65536 + unat c * 256 + unat d"
    using unat_or_push_bit [of "ucast b :: u32" 16 "push_bit 8 (ucast c) OR ucast d"]
      unat_u8_less [of b] unat_u8_less [of c] unat_u8_less [of d]
    by (simp add: cd unat_bytes)
  show ?thesis
    using unat_or_push_bit [of "ucast a :: u32" 24 "push_bit 16 (ucast b) OR push_bit 8 (ucast c) OR ucast d"]
      unat_u8_less [of a] unat_u8_less [of b] unat_u8_less [of c] unat_u8_less [of d]
    by (simp add: bcd unat_bytes)
qed

text \<open>Cutting a word into its bytes and joining them again is the identity, both ways.\<close>

lemma nat_bytes16: "v < 65536 \<Longrightarrow> v div 256 mod 256 * 256 + v mod 256 = (v::nat)"
  by (simp add: less_mult_imp_div_less)

lemma nat_bytes32:
  assumes "v < 4294967296"
  shows "v div 16777216 mod 256 * 16777216 + v div 65536 mod 256 * 65536
    + v div 256 mod 256 * 256 + v mod 256 = (v::nat)"
proof -
  have split: "x div n * n + x mod n = x" for x n :: nat by (rule div_mult_mod_eq)
  have a: "v div 16777216 mod 256 = v div 65536 div 256"
    using assms by (simp add: less_mult_imp_div_less div_mult2_eq [symmetric])
  have b: "v div 65536 = v div 256 div 256" by (simp add: div_mult2_eq [symmetric])
  show ?thesis
    using split [of "v div 65536" 256] split [of "v div 256" 256] split [of v 256]
    unfolding a b by linarith
qed

lemma nat_join16_div:
  "b < 256 \<Longrightarrow> (a * 256 + b) div 256 = (a::nat)"
  "b < 256 \<Longrightarrow> (a * 256 + b) mod 256 = (b::nat)"
  by simp_all

lemma join16_split16 [simp]:
  "(push_bit 8 (ucast (ucast (drop_bit 8 v) :: u8)) OR ucast (ucast v :: u8) :: u16) = v"
  unfolding word_unat_eq_iff unat_bytes by (rule nat_bytes16) (rule unat_u16_less)

lemma split16_join16:
  "(ucast (drop_bit 8 (push_bit 8 (ucast (a::u8)) OR ucast (b::u8) :: u16)) :: u8) = a"
  "(ucast (push_bit 8 (ucast (a::u8)) OR ucast (b::u8) :: u16) :: u8) = b"
  unfolding word_unat_eq_iff unat_bytes by (simp_all only: nat_join16_div unat_u8_less mod_less)

lemma join32_split32 [simp]:
  "(push_bit 24 (ucast (ucast (drop_bit 24 v) :: u8)) OR push_bit 16 (ucast (ucast (drop_bit 16 v) :: u8)) OR
    push_bit 8 (ucast (ucast (drop_bit 8 v) :: u8)) OR ucast (ucast v :: u8) :: u32) = v"
  unfolding word_unat_eq_iff unat_bytes by (rule nat_bytes32) (rule unat_u32_less)

lemma nat_join32_div:
  fixes a b c d :: nat
  assumes "a < 256" "b < 256" "c < 256" "d < 256"
  defines "v \<equiv> a * 16777216 + b * 65536 + c * 256 + d"
  shows "v div 16777216 mod 256 = a" "v div 65536 mod 256 = b"
    "v div 256 mod 256 = c" "v mod 256 = d"
proof -
  have v: "v = ((a * 256 + b) * 256 + c) * 256 + d" by (simp add: v_def)
  have v1: "v div 256 = (a * 256 + b) * 256 + c" "v mod 256 = d"
    unfolding v by (rule nat_join16_div, fact)+
  have "v div 65536 = v div 256 div 256" by (simp add: div_mult2_eq [symmetric])
  then have v2: "v div 65536 = a * 256 + b" unfolding v1 by (simp only: nat_join16_div assms)
  have "v div 16777216 = v div 65536 div 256" by (simp add: div_mult2_eq [symmetric])
  then have v3: "v div 16777216 = a" unfolding v2 by (simp only: nat_join16_div assms)
  show "v div 16777216 mod 256 = a" "v div 65536 mod 256 = b"
    "v div 256 mod 256 = c" "v mod 256 = d"
    unfolding v1 v2 v3 using assms(1-4) by (simp_all only: nat_join16_div mod_less)
qed

lemma split32_join32:
  fixes a b c d :: u8
  defines "v \<equiv> push_bit 24 (ucast a) OR push_bit 16 (ucast b) OR push_bit 8 (ucast c) OR ucast d :: u32"
  shows "(ucast (drop_bit 24 v) :: u8) = a" "(ucast (drop_bit 16 v) :: u8) = b"
    "(ucast (drop_bit 8 v) :: u8) = c" "(ucast v :: u8) = d"
  unfolding v_def word_unat_eq_iff unat_bytes
  by (simp_all only: nat_join32_div unat_u8_less)

lemma unat_join64 [unat_bytes]:
  "unat (push_bit 32 (ucast (a::u32)) OR ucast (b::u32) :: u64) = unat a * 4294967296 + unat b"
  using unat_or_push_bit [of "ucast a :: u64" 32 "ucast b"] unat_u32_less [of a] unat_u32_less [of b]
  by (simp add: unat_bytes)

lemma join64_split64 [simp]:
  "(push_bit 32 (ucast (ucast (drop_bit 32 v) :: u32)) OR ucast (ucast v :: u32) :: u64) = v"
proof -
  have "unat v div 4294967296 mod 4294967296 * 4294967296 + unat v mod 4294967296 = unat v"
    using unat_u64_less [of v] by (simp add: less_mult_imp_div_less)
  then show ?thesis unfolding word_unat_eq_iff unat_bytes .
qed

lemma split64_join64:
  "(ucast (drop_bit 32 (push_bit 32 (ucast (a::u32)) OR ucast (b::u32) :: u64)) :: u32) = a"
  "(ucast (push_bit 32 (ucast (a::u32)) OR ucast (b::u32) :: u64) :: u32) = b"
  unfolding word_unat_eq_iff unat_bytes using unat_u32_less [of a] unat_u32_less [of b] by simp_all

section \<open>Buffers\<close>

text \<open>
  \<open>memcpy_at buf off bs\<close> is \<^verbatim>\<open>memcpy(buf + off, bs, sizeof bs)\<close>. A copy that runs past
  the end of the buffer would make the list longer, so that a copy keeps the length of the
  buffer exactly when it stays inside it (\<open>length_memcpy_at_iff\<close>).
\<close>

definition memcpy_at :: "'a list \<Rightarrow> nat \<Rightarrow> 'a list \<Rightarrow> 'a list" where
  "memcpy_at buf off bs = take off buf @ bs @ drop (off + length bs) buf"

lemma length_memcpy_at [simp]:
  "off + length bs \<le> length buf \<Longrightarrow> length (memcpy_at buf off bs) = length buf"
  by (simp add: memcpy_at_def)

lemma length_memcpy_at_iff:
  "bs \<noteq> [] \<Longrightarrow> off \<le> length buf \<Longrightarrow>
   length (memcpy_at buf off bs) = length buf \<longleftrightarrow> off + length bs \<le> length buf"
  by (auto simp: memcpy_at_def min_def)

lemma nth_memcpy_at [buf_simps]:
  assumes "off + length bs \<le> length buf" and "i < length buf"
  shows "memcpy_at buf off bs ! i =
    (if off \<le> i \<and> i < off + length bs then bs ! (i - off) else buf ! i)"
  using assms by (auto simp: memcpy_at_def nth_append min_def)

lemma memcpy_at_0: "memcpy_at buf 0 bs = bs @ drop (length bs) buf"
  by (simp add: memcpy_at_def)

text \<open>Copies into a buffer that is known piecewise.\<close>

lemma memcpy_at_append_right [buf_simps]:
  "length xs \<le> off \<Longrightarrow> memcpy_at (xs @ ys) off bs = xs @ memcpy_at ys (off - length xs) bs"
  by (simp add: memcpy_at_def)

lemma memcpy_at_Cons [buf_simps]: "0 < off \<Longrightarrow> memcpy_at (x # xs) off bs = x # memcpy_at xs (off - 1) bs"
  using memcpy_at_append_right [of "[x]" off xs bs] by simp

lemma memcpy_at_append_left [buf_simps]:
  "off + length bs \<le> length xs \<Longrightarrow> memcpy_at (xs @ ys) off bs = memcpy_at xs off bs @ ys"
  by (simp add: memcpy_at_def)

lemma take_memcpy_at_0: "n \<le> length bs \<Longrightarrow> take n (memcpy_at buf 0 bs) = take n bs"
  by (simp add: memcpy_at_def)

lemma numeral_4_eq_4: "(4::nat) = Suc (Suc (Suc (Suc 0)))"
  by simp

text \<open>A list of known length, as its elements: used to open a header of 12 bytes.\<close>

lemma option_eqI: "(\<And>a. x = Some a \<longleftrightarrow> y = Some a) \<Longrightarrow> x = y"
  by (cases x; cases y) auto

lemma list_eq_nth_upt: "length xs = n \<Longrightarrow> xs = map ((!) xs) [0..<n]"
  by (metis map_nth)

lemma take_drop_nth_upt:
  "i + n \<le> length xs \<Longrightarrow> take n (drop i xs) = map (\<lambda>k. xs ! (i + k)) [0..<n]"
  by (rule nth_equalityI) auto

end
