(* ===== verification/Protocol.thy ===== *)
theory Protocol
  imports Prelude
begin

text \<open>
  The wire contract of \<^verbatim>\<open>common/protocol.h\<close> (and its identical copy
  \<^verbatim>\<open>firmware/protocol.h\<close>): framing constants, packet types, error codes, and the
  packed structs of the header and the payloads as records whose fields have the C widths.
\<close>

section \<open>Framing constants\<close>

named_theorems pl_consts "values of the protocol constants"

definition PL_MAGIC :: u16 where
  [pl_consts]: "PL_MAGIC = 0x504C"

definition PL_VERSION :: u8 where
  [pl_consts]: "PL_VERSION = 0x01"

definition PL_HDR_SIZE :: nat where
  [pl_consts]: "PL_HDR_SIZE = 12"

definition PL_MAX_PAYLOAD :: nat where
  [pl_consts]: "PL_MAX_PAYLOAD = 1100"

section \<open>Packet types and error codes\<close>

datatype pkt_type = PKT_HELLO | PKT_HELLO_ACK | PKT_SENSOR | PKT_ACK | PKT_HEARTBEAT
  | PKT_FRAME | PKT_ERROR

fun pkt_code :: "pkt_type \<Rightarrow> u8" where
  "pkt_code PKT_HELLO = 0x01"
| "pkt_code PKT_HELLO_ACK = 0x02"
| "pkt_code PKT_SENSOR = 0x03"
| "pkt_code PKT_ACK = 0x04"
| "pkt_code PKT_HEARTBEAT = 0x05"
| "pkt_code PKT_FRAME = 0x06"
| "pkt_code PKT_ERROR = 0x07"

datatype pl_error = PL_ERR_BAD_MAGIC | PL_ERR_BAD_VERSION | PL_ERR_BAD_CHECKSUM
  | PL_ERR_BAD_TYPE | PL_ERR_TOO_BIG | PL_ERR_NO_HELLO

fun err_code :: "pl_error \<Rightarrow> u16" where
  "err_code PL_ERR_BAD_MAGIC = 0x0001"
| "err_code PL_ERR_BAD_VERSION = 0x0002"
| "err_code PL_ERR_BAD_CHECKSUM = 0x0003"
| "err_code PL_ERR_BAD_TYPE = 0x0004"
| "err_code PL_ERR_TOO_BIG = 0x0005"
| "err_code PL_ERR_NO_HELLO = 0x0006"

text \<open>The switches on packet types and error codes are unambiguous.\<close>

lemma pkt_code_inj [simp]: "pkt_code a = pkt_code b \<longleftrightarrow> a = b"
  by (cases a; cases b) simp_all

lemma err_code_inj [simp]: "err_code a = err_code b \<longleftrightarrow> a = b"
  by (cases a; cases b) simp_all

section \<open>Header and payload structs\<close>

record pl_header =
  h_magic :: u16
  h_version :: u8
  h_type :: u8
  h_device_id :: u32
  h_payload_len :: u16
  h_checksum :: u16

record pl_hello_payload =
  firmware_version :: u32
  capabilities :: u32

record pl_hello_ack_payload =
  ha_session_id :: u32

record pl_sensor_payload =
  s_seq :: u32
  s_timestamp_ms :: u32
  s_temperature :: i32
  s_humidity :: i32

record pl_ack_payload =
  acked_seq :: u32

record pl_heartbeat_payload =
  uptime_ms :: u32
  free_heap :: u32

record pl_error_payload =
  error_code :: u16

record pl_frame_header =
  f_width :: u16
  f_height :: u16
  f_frame_seq :: u32
  f_chunk_idx :: u16
  f_chunk_count :: u16

end
