(* ===== verification/Checksum.thy ===== *)
theory Checksum
  imports Protocol
begin

text \<open>
  \<^verbatim>\<open>common/checksum.c\<close> (copied unchanged to \<^verbatim>\<open>firmware/checksum.c\<close>): the 16-bit
  ones'-complement sum of RFC 1071 over a byte buffer, with the two loops of the code and its
  32-bit accumulator. The lemmas show that the carry-folding loop ends, that the result is
  the complement of the sum modulo 65535, and what corruption it detects.
\<close>

section \<open>The code\<close>

text \<open>
  \<open>sum_words data len i acc\<close> is the loop over complete 16-bit words; it returns the index at
  which it stops and the accumulator.
\<close>

function sum_words :: "u8 list \<Rightarrow> nat \<Rightarrow> nat \<Rightarrow> u32 \<Rightarrow> nat \<times> u32" where
  "sum_words data len i acc =
     (if i + 1 < len then
        let word = push_bit 8 (ucast (data ! i)) OR ucast (data ! (i + 1)) :: u16
        in sum_words data len (i + 2) (acc + ucast word)
      else (i, acc))"
  by pat_completeness auto
termination
  by (relation "measure (\<lambda>(data, len, i, acc). len - i)") auto

declare sum_words.simps [simp del]

lemma unat_and_FFFF: "unat (acc AND 0xFFFF :: u32) = unat acc mod 65536"
proof -
  have "unat acc AND 65535 = take_bit 16 (unat acc)"
    by (simp add: take_bit_eq_mask mask_eq_exp_minus_1)
  then show ?thesis
    by (simp only: unsigned_and_eq) (simp add: take_bit_eq_mod)
qed

lemma unat_fold_step:
  "unat ((acc AND 0xFFFF) + drop_bit 16 acc :: u32) = unat acc mod 65536 + unat acc div 65536"
proof -
  have "unat acc div 65536 < 65536"
    using unat_u32_less [of acc] by (simp add: less_mult_imp_div_less)
  moreover have "unat acc mod 65536 < 65536" by simp
  ultimately show ?thesis
    by (simp only: unat_word_ariths unat_and_FFFF unat_bytes) simp
qed

lemma drop_bit_16_eq_0: "drop_bit 16 (acc::u32) = 0 \<longleftrightarrow> unat acc < 65536"
proof -
  have "drop_bit 16 acc = 0 \<longleftrightarrow> unat (drop_bit 16 acc) = 0"
    by (simp only: unat_eq_0)
  then show ?thesis by (simp only: unat_bytes) (simp add: div_eq_0_iff)
qed

text \<open>The loop that folds the carry bits back, \<^verbatim>\<open>while (sum >> 16) ...\<close>: every pass makes the accumulator smaller.\<close>

function fold_carries :: "u32 \<Rightarrow> u32" where
  "fold_carries acc =
     (if drop_bit 16 acc \<noteq> 0 then fold_carries ((acc AND 0xFFFF) + drop_bit 16 acc) else acc)"
  by pat_completeness auto
termination
proof (relation "measure unat", simp)
  fix acc :: u32
  assume "drop_bit 16 acc \<noteq> 0"
  then have "65536 \<le> unat acc" by (simp only: drop_bit_16_eq_0 not_less)
  then have "unat acc mod 65536 + unat acc div 65536 < unat acc"
    using div_mult_mod_eq [of "unat acc" 65536] by linarith
  then show "((acc AND 0xFFFF) + drop_bit 16 acc, acc) \<in> measure unat"
    by (simp only: in_measure unat_fold_step)
qed

declare fold_carries.simps [simp del]

definition pl_checksum :: "u8 list \<Rightarrow> nat \<Rightarrow> u16" where
  "pl_checksum data len =
     (let (i, acc) = sum_words data len 0 0;
          acc' = (if i < len then acc + ucast (push_bit 8 (ucast (data ! i)) :: u16) else acc)
      in ucast (NOT (fold_carries acc')))"

section \<open>The specification: a sum modulo 65535\<close>

text \<open>
  \<open>be_sum\<close> is the sum of the big-endian 16-bit words of a byte list, a missing last byte
  counting as zero; \<open>oc_norm\<close> is the representative in \<open>1 .. 65535\<close> of a nonzero sum
  modulo 65535, the value of ones'-complement addition.
\<close>

fun be_sum :: "u8 list \<Rightarrow> nat" where
  "be_sum [] = 0"
| "be_sum [a] = unat a * 256"
| "be_sum (a # b # bs) = unat a * 256 + unat b + be_sum bs"

definition oc_norm :: "nat \<Rightarrow> nat" where
  "oc_norm s = (if s = 0 then 0 else (s - 1) mod 65535 + 1)"

lemma oc_norm_le: "oc_norm s \<le> 65535"
proof -
  have "(s - 1) mod 65535 < 65535" by simp
  then have "(s - 1) mod 65535 + 1 \<le> 65535" by linarith
  then show ?thesis unfolding oc_norm_def by simp
qed

lemma oc_norm_small: "s < 65536 \<Longrightarrow> oc_norm s = s"
  by (auto simp: oc_norm_def)

lemma oc_norm_mod: "oc_norm s mod 65535 = s mod 65535"
proof (cases "s = 0")
  case False
  then have "((s - 1) mod 65535 + 1) mod 65535 = (s - 1 + 1) mod 65535"
    by (simp only: mod_add_left_eq)
  with False show ?thesis by (simp add: oc_norm_def)
qed (simp add: oc_norm_def)

lemma oc_norm_cong:
  assumes "s mod 65535 = t mod 65535" and "s = 0 \<longleftrightarrow> t = 0"
  shows "oc_norm s = oc_norm t"
proof (cases "s = 0")
  case False
  with assms(2) have st: "1 \<le> s" "1 \<le> t" by simp_all
  have "(s - 1) mod 65535 = (t - 1) mod 65535"
    using assms(1) st by (auto simp: nat_mod_eq_iff) (metis Nat.add_diff_assoc2)
  with False assms(2) show ?thesis by (simp add: oc_norm_def)
qed (use assms in \<open>simp add: oc_norm_def\<close>)

section \<open>The code computes the specification\<close>

lemma oc_norm_fold_step: "oc_norm (s mod 65536 + s div 65536) = oc_norm s"
proof (rule oc_norm_cong)
  have "s = s div 65536 * 65535 + (s mod 65536 + s div 65536)"
    using div_mult_mod_eq [of s 65536] by linarith
  then have "s mod 65535 = (s div 65536 * 65535 + (s mod 65536 + s div 65536)) mod 65535"
    by (rule arg_cong)
  then show "(s mod 65536 + s div 65536) mod 65535 = s mod 65535"
    by (simp only: mod_mult_self3)
  show "(s mod 65536 + s div 65536 = 0) = (s = 0)"
    using div_mult_mod_eq [of s 65536] by auto
qed

lemma unat_fold_carries: "unat (fold_carries acc) = oc_norm (unat acc)"
proof (induction acc rule: fold_carries.induct)
  case (1 acc)
  show ?case
  proof (cases "drop_bit 16 acc = 0")
    case True
    then show ?thesis
      by (simp add: fold_carries.simps [of acc] oc_norm_small drop_bit_16_eq_0 [symmetric])
  next
    case False
    then have "unat (fold_carries acc) = oc_norm (unat ((acc AND 0xFFFF) + drop_bit 16 acc))"
      using "1.IH" by (simp only: fold_carries.simps [of acc] if_True not_False_eq_True)
    then show ?thesis by (simp only: unat_fold_step oc_norm_fold_step)
  qed
qed

lemma unat_ucast_not:
  assumes "unat (x::u32) < 65536"
  shows "unat (ucast (NOT x) :: u16) = 65535 - unat x"
proof -
  have "NOT x = -1 - x" by (simp only: not_eq_complement diff_conv_add_uminus add.commute)
  then have "unat (NOT x) = unat (-1 - x)" by (rule arg_cong)
  also have "\<dots> = unat (-1 :: u32) - unat x" by (rule unat_sub) simp
  also have "\<dots> = 4294967295 - unat x" by (simp add: unsigned_minus_1_eq_mask mask_eq_exp_minus_1)
  also have "\<dots> = 65535 * 65536 + (65535 - unat x)" using assms by linarith
  finally show ?thesis
    by (simp only: unat_bytes mod_mult_self3) (simp add: less_Suc_eq_le)
qed

lemma ucast_be_word:
  "(ucast (push_bit 8 (ucast (a::u8)) OR ucast (b::u8) :: u16) :: u32) = of_nat (unat a * 256 + unat b)"
proof -
  have "unat a * 256 + unat b < 4294967296"
    using unat_u8_less [of a] unat_u8_less [of b] by linarith
  then have "unat (of_nat (unat a * 256 + unat b) :: u32) = unat a * 256 + unat b"
    by (intro unat_of_nat_small) simp
  then show ?thesis unfolding word_unat_eq_iff unat_bytes by (rule sym)
qed

lemma ucast_be_byte: "(ucast (push_bit 8 (ucast (a::u8)) :: u16) :: u32) = of_nat (unat a * 256)"
  using ucast_be_word [of a 0] by simp

lemma drop_Suc2_nth: "i + 1 < length xs \<Longrightarrow> drop i xs = xs ! i # xs ! (i + 1) # drop (i + 2) xs"
  by (simp add: Cons_nth_drop_Suc)

lemma sum_words_be_sum:
  assumes "len \<le> length data"
  shows "(case sum_words data len i acc of (j, a) \<Rightarrow>
      if j < len then a + ucast (push_bit 8 (ucast (data ! j)) :: u16) else a)
    = acc + of_nat (be_sum (drop i (take len data)))"
  using assms
proof (induction data len i acc rule: sum_words.induct)
  case (1 data len i acc)
  show ?case
  proof (cases "i + 1 < len")
    case True
    then have d: "drop i (take len data) = data ! i # data ! (i + 1) # drop (i + 2) (take len data)"
      using "1.prems" drop_Suc2_nth [of i "take len data"] by simp
    show ?thesis
      unfolding sum_words.simps [of data len i acc] d Let_def
      using True "1.IH" [OF True refl "1.prems", unfolded ucast_be_word]
      by (simp only: if_True be_sum.simps ucast_be_word of_nat_add add.assoc)
  next
    case False
    then have "i < len \<Longrightarrow> len = Suc i" by simp
    then have d: "drop i (take len data) = (if i < len then [data ! i] else [])"
      using "1.prems" by (auto simp: take_Suc_conv_app_nth)
    show ?thesis
      unfolding sum_words.simps [of data len i acc] d
      using False by (simp only: if_False prod.case ucast_be_byte) simp
  qed
qed

lemma be_sum_le: "be_sum bs \<le> 65535 * ((length bs + 1) div 2)"
proof (induction bs rule: be_sum.induct)
  case (2 a)
  show ?case using unat_u8_less [of a] by simp
next
  case (3 a b bs)
  then show ?case using unat_u8_less [of a] unat_u8_less [of b] by simp
qed simp

text \<open>
  131074 bytes (65537 words) is the longest buffer whose sum fits the 32-bit accumulator
  whatever it holds; the protocol never checks more than 1100 bytes.
\<close>

lemma pl_checksum_spec:
  assumes "len \<le> length data" and "len \<le> 131074"
  shows "unat (pl_checksum data len) = 65535 - oc_norm (be_sum (take len data))"
proof -
  have "be_sum (take len data) \<le> 65535 * ((len + 1) div 2)"
    using be_sum_le [of "take len data"] assms(1) by simp
  also have "\<dots> \<le> 65535 * 65537" using assms(2) by (intro mult_le_mono) simp_all
  finally have "unat (of_nat (be_sum (take len data)) :: u32) = be_sum (take len data)"
    by (intro unat_of_nat_small) simp
  moreover have "pl_checksum data len =
      ucast (NOT (fold_carries (of_nat (be_sum (take len data)))))"
    using sum_words_be_sum [OF assms(1), of 0 0]
    by (simp add: pl_checksum_def Let_def split: prod.split_asm prod.split)
  ultimately show ?thesis
    using oc_norm_le [of "be_sum (take len data)"]
    by (simp add: unat_ucast_not unat_fold_carries less_Suc_eq_le)
qed

text \<open>The checksum reads the first \<open>len\<close> bytes and nothing else.\<close>

lemma sum_words_cong:
  "(\<And>j. j < len \<Longrightarrow> data ! j = data' ! j) \<Longrightarrow> sum_words data len i acc = sum_words data' len i acc"
proof (induction data len i acc rule: sum_words.induct)
  case (1 data len i acc)
  show ?case
  proof (cases "i + 1 < len")
    case True
    then have "data ! i = data' ! i" "data ! (i + 1) = data' ! (i + 1)"
      using "1.prems" by simp_all
    then show ?thesis
      unfolding sum_words.simps [of data len i acc] sum_words.simps [of data' len i acc] Let_def
      using True "1.IH" [OF True refl "1.prems"] by (simp only: if_True)
  next
    case False
    then show ?thesis
      by (simp add: sum_words.simps [of data len i acc] sum_words.simps [of data' len i acc])
  qed
qed

lemma pl_checksum_cong:
  assumes "\<And>j. j < len \<Longrightarrow> data ! j = data' ! j"
  shows "pl_checksum data len = pl_checksum data' len"
  using sum_words_cong [OF assms, of len] assms
  by (simp add: pl_checksum_def split: prod.split)

lemma pl_checksum_append [simp]: "pl_checksum (data @ rest) (length data) = pl_checksum data (length data)"
  by (rule pl_checksum_cong) (simp add: nth_append)

lemma pl_checksum_take [simp]: "pl_checksum (take len data) len = pl_checksum data len"
  by (rule pl_checksum_cong) simp

section \<open>What the checksum detects\<close>

text \<open>A byte at an even offset is the high byte of its word.\<close>

definition byte_weight :: "nat \<Rightarrow> nat" where
  "byte_weight i = (if even i then 256 else 1)"

lemma be_sum_update:
  "i < length bs \<Longrightarrow>
   be_sum (bs[i := x]) + byte_weight i * unat (bs ! i) = be_sum bs + byte_weight i * unat x"
proof (induction bs arbitrary: i rule: be_sum.induct)
  case (3 a b bs)
  show ?case
  proof (cases "i < 2")
    case True
    then have "i = 0 \<or> i = 1" by linarith
    then show ?thesis by (auto simp: byte_weight_def)
  next
    case False
    then obtain j where "i = Suc (Suc j)" by (metis add_2_eq_Suc le_Suc_ex not_less)
    with "3.IH" [of j] "3.prems" show ?thesis by (simp add: byte_weight_def)
  qed
qed (auto simp: byte_weight_def)

lemma be_sum_append: "even (length bs) \<Longrightarrow> be_sum (bs @ cs) = be_sum bs + be_sum cs"
  by (induction bs rule: be_sum.induct) auto

lemma checksum_eq_imp_mod_eq:
  assumes "len \<le> length data" "len \<le> length data'" "len \<le> 131074"
    and "pl_checksum data len = pl_checksum data' len"
  shows "be_sum (take len data) mod 65535 = be_sum (take len data') mod 65535"
proof -
  have "65535 - oc_norm (be_sum (take len data)) = 65535 - oc_norm (be_sum (take len data'))"
    using assms by (metis pl_checksum_spec)
  then have "oc_norm (be_sum (take len data)) = oc_norm (be_sum (take len data'))"
    using oc_norm_le [of "be_sum (take len data)"] oc_norm_le [of "be_sum (take len data')"]
    by linarith
  then show ?thesis by (metis oc_norm_mod)
qed

lemma weighted_byte_diff_nonzero_mod:
  assumes "a \<noteq> (b::u8)" and "s + byte_weight i * unat a = t + byte_weight i * unat b"
  shows "s mod 65535 \<noteq> t mod 65535"
proof
  assume "s mod 65535 = t mod 65535"
  then obtain p q where pq: "s + 65535 * p = t + 65535 * q"
    using nat_mod_eq_iff by blast
  have ab: "unat a \<noteq> unat b" using assms(1) by (simp add: word_unat_eq_iff)
  have lt: "byte_weight i * unat a < 65535" "byte_weight i * unat b < 65535"
    using unat_u8_less [of a] unat_u8_less [of b] by (auto simp: byte_weight_def)
  have "byte_weight i * unat b + 65535 * p = byte_weight i * unat a + 65535 * q"
    using pq assms(2) by linarith
  then have "byte_weight i * unat b mod 65535 = byte_weight i * unat a mod 65535"
    by (metis mod_mult_self2)
  then have "byte_weight i * unat b = byte_weight i * unat a" using lt by simp
  with ab show False by (auto simp: byte_weight_def split: if_splits)
qed

lemma be_sum_eq_0: "be_sum bs = 0 \<longleftrightarrow> (\<forall>b \<in> set bs. b = 0)"
  by (induction bs rule: be_sum.induct) (auto simp: unat_eq_0)

lemma oc_norm_eq_0: "oc_norm s = 0 \<longleftrightarrow> s = 0"
  by (simp add: oc_norm_def)

lemma oc_norm_complement: "oc_norm (s + (65535 - oc_norm s)) = 65535"
proof -
  have "(oc_norm s + (65535 - oc_norm s)) mod 65535 = 0" using oc_norm_le [of s] by simp
  then have m: "(s + (65535 - oc_norm s)) mod 65535 = 65535 mod 65535"
    using oc_norm_mod [of s] by (metis mod_add_left_eq mod_self)
  have "s + (65535 - oc_norm s) \<noteq> 0" by (cases "s = 0") (simp_all add: oc_norm_def)
  then have "oc_norm (s + (65535 - oc_norm s)) = oc_norm 65535"
    by (intro oc_norm_cong m) simp
  then show ?thesis by (simp add: oc_norm_small)
qed

lemma be_word_sum: "unat (ucast (drop_bit 8 c) :: u8) * 256 + unat (ucast (c::u16) :: u8) = unat c"
  unfolding unat_bytes by (rule nat_bytes16) (rule unat_u16_less)

lemma checksum_byte_changes:
  assumes "len \<le> length data" and "len \<le> 131074" and "i < len" and "x \<noteq> data ! i"
  shows "pl_checksum (data[i := x]) len \<noteq> pl_checksum data len"
proof
  assume eq: "pl_checksum (data[i := x]) len = pl_checksum data len"
  have "be_sum (take len (data[i := x])) mod 65535 = be_sum (take len data) mod 65535"
    by (rule checksum_eq_imp_mod_eq) (use assms eq in simp_all)
  moreover have "be_sum (take len (data[i := x])) + byte_weight i * unat (data ! i)
      = be_sum (take len data) + byte_weight i * unat x"
    using be_sum_update [of i "take len data" x] assms by (simp add: take_update_swap)
  ultimately show False
    using weighted_byte_diff_nonzero_mod [OF not_sym [OF assms(4)]] by blast
qed

section \<open>Properties\<close>

text \<open>
  C12. The RFC 1071 equation that a receiver checks, and the only way to the all-ones value:
  the sum of the big-endian words and the checksum is 0 modulo 65535, and the checksum is
  0xFFFF exactly for an all-zero payload, for every buffer of up to 131074 bytes.
\<close>

theorem pl_checksum_rfc1071:
  assumes "len \<le> length data" and "len \<le> 131074"
  shows "(be_sum (take len data) + unat (pl_checksum data len)) mod 65535 = 0 \<and>
    (pl_checksum data len = 0xFFFF \<longleftrightarrow> (\<forall>b \<in> set (take len data). b = 0))"
proof
  let ?s = "be_sum (take len data)"
  have "oc_norm (?s + (65535 - oc_norm ?s)) mod 65535 = 0" by (simp add: oc_norm_complement)
  then show "(?s + unat (pl_checksum data len)) mod 65535 = 0"
    by (simp only: oc_norm_mod pl_checksum_spec [OF assms])
  have "pl_checksum data len = 0xFFFF \<longleftrightarrow> 65535 - oc_norm ?s = 65535"
    by (simp add: word_unat_eq_iff pl_checksum_spec [OF assms])
  also have "\<dots> \<longleftrightarrow> oc_norm ?s = 0" using oc_norm_le [of ?s] by linarith
  finally show "pl_checksum data len = 0xFFFF \<longleftrightarrow> (\<forall>b \<in> set (take len data). b = 0)"
    by (simp add: oc_norm_eq_0 be_sum_eq_0)
qed

theorem pl_checksum_rfc1071_witness:
  "(be_sum [0x12, 0x34, 0x56] + unat (pl_checksum [0x12, 0x34, 0x56] 3)) mod 65535 = 0 \<and>
   pl_checksum [0x12, 0x34, 0x56] 3 = 0x97CB"
proof
  show "(be_sum [0x12, 0x34, 0x56] + unat (pl_checksum [0x12, 0x34, 0x56] 3)) mod 65535 = 0"
    using pl_checksum_rfc1071 [of 3 "[0x12, 0x34, 0x56]"] by simp
  show "pl_checksum [0x12, 0x34, 0x56] 3 = 0x97CB"
    by (simp add: pl_checksum_def sum_words.simps fold_carries.simps)
qed

text \<open>
  C33. Every corruption of a single byte, so in particular every single-bit flip, changes the
  checksum, for every payload of up to 131074 bytes.
\<close>

theorem pl_checksum_detects_byte:
  assumes "len \<le> length data" and "len \<le> 131074" and "i < len" and "x \<noteq> data ! i"
  shows "pl_checksum (data[i := x]) len \<noteq> pl_checksum data len"
  using assms by (rule checksum_byte_changes)

theorem pl_checksum_detects_byte_witness:
  "pl_checksum [0, 1 XOR 128, 2] 3 \<noteq> pl_checksum [0, 1, 2] 3"
  using pl_checksum_detects_byte [of 3 "[0, 1, 2]" 1 "1 XOR 128"] by simp

text \<open>
  The self-verifying property of the header: a payload of even length followed by its own
  checksum in big-endian order has checksum 0.
\<close>

lemma pl_checksum_self_verify:
  assumes "length data \<le> 131072" and "even (length data)"
  shows "let c = pl_checksum data (length data) in
    pl_checksum (data @ [ucast (drop_bit 8 c), ucast c]) (length data + 2) = 0"
proof -
  define c where "c = pl_checksum data (length data)"
  have c: "unat c = 65535 - oc_norm (be_sum data)"
    using pl_checksum_spec [of "length data" data] assms(1) by (simp add: c_def)
  have "be_sum (data @ [ucast (drop_bit 8 c), ucast c]) = be_sum data + unat c"
    using assms(2) be_word_sum [of c] by (simp add: be_sum_append)
  then have "unat (pl_checksum (data @ [ucast (drop_bit 8 c), ucast c]) (length data + 2)) = 0"
    using assms(1) by (subst pl_checksum_spec) (simp_all add: c oc_norm_complement)
  then show ?thesis by (simp only: Let_def c_def unat_eq_0)
qed

end
