(* ===== verification/Codec.thy ===== *)
theory Codec
  imports Prelude
begin

text \<open>
  The contract every fixed-width byte layout of the program fulfils, as locales: an encoder
  and a decoder of a fixed width where decoding a buffer that starts with an encoding gives
  the value back (\<open>byte_codec\<close>), and, where every run of bytes of the width is the encoding
  of some value, the other round trip as well (\<open>total_codec\<close>). The wire header, the payload
  structs, the firmware's integers and the kernel records are interpretations.

  The second half models the layout of C integers in host memory, for both byte orders, and
  the byte-swapping functions the server uses.
\<close>

section \<open>The contract\<close>

locale byte_codec =
  fixes enc :: "'a \<Rightarrow> u8 list" and dec :: "u8 list \<Rightarrow> 'a" and width :: nat
  assumes length_enc: "length (enc x) = width"
    and dec_enc: "dec (enc x @ rest) = x"
begin

lemma dec_enc_exact: "dec (enc x) = x"
  using dec_enc [of x "[]"] by simp

lemma enc_inj: "enc x = enc y \<Longrightarrow> x = y"
  by (metis dec_enc_exact)

lemma enc_prefix_free: "enc x @ rest = enc y @ rest' \<Longrightarrow> x = y \<and> rest = rest'"
  by (metis append_eq_append_conv dec_enc length_enc)

lemma dec_at: "dec (drop (length pre) (pre @ enc x @ rest)) = x"
  by (simp add: dec_enc)

end

locale total_codec = byte_codec +
  assumes enc_dec: "width \<le> length bs \<Longrightarrow> enc (dec bs) = take width bs"
begin

lemma dec_inj: "length bs = width \<Longrightarrow> length cs = width \<Longrightarrow> dec bs = dec cs \<Longrightarrow> bs = cs"
  by (metis enc_dec order.refl take_all)

lemma dec_take: "width \<le> length bs \<Longrightarrow> dec (take width bs) = dec bs"
  by (metis dec_enc_exact enc_dec)

end

section \<open>C integers in host memory, and the byte-swapping functions\<close>

text \<open>
  The server writes packed structs with \<^verbatim>\<open>memcpy\<close> after \<^verbatim>\<open>htons\<close>/\<^verbatim>\<open>htonl\<close>, so
  its bytes depend on the byte order of the host twice, once in the layout and once in the
  swap. Both are modelled for either order; the lemmas \<open>mem_htons\<close> and \<open>mem_htonl\<close> show
  that the two dependencies cancel.
\<close>

datatype endian = LittleEndian | BigEndian

fun mem_u16 :: "endian \<Rightarrow> u16 \<Rightarrow> u8 list" where
  "mem_u16 BigEndian v = [ucast (drop_bit 8 v), ucast v]"
| "mem_u16 LittleEndian v = [ucast v, ucast (drop_bit 8 v)]"

fun mem_u32 :: "endian \<Rightarrow> u32 \<Rightarrow> u8 list" where
  "mem_u32 BigEndian v =
     [ucast (drop_bit 24 v), ucast (drop_bit 16 v), ucast (drop_bit 8 v), ucast v]"
| "mem_u32 LittleEndian v =
     [ucast v, ucast (drop_bit 8 v), ucast (drop_bit 16 v), ucast (drop_bit 24 v)]"

fun mem_u64 :: "endian \<Rightarrow> u64 \<Rightarrow> u8 list" where
  "mem_u64 BigEndian v = mem_u32 BigEndian (ucast (drop_bit 32 v)) @ mem_u32 BigEndian (ucast v)"
| "mem_u64 LittleEndian v = mem_u32 LittleEndian (ucast v) @ mem_u32 LittleEndian (ucast (drop_bit 32 v))"

definition join_u16 :: "u8 \<Rightarrow> u8 \<Rightarrow> u16" where
  "join_u16 a b = push_bit 8 (ucast a) OR ucast b"

definition join_u32 :: "u8 \<Rightarrow> u8 \<Rightarrow> u8 \<Rightarrow> u8 \<Rightarrow> u32" where
  "join_u32 a b c d =
     push_bit 24 (ucast a) OR push_bit 16 (ucast b) OR push_bit 8 (ucast c) OR ucast d"

fun ld_u16 :: "endian \<Rightarrow> u8 list \<Rightarrow> u16" where
  "ld_u16 BigEndian bs = join_u16 (bs ! 0) (bs ! 1)"
| "ld_u16 LittleEndian bs = join_u16 (bs ! 1) (bs ! 0)"

fun ld_u32 :: "endian \<Rightarrow> u8 list \<Rightarrow> u32" where
  "ld_u32 BigEndian bs = join_u32 (bs ! 0) (bs ! 1) (bs ! 2) (bs ! 3)"
| "ld_u32 LittleEndian bs = join_u32 (bs ! 3) (bs ! 2) (bs ! 1) (bs ! 0)"

fun ld_u64 :: "endian \<Rightarrow> u8 list \<Rightarrow> u64" where
  "ld_u64 BigEndian bs =
     push_bit 32 (ucast (ld_u32 BigEndian bs)) OR ucast (ld_u32 BigEndian (drop 4 bs))"
| "ld_u64 LittleEndian bs =
     push_bit 32 (ucast (ld_u32 LittleEndian (drop 4 bs))) OR ucast (ld_u32 LittleEndian bs)"

fun htons :: "endian \<Rightarrow> u16 \<Rightarrow> u16" where
  "htons BigEndian v = v"
| "htons LittleEndian v = join_u16 (ucast v) (ucast (drop_bit 8 v))"

fun htonl :: "endian \<Rightarrow> u32 \<Rightarrow> u32" where
  "htonl BigEndian v = v"
| "htonl LittleEndian v =
     join_u32 (ucast v) (ucast (drop_bit 8 v)) (ucast (drop_bit 16 v)) (ucast (drop_bit 24 v))"

abbreviation ntohs :: "endian \<Rightarrow> u16 \<Rightarrow> u16" where "ntohs \<equiv> htons"
abbreviation ntohl :: "endian \<Rightarrow> u32 \<Rightarrow> u32" where "ntohl \<equiv> htonl"

lemma join_split_u16 [simp]: "join_u16 (ucast (drop_bit 8 v)) (ucast v) = v"
  unfolding join_u16_def by (rule join16_split16)

lemma split_join_u16 [simp]:
  "ucast (drop_bit 8 (join_u16 a b)) = a" "ucast (join_u16 a b) = b"
  unfolding join_u16_def by (rule split16_join16)+

lemma join_split_u32 [simp]:
  "join_u32 (ucast (drop_bit 24 v)) (ucast (drop_bit 16 v)) (ucast (drop_bit 8 v)) (ucast v) = v"
  unfolding join_u32_def by (rule join32_split32)

lemma split_join_u32 [simp]:
  "ucast (drop_bit 24 (join_u32 a b c d)) = a" "ucast (drop_bit 16 (join_u32 a b c d)) = b"
  "ucast (drop_bit 8 (join_u32 a b c d)) = c" "ucast (join_u32 a b c d) = d"
  unfolding join_u32_def by (rule split32_join32)+

lemma low_byte: "ucast (v AND 0xFF :: u16) = (ucast v :: u8)" "ucast (w AND 0xFF :: u32) = (ucast w :: u8)"
proof -
  have m: "(0xFF :: u16) = mask 8" "(0xFF :: u32) = mask 8" by (simp_all add: mask_eq_exp_minus_1)
  show "ucast (v AND 0xFF :: u16) = (ucast v :: u8)" unfolding m by (rule bit_word_eqI) (simp add: bit_simps)
  show "ucast (w AND 0xFF :: u32) = (ucast w :: u8)" unfolding m by (rule bit_word_eqI) (simp add: bit_simps)
qed

lemma htons_htons [simp]: "htons host (htons host v) = v"
  by (cases host) simp_all

lemma htonl_htonl [simp]: "htonl host (htonl host v) = v"
  by (cases host) simp_all

lemma mem_htons: "mem_u16 host (htons host v) = mem_u16 BigEndian v"
  by (cases host) simp_all

lemma mem_htonl: "mem_u32 host (htonl host v) = mem_u32 BigEndian v"
  by (cases host) simp_all

lemma length_mem_u16 [simp]: "length (mem_u16 host v) = 2"
  by (cases host) simp_all

lemma length_mem_u32 [simp]: "length (mem_u32 host v) = 4"
  by (cases host) simp_all

lemma ntohs_ld_u16: "ntohs host (ld_u16 host bs) = ld_u16 BigEndian bs"
  by (cases host) simp_all

lemma ntohl_ld_u32: "ntohl host (ld_u32 host bs) = ld_u32 BigEndian bs"
  by (cases host) simp_all

lemmas host_order_cancels = mem_htons mem_htonl ntohs_ld_u16 ntohl_ld_u32

lemma take_2_nth: "2 \<le> length bs \<Longrightarrow> take 2 bs = [bs ! 0, bs ! 1]"
  using take_drop_nth_upt [of 0 2 bs] by (simp add: upt_rec)

lemma take_4_nth: "4 \<le> length bs \<Longrightarrow> take 4 bs = [bs ! 0, bs ! 1, bs ! 2, bs ! 3]"
  using take_drop_nth_upt [of 0 4 bs] by (simp add: upt_rec numeral_2_eq_2 numeral_3_eq_3)

interpretation c16: total_codec "mem_u16 host" "ld_u16 host" 2
proof (unfold_locales, goal_cases)
  case (2 x rest) show ?case by (cases host) simp_all
next
  case (3 bs) then show ?case by (cases host) (simp_all add: take_2_nth)
qed simp

interpretation c32: total_codec "mem_u32 host" "ld_u32 host" 4
proof (unfold_locales, goal_cases)
  case (2 x rest) show ?case by (cases host) (simp_all add: numeral_2_eq_2 numeral_3_eq_3)
next
  case (3 bs) then show ?case by (cases host) (simp_all add: take_4_nth)
qed simp

lemma length_mem_u64 [simp]: "length (mem_u64 host v) = 8"
  by (cases host) simp_all

interpretation c64: total_codec "mem_u64 host" "ld_u64 host" 8
proof (unfold_locales, goal_cases)
  case (2 x rest) show ?case by (cases host) (simp_all add: c32.dec_enc)
next
  case (3 bs)
  have "take 8 bs = take 4 bs @ take 4 (drop 4 bs)" using take_add [of 4 4 bs] by simp
  with 3 show ?case
    by (cases host) (simp_all only: mem_u64.simps ld_u64.simps split64_join64 c32.enc_dec length_drop)
qed simp

section \<open>Explicit big-endian stores and loads\<close>

text \<open>
  The byte-by-byte helpers of \<^verbatim>\<open>firmware/telemetry.c\<close> and \<^verbatim>\<open>imaging/frame.c\<close>, which do not
  depend on the host's byte order. A pointer \<^verbatim>\<open>p + k\<close> is the buffer and an offset.
\<close>

definition put_u8 :: "u8 list \<Rightarrow> nat \<Rightarrow> u8 \<Rightarrow> u8 list" where
  "put_u8 p k v = memcpy_at p k [v]"

definition put_u16 :: "u8 list \<Rightarrow> nat \<Rightarrow> u16 \<Rightarrow> u8 list" where
  "put_u16 p k v = memcpy_at p k [ucast (drop_bit 8 v), ucast v]"

definition put_u32 :: "u8 list \<Rightarrow> nat \<Rightarrow> u32 \<Rightarrow> u8 list" where
  "put_u32 p k v = memcpy_at p k [ucast (drop_bit 24 v), ucast (drop_bit 16 v), ucast (drop_bit 8 v), ucast v]"

definition rd_u16 :: "u8 list \<Rightarrow> nat \<Rightarrow> u16" where
  "rd_u16 p k = push_bit 8 (ucast (p ! k)) OR ucast (p ! (k + 1))"

definition rd_u32 :: "u8 list \<Rightarrow> nat \<Rightarrow> u32" where
  "rd_u32 p k = push_bit 24 (ucast (p ! k)) OR push_bit 16 (ucast (p ! (k + 1))) OR
     push_bit 8 (ucast (p ! (k + 2))) OR ucast (p ! (k + 3))"

lemma put_u16_mem: "put_u16 p k v = memcpy_at p k (mem_u16 BigEndian v)"
  by (simp add: put_u16_def)

lemma put_u32_mem: "put_u32 p k v = memcpy_at p k (mem_u32 BigEndian v)"
  by (simp add: put_u32_def)

lemma rd_u16_ld: "k + 1 < length p \<Longrightarrow> rd_u16 p k = ld_u16 BigEndian (drop k p)"
  by (simp add: rd_u16_def join_u16_def)

lemma rd_u32_ld: "k + 3 < length p \<Longrightarrow> rd_u32 p k = ld_u32 BigEndian (drop k p)"
  by (simp add: rd_u32_def join_u32_def)

lemmas put_mem = put_u8_def put_u16_mem put_u32_mem

end
