(* ===== verification/Wire.thy ===== *)
theory Wire
  imports Checksum Codec
begin

text \<open>
  \<^verbatim>\<open>common/wire.c\<close>: building a packet and decoding a header, with the packed struct of the
  header laid out in host memory. The reference is \<open>wire_packet\<close>, the big-endian bytes of a
  packet that \<^verbatim>\<open>protocol.h\<close> documents, in which the byte order of a host does not occur.
\<close>

section \<open>The packed header in memory\<close>

definition hdr_mem :: "endian \<Rightarrow> pl_header \<Rightarrow> u8 list" where
  "hdr_mem host h = mem_u16 host (h_magic h) @ [h_version h, h_type h] @
     mem_u32 host (h_device_id h) @ mem_u16 host (h_payload_len h) @ mem_u16 host (h_checksum h)"

definition hdr_ld :: "endian \<Rightarrow> u8 list \<Rightarrow> pl_header" where
  "hdr_ld host bs =
     \<lparr>h_magic = ld_u16 host bs, h_version = bs ! 2, h_type = bs ! 3,
      h_device_id = ld_u32 host (drop 4 bs), h_payload_len = ld_u16 host (drop 8 bs),
      h_checksum = ld_u16 host (drop 10 bs)\<rparr>"

lemma length_hdr_mem [simp]: "length (hdr_mem host h) = PL_HDR_SIZE"
  by (simp add: hdr_mem_def pl_consts)

section \<open>The code\<close>

text \<open>
  \<open>pl_build\<close> takes the output buffer and returns the size it reports together with the
  buffer as it leaves it; a payload pointer is an option, \<open>None\<close> for NULL.
\<close>

definition pl_build :: "endian \<Rightarrow> u8 list \<Rightarrow> nat \<Rightarrow> pkt_type \<Rightarrow> u32 \<Rightarrow> u8 list option \<Rightarrow> u16 \<Rightarrow> nat \<times> u8 list" where
  "pl_build host out outcap type device_id payload plen =
     (let total = PL_HDR_SIZE + unat plen in
      if total > outcap then (0, out)
      else
        let h = \<lparr>h_magic = htons host PL_MAGIC, h_version = PL_VERSION, h_type = pkt_code type,
                 h_device_id = htonl host device_id, h_payload_len = htons host plen,
                 h_checksum = htons host
                   (pl_checksum (case payload of None \<Rightarrow> [] | Some p \<Rightarrow> p) (unat plen))\<rparr>;
            out1 = memcpy_at out 0 (hdr_mem host h);
            out2 = (case payload of
                      Some p \<Rightarrow> if plen \<noteq> 0 then memcpy_at out1 PL_HDR_SIZE (take (unat plen) p) else out1
                    | None \<Rightarrow> out1)
        in (total, out2))"

definition pl_parse_header :: "endian \<Rightarrow> u8 list \<Rightarrow> pl_header" where
  "pl_parse_header host hdr =
     (let raw = hdr_ld host hdr in
      \<lparr>h_magic = ntohs host (h_magic raw), h_version = h_version raw, h_type = h_type raw,
       h_device_id = ntohl host (h_device_id raw), h_payload_len = ntohs host (h_payload_len raw),
       h_checksum = ntohs host (h_checksum raw)\<rparr>)"

section \<open>The reference: big-endian packets\<close>

definition wire_header :: "pkt_type \<Rightarrow> u32 \<Rightarrow> u8 list \<Rightarrow> pl_header" where
  "wire_header type device_id payload =
     \<lparr>h_magic = PL_MAGIC, h_version = PL_VERSION, h_type = pkt_code type,
      h_device_id = device_id, h_payload_len = of_nat (length payload),
      h_checksum = pl_checksum payload (length payload)\<rparr>"

definition wire_packet :: "pkt_type \<Rightarrow> u32 \<Rightarrow> u8 list \<Rightarrow> u8 list" where
  "wire_packet type device_id payload =
     hdr_mem BigEndian (wire_header type device_id payload) @ payload"

lemma length_wire_packet [simp]:
  "length (wire_packet type device_id payload) = PL_HDR_SIZE + length payload"
  by (simp add: wire_packet_def)

text \<open>The header layout is a codec whatever the byte order of the host that decodes it.\<close>

lemma pl_parse_header_host: "pl_parse_header host bs = hdr_ld BigEndian bs"
  by (simp add: pl_parse_header_def hdr_ld_def host_order_cancels)

lemma hdr_ld_mem: "hdr_ld host (hdr_mem host h @ rest) = h"
  by (simp add: hdr_ld_def hdr_mem_def nth_append c16.dec_enc c32.dec_enc)

lemma hdr_mem_ld:
  assumes "12 \<le> length bs"
  shows "hdr_mem host (hdr_ld host bs) = take 12 bs"
proof -
  have "take 12 bs = take 2 bs @ take 2 (drop 2 bs) @ take 4 (drop 4 bs) @
      take 2 (drop 8 bs) @ take 2 (drop 10 bs)"
    using take_add [of 2 10 bs] take_add [of 2 8 "drop 2 bs"] take_add [of 4 4 "drop 4 bs"]
      take_add [of 2 2 "drop 8 bs"] by simp
  then show ?thesis
    using assms by (simp add: hdr_mem_def hdr_ld_def c16.enc_dec c32.enc_dec take_2_nth)
qed

interpretation hdr: total_codec "hdr_mem BigEndian" "pl_parse_header host" PL_HDR_SIZE
  by unfold_locales
    (simp_all add: pl_parse_header_host hdr_ld_mem hdr_mem_ld pl_consts)

lemma pl_parse_header_wire_packet:
  "pl_parse_header host (wire_packet type device_id payload @ rest) = wire_header type device_id payload"
  unfolding wire_packet_def append_assoc by (rule hdr.dec_enc)

section \<open>The code builds reference packets\<close>

lemma length_u16: "length p < 65536 \<Longrightarrow> unat (of_nat (length p) :: u16) = length p"
  by (rule unat_of_nat_small) simp

lemma hdr_mem_hton:
  "hdr_mem host \<lparr>h_magic = htons host m, h_version = v, h_type = t, h_device_id = htonl host d,
     h_payload_len = htons host l, h_checksum = htons host c\<rparr>
   = hdr_mem BigEndian \<lparr>h_magic = m, h_version = v, h_type = t, h_device_id = d,
       h_payload_len = l, h_checksum = c\<rparr>"
  by (simp add: hdr_mem_def host_order_cancels)

lemma pl_build_too_small:
  "outcap < PL_HDR_SIZE + unat plen \<Longrightarrow> pl_build host out outcap type device_id payload plen = (0, out)"
  by (simp add: pl_build_def)

lemma pl_build_wire_packet:
  assumes "PL_HDR_SIZE + length p \<le> outcap" and "outcap \<le> length out" and "length p < 65536"
  shows "pl_build host out outcap type device_id (Some p) (of_nat (length p)) =
    (PL_HDR_SIZE + length p,
     wire_packet type device_id p @ drop (PL_HDR_SIZE + length p) out)"
proof -
  have "(of_nat (length p) :: u16) = 0 \<longleftrightarrow> p = []"
    by (simp only: unat_eq_0 [symmetric] length_u16 [OF assms(3)] length_0_conv)
  then show ?thesis
    using assms
    by (auto simp: pl_build_def Let_def length_u16 hdr_mem_hton wire_packet_def wire_header_def
        memcpy_at_def min_def ac_simps)
qed

section \<open>Properties\<close>

text \<open>
  C13. What one end builds the other end decodes, whatever the byte orders of the two hosts:
  the packet is accepted whenever it fits, its header decodes to exactly the fields given, the
  bytes after the header are the payload, and the receiver's checksum comparison succeeds.
\<close>

theorem pl_build_parse_roundtrip:
  assumes "PL_HDR_SIZE + length p \<le> length out" and "length p < 65536"
  shows "case pl_build sender out (length out) type device_id (Some p) (of_nat (length p)) of
    (n, out') \<Rightarrow> let h = pl_parse_header receiver out' in
      n = PL_HDR_SIZE + length p \<and> length out' = length out \<and>
      h_magic h = PL_MAGIC \<and> h_version h = PL_VERSION \<and> h_type h = pkt_code type \<and>
      h_device_id h = device_id \<and> unat (h_payload_len h) = length p \<and>
      take (length p) (drop PL_HDR_SIZE out') = p \<and>
      pl_checksum (drop PL_HDR_SIZE out') (unat (h_payload_len h)) = h_checksum h"
proof -
  have "pl_build sender out (length out) type device_id (Some p) (of_nat (length p)) =
      (PL_HDR_SIZE + length p, wire_packet type device_id p @ drop (PL_HDR_SIZE + length p) out)"
    using assms by (intro pl_build_wire_packet) simp_all
  moreover have "drop PL_HDR_SIZE (wire_packet type device_id p @ rest) = p @ rest" for rest
    by (simp add: wire_packet_def)
  ultimately show ?thesis
    using assms by (simp add: pl_parse_header_wire_packet wire_header_def length_u16)
qed

theorem pl_build_parse_roundtrip_witness:
  "\<exists>out'. pl_build LittleEndian (replicate 64 0) 64 PKT_ACK 0x1001 (Some [0, 0, 0, 8]) 4 = (16, out') \<and>
     h_device_id (pl_parse_header BigEndian out') = 0x1001 \<and>
     h_type (pl_parse_header BigEndian out') = pkt_code PKT_ACK \<and>
     take 4 (drop PL_HDR_SIZE out') = [0, 0, 0, 8]"
  using pl_build_parse_roundtrip [where p = "[0, 0, 0, 8]" and out = "replicate 64 0"
      and sender = LittleEndian and type = PKT_ACK and device_id = "0x1001" and receiver = BigEndian]
  by (cases "pl_build LittleEndian (replicate 64 0) 64 PKT_ACK 0x1001 (Some [0, 0, 0, 8]) 4")
    (simp add: Let_def pl_consts numeral_4_eq_4)

text \<open>
  A packet that does not fit is refused and leaves the buffer alone; one that fits changes
  no byte of the buffer beyond the size it reports, and never writes past its end.
\<close>

lemma pl_build_in_bounds:
  assumes "outcap \<le> length out" and "length p < 65536"
  shows "case pl_build host out outcap type device_id (Some p) (of_nat (length p)) of
    (n, out') \<Rightarrow> length out' = length out \<and> drop n out' = drop n out \<and> n \<le> outcap \<and>
      (n = 0 \<longleftrightarrow> outcap < PL_HDR_SIZE + length p) \<and> (n = 0 \<longrightarrow> out' = out)"
proof (cases "outcap < PL_HDR_SIZE + length p")
  case True
  then show ?thesis
    using pl_build_too_small [of outcap "of_nat (length p)"] by (simp add: length_u16 [OF assms(2)])
next
  case False
  then show ?thesis
    using pl_build_wire_packet [of p outcap out host type device_id] assms by (simp add: pl_consts)
qed

lemma pl_build_in_bounds_example:
  "pl_build BigEndian [1, 2, 3] 3 PKT_ERROR 7 (Some [0, 4]) 2 = (0, [1, 2, 3])"
  using pl_build_in_bounds [of 3 "[1, 2, 3]" "[0, 4]" BigEndian PKT_ERROR 7]
  by (cases "pl_build BigEndian [1, 2, 3] 3 PKT_ERROR 7 (Some [0, 4]) 2") (simp add: pl_consts)

end
