(* ===== verification/Fw_Telemetry.thy ===== *)
theory Fw_Telemetry
  imports Wire
begin

text \<open>
  \<^verbatim>\<open>firmware/telemetry.c\<close>: the device's packet builders and header parser, written byte by byte.
  They are shown to produce the same packets as the server's \<^verbatim>\<open>pl_build\<close> and to accept what it
  sends.
\<close>

section \<open>The code\<close>

definition PL_FW_HDR_SIZE :: nat where "PL_FW_HDR_SIZE = 12"
definition PL_SENSOR_PACKET_SIZE :: nat where [pl_consts]: "PL_SENSOR_PACKET_SIZE = 28"
definition PL_HELLO_PACKET_SIZE :: nat where [pl_consts]: "PL_HELLO_PACKET_SIZE = 20"
definition PL_HEARTBEAT_PACKET_SIZE :: nat where [pl_consts]: "PL_HEARTBEAT_PACKET_SIZE = 20"

definition PL_TYPE_HELLO_ACK :: u8 where "PL_TYPE_HELLO_ACK = 0x02"
definition PL_TYPE_ACK :: u8 where "PL_TYPE_ACK = 0x04"
definition PL_TYPE_ERROR :: u8 where "PL_TYPE_ERROR = 0x07"

text \<open>
  The constants of \<^verbatim>\<open>telemetry.h\<close> repeat those of \<^verbatim>\<open>protocol.h\<close>; the static assertions of \<^verbatim>\<open>telemetry.c\<close> hold,
  and proofs replace the one by the other.
\<close>

lemma telemetry_asserts [simp]:
  "PL_FW_HDR_SIZE = PL_HDR_SIZE" "PL_TYPE_HELLO_ACK = pkt_code PKT_HELLO_ACK"
  "PL_TYPE_ACK = pkt_code PKT_ACK" "PL_TYPE_ERROR = pkt_code PKT_ERROR"
  by (simp_all add: PL_FW_HDR_SIZE_def PL_TYPE_HELLO_ACK_def PL_TYPE_ACK_def PL_TYPE_ERROR_def pl_consts)

lemma telemetry_size_asserts:
  "PL_SENSOR_PACKET_SIZE = PL_HDR_SIZE + 16" "PL_HELLO_PACKET_SIZE = PL_HDR_SIZE + 8"
  "PL_HEARTBEAT_PACKET_SIZE = PL_HDR_SIZE + 8"
  by (simp_all add: pl_consts)

record pl_rx_header =
  rx_type :: u8
  rx_device_id :: u32
  rx_payload_len :: u16
  rx_checksum :: u16

definition put_header :: "u8 list \<Rightarrow> u8 \<Rightarrow> u32 \<Rightarrow> u16 \<Rightarrow> u8 list" where
  "put_header out type dev plen =
     (let o1 = put_u16 out 0 PL_MAGIC;
          o2 = put_u8 o1 2 PL_VERSION;
          o3 = put_u8 o2 3 type;
          o4 = put_u32 o3 4 dev;
          o5 = put_u16 o4 8 plen
      in put_u16 o5 10 (pl_checksum (drop PL_HDR_SIZE o5) (unat plen)))"

definition pl_build_sensor :: "u8 list \<Rightarrow> nat \<Rightarrow> u32 \<Rightarrow> u32 \<Rightarrow> u32 \<Rightarrow> i32 \<Rightarrow> i32 \<Rightarrow> nat \<times> u8 list" where
  "pl_build_sensor out cap dev sq timestamp_ms temp humid =
     (let plen = (16::u16) in
      if cap < PL_HDR_SIZE + unat plen then (0, out)
      else let o1 = put_u32 out (PL_HDR_SIZE + 0) sq;
               o2 = put_u32 o1 (PL_HDR_SIZE + 4) timestamp_ms;
               o3 = put_u32 o2 (PL_HDR_SIZE + 8) temp;
               o4 = put_u32 o3 (PL_HDR_SIZE + 12) humid
           in (PL_HDR_SIZE + unat plen, put_header o4 (pkt_code PKT_SENSOR) dev plen))"

definition pl_build_hello :: "u8 list \<Rightarrow> nat \<Rightarrow> u32 \<Rightarrow> u32 \<Rightarrow> u32 \<Rightarrow> nat \<times> u8 list" where
  "pl_build_hello out cap dev firmware_ver caps =
     (let plen = (8::u16) in
      if cap < PL_HDR_SIZE + unat plen then (0, out)
      else let o1 = put_u32 out (PL_HDR_SIZE + 0) firmware_ver;
               o2 = put_u32 o1 (PL_HDR_SIZE + 4) caps
           in (PL_HDR_SIZE + unat plen, put_header o2 (pkt_code PKT_HELLO) dev plen))"

definition pl_build_heartbeat :: "u8 list \<Rightarrow> nat \<Rightarrow> u32 \<Rightarrow> u32 \<Rightarrow> u32 \<Rightarrow> nat \<times> u8 list" where
  "pl_build_heartbeat out cap dev uptime heap =
     (let plen = (8::u16) in
      if cap < PL_HDR_SIZE + unat plen then (0, out)
      else let o1 = put_u32 out (PL_HDR_SIZE + 0) uptime;
               o2 = put_u32 o1 (PL_HDR_SIZE + 4) heap
           in (PL_HDR_SIZE + unat plen, put_header o2 (pkt_code PKT_HEARTBEAT) dev plen))"

text \<open>\<open>None\<close> for the return value 0.\<close>

definition pl_parse_header_fw :: "u8 list \<Rightarrow> pl_rx_header option" where
  "pl_parse_header_fw hdr =
     (if rd_u16 hdr 0 \<noteq> PL_MAGIC then None
      else if hdr ! 2 \<noteq> PL_VERSION then None
      else Some \<lparr>rx_type = hdr ! 3, rx_device_id = rd_u32 hdr 4,
                 rx_payload_len = rd_u16 hdr 8, rx_checksum = rd_u16 hdr 10\<rparr>)"

section \<open>The payload layouts\<close>

definition sensor_bytes :: "pl_sensor_payload \<Rightarrow> u8 list" where
  "sensor_bytes s = mem_u32 BigEndian (s_seq s) @ mem_u32 BigEndian (s_timestamp_ms s) @
     mem_u32 BigEndian (s_temperature s) @ mem_u32 BigEndian (s_humidity s)"

definition pair_bytes :: "u32 \<Rightarrow> u32 \<Rightarrow> u8 list" where
  "pair_bytes a b = mem_u32 BigEndian a @ mem_u32 BigEndian b"

section \<open>Lemmas\<close>

lemma put_header_packet:
  assumes "length pre = PL_HDR_SIZE" and "length pl < 65536"
  shows "put_header (pre @ pl @ rest) (pkt_code t) dev (of_nat (length pl)) = wire_packet t dev pl @ rest"
  using assms
  by (simp add: put_header_def put_mem Let_def buf_simps memcpy_at_0 wire_packet_def wire_header_def
      hdr_mem_def length_u16 pl_consts del: mem_u16.simps mem_u32.simps)

lemma split_header:
  assumes "PL_HDR_SIZE \<le> length out"
  obtains pre post where "out = pre @ post" and "length pre = PL_HDR_SIZE" and "drop PL_HDR_SIZE out = post"
proof
  show "out = take PL_HDR_SIZE out @ drop PL_HDR_SIZE out" by simp
qed (use assms in simp_all)

lemma length_sensor_bytes [simp]: "length (sensor_bytes s) = 16"
  by (simp add: sensor_bytes_def)

lemma length_pair_bytes [simp]: "length (pair_bytes a b) = 8"
  by (simp add: pair_bytes_def)

lemma pl_build_sensor_packet:
  assumes "PL_SENSOR_PACKET_SIZE \<le> cap" and "cap \<le> length out"
  shows "pl_build_sensor out cap dev sq ts temp humid =
    (PL_SENSOR_PACKET_SIZE, wire_packet PKT_SENSOR dev (sensor_bytes \<lparr>s_seq = sq, s_timestamp_ms = ts,
       s_temperature = temp, s_humidity = humid\<rparr>) @ drop PL_SENSOR_PACKET_SIZE out)"
proof -
  obtain pre post where out: "out = pre @ post" "length pre = PL_HDR_SIZE" "drop PL_HDR_SIZE out = post"
    using split_header [of out] assms by (auto simp: pl_consts)
  let ?pl = "sensor_bytes \<lparr>s_seq = sq, s_timestamp_ms = ts, s_temperature = temp, s_humidity = humid\<rparr>"
  have "put_u32 (put_u32 (put_u32 (put_u32 out (PL_HDR_SIZE + 0) sq) (PL_HDR_SIZE + 4) ts) (PL_HDR_SIZE + 8) temp)
      (PL_HDR_SIZE + 12) humid = pre @ ?pl @ drop 16 post"
    using assms out by (simp add: put_mem buf_simps memcpy_at_0 sensor_bytes_def pl_consts del: mem_u32.simps)
  moreover have "drop 16 post = drop PL_SENSOR_PACKET_SIZE out" using out by (simp add: pl_consts)
  ultimately show ?thesis
    using assms put_header_packet [OF out(2), of ?pl "drop 16 post" PKT_SENSOR dev]
    by (simp add: pl_build_sensor_def Let_def pl_consts)
qed

text \<open>The two eight-byte builders share a shape.\<close>

lemma pair_packet:
  assumes "20 \<le> length out"
  shows "put_header (put_u32 (put_u32 out (PL_HDR_SIZE + 0) a) (PL_HDR_SIZE + 4) b) (pkt_code t) dev 8 =
    wire_packet t dev (pair_bytes a b) @ drop 20 out"
proof -
  obtain pre post where out: "out = pre @ post" "length pre = PL_HDR_SIZE" "drop PL_HDR_SIZE out = post"
    using split_header [of out] assms by (auto simp: pl_consts)
  have "put_u32 (put_u32 out (PL_HDR_SIZE + 0) a) (PL_HDR_SIZE + 4) b = pre @ pair_bytes a b @ drop 8 post"
    using assms out by (simp add: put_mem buf_simps memcpy_at_0 pair_bytes_def pl_consts del: mem_u32.simps)
  moreover have "drop 8 post = drop 20 out" using out by (simp add: pl_consts)
  ultimately show ?thesis
    using put_header_packet [OF out(2), of "pair_bytes a b" "drop 8 post" t dev] by simp
qed

lemma pl_build_hello_packet:
  "PL_HELLO_PACKET_SIZE \<le> cap \<Longrightarrow> cap \<le> length out \<Longrightarrow> pl_build_hello out cap dev fv caps =
    (PL_HELLO_PACKET_SIZE, wire_packet PKT_HELLO dev (pair_bytes fv caps) @ drop PL_HELLO_PACKET_SIZE out)"
  using pair_packet [of out fv caps PKT_HELLO dev] by (simp add: pl_build_hello_def Let_def pl_consts)

lemma pl_build_heartbeat_packet:
  "PL_HEARTBEAT_PACKET_SIZE \<le> cap \<Longrightarrow> cap \<le> length out \<Longrightarrow> pl_build_heartbeat out cap dev up heap =
    (PL_HEARTBEAT_PACKET_SIZE, wire_packet PKT_HEARTBEAT dev (pair_bytes up heap) @ drop PL_HEARTBEAT_PACKET_SIZE out)"
  using pair_packet [of out up heap PKT_HEARTBEAT dev] by (simp add: pl_build_heartbeat_def Let_def pl_consts)

text \<open>
  The firmware's header parser accepts exactly the headers whose magic and version the server
  would accept, and decodes them to the same fields.
\<close>

lemma pl_parse_header_fw_host:
  assumes "PL_HDR_SIZE \<le> length hdr"
  shows "pl_parse_header_fw hdr = (let h = pl_parse_header host hdr in
    if h_magic h = PL_MAGIC \<and> h_version h = PL_VERSION then
      Some \<lparr>rx_type = h_type h, rx_device_id = h_device_id h, rx_payload_len = h_payload_len h, rx_checksum = h_checksum h\<rparr>
    else None)"
  using assms by (simp add: pl_parse_header_fw_def pl_parse_header_host hdr_ld_def rd_u16_ld rd_u32_ld pl_consts Let_def)

section \<open>Properties\<close>

text \<open>
  The firmware's builders and the server's builder agree: each firmware packet is byte for
  byte what \<^verbatim>\<open>pl_build\<close> produces for the same type, device and payload on any host, so the
  server decodes it; a buffer that is too small is refused and left untouched.
\<close>

lemma fw_builders_match_server:
  assumes "length out = cap"
  shows "pl_build_sensor out cap dev sq ts temp humid = pl_build host out cap PKT_SENSOR dev
      (Some (sensor_bytes \<lparr>s_seq = sq, s_timestamp_ms = ts, s_temperature = temp, s_humidity = humid\<rparr>)) 16 \<and>
    pl_build_hello out cap dev a b = pl_build host out cap PKT_HELLO dev (Some (pair_bytes a b)) 8 \<and>
    pl_build_heartbeat out cap dev a b = pl_build host out cap PKT_HEARTBEAT dev (Some (pair_bytes a b)) 8"
proof -
  let ?s = "sensor_bytes \<lparr>s_seq = sq, s_timestamp_ms = ts, s_temperature = temp, s_humidity = humid\<rparr>"
  have "pl_build_sensor out cap dev sq ts temp humid = pl_build host out cap PKT_SENSOR dev (Some ?s) 16"
    using pl_build_sensor_packet [of cap out] pl_build_wire_packet [of ?s cap out host PKT_SENSOR dev] assms
    by (cases "28 \<le> cap") (simp_all add: pl_consts pl_build_too_small pl_build_sensor_def)
  moreover have "pl_build_hello out cap dev a b = pl_build host out cap PKT_HELLO dev (Some (pair_bytes a b)) 8"
    using pl_build_hello_packet [of cap out] pl_build_wire_packet [of "pair_bytes a b" cap out host PKT_HELLO dev] assms
    by (cases "20 \<le> cap") (simp_all add: pl_consts pl_build_too_small pl_build_hello_def)
  moreover have "pl_build_heartbeat out cap dev a b = pl_build host out cap PKT_HEARTBEAT dev (Some (pair_bytes a b)) 8"
    using pl_build_heartbeat_packet [of cap out] pl_build_wire_packet [of "pair_bytes a b" cap out host PKT_HEARTBEAT dev] assms
    by (cases "20 \<le> cap") (simp_all add: pl_consts pl_build_too_small pl_build_heartbeat_def)
  ultimately show ?thesis by blast
qed

end
