(* ===== verification/Records.thy ===== *)
theory Records
  imports Codec
begin

text \<open>
  The record that travels from the server through a sink into the kernel and out to a reader:
  \<^verbatim>\<open>sensor_record_t\<close> of \<^verbatim>\<open>server/sink.h\<close> and \<^verbatim>\<open>struct telemetry_record\<close> of
  \<^verbatim>\<open>kmod/telemetry_uapi.h\<close>, which have the same fields in the same order, and its native
  layout in memory: 24 bytes, no padding. The record crosses \<^verbatim>\<open>write(2)\<close> and
  \<^verbatim>\<open>read(2)\<close> as these bytes.
\<close>

record sensor_record =
  device_id :: u32
  seq :: u32
  temperature :: i32
  humidity :: i32
  server_timestamp_ns :: u64

type_synonym telemetry_record = sensor_record

definition REC_SZ :: nat where
  "REC_SZ = 24"

definition rec_mem :: "endian \<Rightarrow> sensor_record \<Rightarrow> u8 list" where
  "rec_mem host r = mem_u32 host (device_id r) @ mem_u32 host (seq r) @
     mem_u32 host (temperature r) @ mem_u32 host (humidity r) @ mem_u64 host (server_timestamp_ns r)"

definition rec_ld :: "endian \<Rightarrow> u8 list \<Rightarrow> sensor_record" where
  "rec_ld host bs =
     \<lparr>device_id = ld_u32 host bs, seq = ld_u32 host (drop 4 bs),
      temperature = ld_u32 host (drop 8 bs), humidity = ld_u32 host (drop 12 bs),
      server_timestamp_ns = ld_u64 host (drop 16 bs)\<rparr>"

lemma rec_mem_ld:
  assumes "24 \<le> length bs"
  shows "rec_mem host (rec_ld host bs) = take 24 bs"
proof -
  have "take 24 bs = take 4 bs @ take 4 (drop 4 bs) @ take 4 (drop 8 bs) @ take 4 (drop 12 bs) @
      take 8 (drop 16 bs)"
    using take_add [of 4 20 bs] take_add [of 4 16 "drop 4 bs"] take_add [of 4 12 "drop 8 bs"]
      take_add [of 4 8 "drop 12 bs"] by simp
  then show ?thesis
    using assms by (simp add: rec_mem_def rec_ld_def c32.enc_dec c64.enc_dec)
qed

interpretation rec: total_codec "rec_mem host" "rec_ld host" REC_SZ
proof (unfold_locales, goal_cases)
  case (1 x) show ?case by (simp add: rec_mem_def REC_SZ_def)
next
  case (2 x rest) show ?case by (simp add: rec_mem_def rec_ld_def c32.dec_enc c64.dec_enc)
next
  case (3 bs) then show ?case by (simp add: REC_SZ_def rec_mem_ld)
qed

lemma length_rec_mem [simp]: "length (rec_mem host r) = REC_SZ"
  by (rule rec.length_enc)

text \<open>A buffer of whole records, and the records in a buffer.\<close>

definition recs_mem :: "endian \<Rightarrow> sensor_record list \<Rightarrow> u8 list" where
  "recs_mem host rs = concat (map (rec_mem host) rs)"

fun recs_ld :: "endian \<Rightarrow> nat \<Rightarrow> u8 list \<Rightarrow> sensor_record list" where
  "recs_ld host 0 bs = []"
| "recs_ld host (Suc n) bs = rec_ld host bs # recs_ld host n (drop REC_SZ bs)"

lemma recs_ld_mem: "recs_ld host (length rs) (recs_mem host rs @ rest) = rs"
  by (induction rs) (simp_all add: recs_mem_def rec.dec_enc)

lemma length_recs_mem [simp]: "length (recs_mem host rs) = REC_SZ * length rs"
  by (induction rs) (simp_all add: recs_mem_def)

lemma length_recs_ld [simp]: "length (recs_ld host n bs) = n"
  by (induction n arbitrary: bs) simp_all

lemma recs_ld_nth: "i < n \<Longrightarrow> recs_ld host n bs ! i = rec_ld host (drop (i * REC_SZ) bs)"
proof (induction n arbitrary: i bs)
  case (Suc n)
  then show ?case by (cases i) (simp_all add: add.commute)
qed simp

end
