(* ===== verification/Ring_Spec.thy ===== *)
theory Ring_Spec
  imports Prelude "HOL-Library.Sublist"
begin

text \<open>
  The contract of a bounded record ring that drops its oldest record when it is full, as
  locales. \<open>drop_oldest\<close> is the writer's side (\<open>drop_oldest_upto\<close> when its counters bound
  how many records it can take): the contents after a push. \<open>fifo_ring\<close> adds
  the reader's side: a pop takes the oldest record. The kernel's \<^verbatim>\<open>struct tring\<close> and the
  server's \<^verbatim>\<open>ring_log\<close> are interpretations; the client lemmas here are what the driver
  and the server rely on.
\<close>

definition last_n :: "nat \<Rightarrow> 'a list \<Rightarrow> 'a list" where
  "last_n n xs = drop (length xs - n) xs"

lemma length_last_n [simp]: "length (last_n n xs) = min n (length xs)"
  by (simp add: last_n_def)

lemma last_n_all [simp]: "length xs \<le> n \<Longrightarrow> last_n n xs = xs"
  by (simp add: last_n_def)

lemma last_n_snoc:
  "0 < n \<Longrightarrow> last_n n (xs @ [x]) =
     (if length (last_n n xs) = n then tl (last_n n xs) else last_n n xs) @ [x]"
  by (auto simp: last_n_def min_def tl_drop Suc_diff_le drop_Suc [symmetric])

lemma last_n_last_n_append: "last_n n (last_n n xs @ ys) = last_n n (xs @ ys)"
proof (cases "length xs \<le> n")
  case False
  then have "length xs - n + n = length xs" by simp
  with False show ?thesis by (simp add: last_n_def ac_simps)
qed simp

lemma last_n_append_last_n: "length ys \<le> n \<Longrightarrow> last_n n (xs @ ys) = last_n (n - length ys) xs @ ys"
  by (simp add: last_n_def)

text \<open>A sequence of writer and reader operations, and the records the reader gets out of it.\<close>

datatype 'a ring_op = Push 'a | Pop

fun ring_run :: "('a \<Rightarrow> 'r \<Rightarrow> 'r) \<Rightarrow> ('r \<Rightarrow> ('a \<times> 'r) option) \<Rightarrow> 'a ring_op list \<Rightarrow> 'r \<Rightarrow> 'a list \<times> 'r" where
  "ring_run push pop [] r = ([], r)"
| "ring_run push pop (Push x # ops) r = ring_run push pop ops (push x r)"
| "ring_run push pop (Pop # ops) r =
     (case pop r of
        None \<Rightarrow> ring_run push pop ops r
      | Some (x, r') \<Rightarrow> (case ring_run push pop ops r' of (out, r'') \<Rightarrow> (x # out, r'')))"

fun pushed :: "'a ring_op list \<Rightarrow> 'a list" where
  "pushed [] = []"
| "pushed (Push x # ops) = x # pushed ops"
| "pushed (Pop # ops) = pushed ops"

section \<open>The writer's contract\<close>

text \<open>
  \<open>invar n r\<close>: the ring is consistent and \<open>n\<close> more pushes stay within the range of its
  counters.
\<close>

locale drop_oldest_upto =
  fixes push :: "'a \<Rightarrow> 'r \<Rightarrow> 'r" and contents :: "'r \<Rightarrow> 'a list"
    and invar :: "nat \<Rightarrow> 'r \<Rightarrow> bool" and cap :: nat
  assumes cap_pos: "0 < cap"
    and length_contents: "invar n r \<Longrightarrow> length (contents r) \<le> cap"
    and invar_push: "invar (Suc n) r \<Longrightarrow> invar n (push x r)"
    and contents_push: "invar (Suc n) r \<Longrightarrow> contents (push x r) =
      (if length (contents r) = cap then tl (contents r) else contents r) @ [x]"
begin

lemma contents_push_last_n: "invar (Suc n) r \<Longrightarrow> contents (push x r) = last_n cap (contents r @ [x])"
  using last_n_snoc [OF cap_pos, of "contents r" x] by (simp add: contents_push length_contents)

lemma invar_pushes: "invar (length xs + n) r \<Longrightarrow> invar n (fold push xs r)"
  by (induction xs arbitrary: r) (simp_all add: invar_push)

lemma contents_pushes: "invar (length xs) r \<Longrightarrow> contents (fold push xs r) = last_n cap (contents r @ xs)"
proof (induction xs arbitrary: r)
  case Nil
  then show ?case by (simp add: length_contents)
next
  case (Cons x xs)
  then have "contents (fold push xs (push x r)) = last_n cap (last_n cap (contents r @ [x]) @ xs)"
    using invar_push [of "length xs"] contents_push_last_n [of "length xs"] by simp
  then show ?case by (simp add: last_n_last_n_append)
qed

end

text \<open>A ring without such a limit.\<close>

locale drop_oldest =
  fixes push :: "'a \<Rightarrow> 'r \<Rightarrow> 'r" and contents :: "'r \<Rightarrow> 'a list"
    and invar :: "'r \<Rightarrow> bool" and cap :: nat
  assumes cap_pos: "0 < cap"
    and length_contents: "invar r \<Longrightarrow> length (contents r) \<le> cap"
    and invar_push: "invar r \<Longrightarrow> invar (push x r)"
    and contents_push: "invar r \<Longrightarrow> contents (push x r) =
      (if length (contents r) = cap then tl (contents r) else contents r) @ [x]"

sublocale drop_oldest \<subseteq> upto: drop_oldest_upto push contents "\<lambda>_. invar" cap
  by unfold_locales (simp_all add: cap_pos length_contents invar_push contents_push)

context drop_oldest
begin

lemma length_push: "invar r \<Longrightarrow> length (contents (push x r)) = min cap (Suc (length (contents r)))"
  by (simp add: upto.contents_push_last_n)

end

section \<open>The reader's contract\<close>

locale fifo_ring = drop_oldest +
  fixes pop :: "'r \<Rightarrow> ('a \<times> 'r) option"
  assumes pop_None: "invar r \<Longrightarrow> pop r = None \<longleftrightarrow> contents r = []"
    and pop_Some: "invar r \<Longrightarrow> pop r = Some (x, r') \<Longrightarrow> contents r = x # contents r' \<and> invar r'"
begin

lemma pop_nonempty:
  assumes "invar r" and "contents r \<noteq> []"
  obtains r' where "pop r = Some (hd (contents r), r')" and "contents r' = tl (contents r)" and "invar r'"
proof -
  obtain x r' where "pop r = Some (x, r')"
    using assms pop_None [of r] by (cases "pop r") auto
  with pop_Some [OF assms(1) this] that show ?thesis by simp
qed

lemma invar_run: "invar r \<Longrightarrow> invar (snd (ring_run push pop ops r))"
proof (induction ops arbitrary: r)
  case (Cons op ops)
  have "invar s" if "pop r = Some (x, s)" for x s
    using pop_Some [OF Cons.prems that] by simp
  with Cons show ?case
    by (cases op) (auto simp: invar_push split: option.split prod.split dest: sndI)
qed simp

text \<open>
  Whatever the interleaving, what the reader has got followed by what is still buffered is, in
  order, part of what was in the ring and was pushed since: nothing is invented, duplicated or
  reordered.
\<close>

lemma run_subseq:
  "invar r \<Longrightarrow> ring_run push pop ops r = (out, r') \<Longrightarrow>
   subseq (out @ contents r') (contents r @ pushed ops)"
proof (induction ops arbitrary: r out)
  case Nil
  then show ?case by simp
next
  case (Cons op ops)
  show ?case
  proof (cases op)
    case (Push x)
    have "subseq (out @ contents r') (contents (push x r) @ pushed ops)"
      using Cons.IH [OF invar_push [OF Cons.prems(1)], of x out] Cons.prems(2) Push by simp
    moreover have "subseq (contents (push x r)) (contents r @ [x])"
      using Cons.prems(1) suffix_drop suffix_imp_subseq
      unfolding upto.contents_push_last_n [OF Cons.prems(1)] last_n_def by blast
    then have "subseq (contents (push x r) @ pushed ops) ((contents r @ [x]) @ pushed ops)"
      by (rule list_emb_append_mono) simp
    ultimately show ?thesis
      using subseq_order.trans Push by fastforce
  next
    case Pop
    show ?thesis
    proof (cases "pop r")
      case None
      with Pop Cons show ?thesis by simp
    next
      case (Some p)
      then obtain x s where p: "pop r = Some (x, s)" by (cases p) simp
      have s: "contents r = x # contents s" "invar s"
        using pop_Some [OF Cons.prems(1) p] by simp_all
      obtain out' where out: "out = x # out'" and run: "ring_run push pop ops s = (out', r')"
        using Cons.prems(2) Pop p by (auto split: prod.splits)
      from Cons.IH [OF s(2) run] show ?thesis by (simp add: s(1) out Pop)
    qed
  qed
qed

text \<open>What is buffered is always the newest records: a suffix of everything pushed.\<close>

lemma run_suffix:
  "invar r \<Longrightarrow> ring_run push pop ops r = (out, r') \<Longrightarrow> suffix (contents r') (contents r @ pushed ops)"
proof (induction ops arbitrary: r out)
  case Nil
  then show ?case by simp
next
  case (Cons op ops)
  show ?case
  proof (cases op)
    case (Push x)
    have "suffix (contents r') (contents (push x r) @ pushed ops)"
      using Cons.IH [OF invar_push [OF Cons.prems(1)], of x out] Cons.prems(2) Push by simp
    moreover have "suffix (contents (push x r) @ pushed ops) ((contents r @ [x]) @ pushed ops)"
      unfolding upto.contents_push_last_n [OF Cons.prems(1)] last_n_def
      by (metis append.assoc append_take_drop_id suffixI)
    ultimately show ?thesis using suffix_order.trans Push by fastforce
  next
    case Pop
    show ?thesis
    proof (cases "pop r")
      case None
      with Pop Cons show ?thesis by simp
    next
      case (Some p)
      then obtain x s where p: "pop r = Some (x, s)" by (cases p) simp
      have s: "contents r = x # contents s" "invar s"
        using pop_Some [OF Cons.prems(1) p] by simp_all
      obtain out' where run: "ring_run push pop ops s = (out', r')"
        using Cons.prems(2) Pop p by (auto split: prod.splits)
      from Cons.IH [OF s(2) run] show ?thesis by (simp add: s(1) Pop suffix_ConsI)
    qed
  qed
qed

end

end
