(* ===== verification/Tring.thy ===== *)
theory Tring
  imports Records Ring_Spec
begin

text \<open>
  \<^verbatim>\<open>kmod/tring.c\<close>: the freestanding drop-oldest ring the kernel module links, with its
  32-bit indices and 64-bit counters. The ring is shown to implement the contract
  \<open>fifo_ring\<close> of a list of at most 256 records; the wrap-around of the unsigned subtraction
  in \<^verbatim>\<open>tring_pop\<close> is part of the proof.
\<close>

section \<open>The code\<close>

definition TRING_CAP :: u32 where
  "TRING_CAP = 256"

record tring =
  buf :: "telemetry_record list"
  head :: u32
  count :: u32
  produced :: u64
  dropped :: u64

definition tring_init :: "tring \<Rightarrow> tring" where
  "tring_init r = r\<lparr>head := 0, count := 0, produced := 0, dropped := 0\<rparr>"

text \<open>\<open>tring_push\<close> returns the C return value (1 for a drop) and the ring.\<close>

definition tring_push :: "tring \<Rightarrow> telemetry_record \<Rightarrow> int \<times> tring" where
  "tring_push r rec =
     (let (dropped_flag, r1) =
        (if count r = TRING_CAP then
           (1, r\<lparr>dropped := dropped r + 1, buf := (buf r)[unat (head r) := rec],
                 head := (head r + 1) mod TRING_CAP\<rparr>)
         else
           (0, r\<lparr>buf := (buf r)[unat (head r) := rec],
                 head := (head r + 1) mod TRING_CAP, count := count r + 1\<rparr>))
      in (dropped_flag, r1\<lparr>produced := produced r1 + 1\<rparr>))"

text \<open>\<open>tring_pop\<close> returns \<open>None\<close> for the C return value 0, the popped record otherwise.\<close>

definition tring_pop :: "tring \<Rightarrow> (telemetry_record \<times> tring) option" where
  "tring_pop r =
     (if count r = 0 then None
      else let tail = (head r - count r + TRING_CAP) mod TRING_CAP
           in Some (buf r ! unat tail, r\<lparr>count := count r - 1\<rparr>))"

definition tring_count :: "tring \<Rightarrow> u32" where
  "tring_count r = count r"

section \<open>Invariant and abstraction\<close>

definition tring_invar :: "tring \<Rightarrow> bool" where
  "tring_invar r \<longleftrightarrow> length (buf r) = 256 \<and> unat (head r) < 256 \<and> unat (count r) \<le> 256"

text \<open>The slot of the \<open>k\<close>-th oldest record, and the records from the oldest to the newest.\<close>

definition slot :: "tring \<Rightarrow> nat \<Rightarrow> nat" where
  "slot r k = (unat (head r) + 256 - unat (count r) + k) mod 256"

definition tring_list :: "tring \<Rightarrow> telemetry_record list" where
  "tring_list r = map (\<lambda>k. buf r ! slot r k) [0..<unat (count r)]"

lemma length_tring_list [simp]: "length (tring_list r) = unat (count r)"
  by (simp add: tring_list_def)

lemma unat_head_Suc:
  assumes "unat (h::u32) < 256"
  shows "unat ((h + 1) mod TRING_CAP) = (unat h + 1) mod 256"
proof -
  have "unat (h + 1) = unat h + 1" using assms by (simp add: unat_word_ariths)
  then show ?thesis by (simp add: TRING_CAP_def unat_mod_distrib)
qed

text \<open>The C expression wraps below zero when the ring has wrapped; modulo 256 it does not matter.\<close>

lemma unat_tail:
  assumes "unat (h::u32) < 256" and "unat (c::u32) \<le> 256"
  shows "unat ((h - c + TRING_CAP) mod TRING_CAP) = (unat h + 256 - unat c) mod 256"
proof -
  have eq: "h - c + TRING_CAP = of_nat (unat h + 256 - unat c)"
    using assms by (simp add: TRING_CAP_def of_nat_diff)
  have "unat (h - c + TRING_CAP) = unat h + 256 - unat c"
    unfolding eq using assms by (intro unat_of_nat_small) simp
  then show ?thesis by (simp only: unat_mod_distrib) (simp add: TRING_CAP_def)
qed

lemma mod_256_shift_ne: "h < 256 \<Longrightarrow> 0 < d \<Longrightarrow> d < 256 \<Longrightarrow> (h + d) mod 256 \<noteq> (h::nat)"
  by (auto simp: mod_if)

lemma mod_256_Suc_add: "((h + 1) mod 256 + k) mod 256 = (h + Suc k) mod (256::nat)"
  by (simp add: mod_add_left_eq)

lemma count_u32_less:
  "unat (c::u32) \<le> 256 \<Longrightarrow> c \<noteq> TRING_CAP \<Longrightarrow> unat c < 256"
  by (auto simp: TRING_CAP_def word_unat_eq_iff)

lemma unat_count_Suc: "unat (c::u32) < 256 \<Longrightarrow> unat (c + 1) = unat c + 1"
  by (simp add: unat_word_ariths)

lemma unat_count_pred: "(c::u32) \<noteq> 0 \<Longrightarrow> unat (c - 1) = unat c - 1"
  by (metis unat_minus_one)

section \<open>Push and pop refine the list operations\<close>

lemma tring_push_full:
  assumes inv: "tring_invar r" and full: "count r = TRING_CAP"
  shows "tring_list (snd (tring_push r x)) = tl (tring_list r) @ [x]"
proof -
  let ?r = "snd (tring_push r x)"
  let ?h = "unat (head r)"
  have h: "?h < 256" and len: "length (buf r) = 256" using inv by (simp_all add: tring_invar_def)
  have c: "unat (count r) = 256" using full by (simp add: TRING_CAP_def)
  have r: "buf ?r = (buf r)[?h := x]" "unat (head ?r) = (?h + 1) mod 256" "unat (count ?r) = 256"
    using h full c by (simp_all add: tring_push_def unat_head_Suc)
  have slot: "slot ?r k = (?h + Suc k) mod 256" for k
    unfolding slot_def r by (simp add: mod_256_Suc_add [simplified])
  have old: "slot r k = (?h + k) mod 256" for k
    unfolding slot_def c by simp
  show ?thesis
  proof (rule nth_equalityI)
    show "length (tring_list ?r) = length (tl (tring_list r) @ [x])" by (simp add: r c)
    fix k assume "k < length (tring_list ?r)"
    then have k: "k < 256" by (simp add: r)
    show "tring_list ?r ! k = (tl (tring_list r) @ [x]) ! k"
    proof (cases "k = 255")
      case True
      then show ?thesis using h len by (simp add: tring_list_def r c slot nth_append)
    next
      case False
      with k have "(?h + Suc k) mod 256 \<noteq> ?h" by (intro mod_256_shift_ne h) auto
      with False k show ?thesis
        by (simp add: tring_list_def r c slot old nth_append nth_tl del: upt_Suc)
    qed
  qed
qed

lemma tring_push_not_full:
  assumes inv: "tring_invar r" and room: "count r \<noteq> TRING_CAP"
  shows "tring_list (snd (tring_push r x)) = tring_list r @ [x]"
proof -
  let ?r = "snd (tring_push r x)"
  let ?h = "unat (head r)" and ?c = "unat (count r)"
  have h: "?h < 256" and len: "length (buf r) = 256" using inv by (simp_all add: tring_invar_def)
  have c: "?c < 256" using inv room by (simp add: tring_invar_def count_u32_less)
  have r: "buf ?r = (buf r)[?h := x]" "unat (head ?r) = (?h + 1) mod 256" "unat (count ?r) = ?c + 1"
    using h room c by (simp_all add: tring_push_def unat_head_Suc unat_count_Suc)
  have slot_r: "slot r k = (?h + (256 - ?c + k)) mod 256" for k
  proof -
    have "?h + 256 - ?c + k = ?h + (256 - ?c + k)" using c by linarith
    then show ?thesis unfolding slot_def by (rule arg_cong)
  qed
  have slot: "slot ?r k = slot r k" for k
  proof -
    have "(?h + 1) mod 256 + 256 - (?c + 1) + k = (?h + 1) mod 256 + (255 - ?c + k)"
      and "Suc (255 - ?c + k) = 256 - ?c + k"
      using c by linarith+
    then show ?thesis
      using mod_256_Suc_add [of ?h "255 - ?c + k"] unfolding slot_def [of ?r] r slot_r by (simp only:)
  qed
  show ?thesis
  proof (rule nth_equalityI)
    show "length (tring_list ?r) = length (tring_list r @ [x])" by (simp add: r)
    fix k assume "k < length (tring_list ?r)"
    then have k: "k < ?c + 1" by (simp add: r)
    show "tring_list ?r ! k = (tring_list r @ [x]) ! k"
    proof (cases "k = ?c")
      case True
      then show ?thesis using h c len by (simp add: tring_list_def r slot slot_r nth_append del: upt_Suc)
    next
      case False
      with k c have "slot r k \<noteq> ?h" unfolding slot_r by (intro mod_256_shift_ne h) auto
      with False k show ?thesis
        by (simp add: tring_list_def r slot nth_append del: upt_Suc)
    qed
  qed
qed

lemma tring_list_pop:
  assumes inv: "tring_invar r" and pop: "tring_pop r = Some (x, r')"
  shows "tring_list r = x # tring_list r' \<and> tring_invar r'"
proof -
  let ?h = "unat (head r)" and ?c = "unat (count r)"
  have ne: "count r \<noteq> 0" using pop by (auto simp: tring_pop_def)
  have bnd: "?h < 256" "?c \<le> 256" using inv by (simp_all add: tring_invar_def)
  have x: "x = buf r ! slot r 0" and r': "r' = r\<lparr>count := count r - 1\<rparr>"
    using pop ne bnd by (simp_all add: tring_pop_def Let_def slot_def unat_tail)
  have c': "unat (count r') = ?c - 1" using ne by (simp add: r' unat_count_pred)
  have "0 < ?c" using ne by (simp add: unat_gt_0)
  then have upt: "[0..<?c] = 0 # map Suc [0..<?c - 1]"
    by (simp add: map_Suc_upt upt_conv_Cons)
  have "slot r' k = slot r (Suc k)" for k
  proof -
    have "?h + 256 - (?c - 1) + k = ?h + 256 - ?c + Suc k" using bnd \<open>0 < ?c\<close> by linarith
    then show ?thesis by (simp only: slot_def c') (simp add: r')
  qed
  then show ?thesis
    using inv by (simp add: tring_list_def upt c' x tring_invar_def del: upt_Suc) (auto simp: r')
qed

lemma tring_invar_push:
  assumes "tring_invar r"
  shows "tring_invar (snd (tring_push r x))"
proof -
  have h: "unat (head r) < 256" using assms by (simp add: tring_invar_def)
  then have h': "unat ((head r + 1) mod TRING_CAP) < 256" by (simp add: unat_head_Suc)
  show ?thesis
  proof (cases "count r = TRING_CAP")
    case True
    with assms h' show ?thesis by (simp add: tring_push_def tring_invar_def)
  next
    case False
    then have "unat (count r) < 256" using assms by (simp add: tring_invar_def count_u32_less)
    with assms h' False show ?thesis
      by (simp add: tring_push_def tring_invar_def unat_count_Suc)
  qed
qed

lemma full_iff_length: "count r = TRING_CAP \<longleftrightarrow> length (tring_list r) = 256"
  by (auto simp: TRING_CAP_def word_unat_eq_iff)

interpretation tr: fifo_ring "\<lambda>x r. snd (tring_push r x)" tring_list tring_invar 256 tring_pop
proof (unfold_locales, goal_cases)
  case (2 r) then show ?case by (simp add: tring_invar_def)
next
  case (3 r x) then show ?case by (rule tring_invar_push)
next
  case (4 r x) then show ?case
    by (cases "count r = TRING_CAP") (simp_all add: tring_push_full tring_push_not_full full_iff_length)
next
  case (5 r) show ?case by (auto simp: tring_pop_def tring_list_def Let_def unat_eq_0)
next
  case (6 r x r') then show ?case by (rule tring_list_pop)
qed simp

text \<open>The C return value and the two counters.\<close>

lemma tring_push_flag: "fst (tring_push r x) = (if length (tring_list r) = 256 then 1 else 0)"
  using full_iff_length [of r] by (simp add: tring_push_def)

lemma tring_push_counters:
  "produced (snd (tring_push r x)) = produced r + 1"
  "dropped (snd (tring_push r x)) = dropped r + (if length (tring_list r) = 256 then 1 else 0)"
  using full_iff_length [of r] by (simp_all add: tring_push_def)

lemma tring_pop_counters:
  "tring_pop r = Some (x, r') \<Longrightarrow> produced r' = produced r \<and> dropped r' = dropped r"
  by (auto simp: tring_pop_def Let_def split: if_splits)

lemma tring_init_empty:
  "length (buf r) = 256 \<Longrightarrow> tring_invar (tring_init r) \<and> tring_list (tring_init r) = []"
  by (simp add: tring_init_def tring_invar_def tring_list_def)

section \<open>Properties\<close>

text \<open>Writer and reader operations on the ring, in any order.\<close>

abbreviation tring_run :: "telemetry_record ring_op list \<Rightarrow> tring \<Rightarrow> telemetry_record list \<times> tring" where
  "tring_run \<equiv> ring_run (\<lambda>x r. snd (tring_push r x)) tring_pop"

lemma tring_run_counters:
  "tring_invar r \<Longrightarrow> tring_run ops r = (out, r') \<Longrightarrow>
   produced r' = produced r + of_nat (length (pushed ops)) \<and>
   dropped r' + of_nat (length out + length (tring_list r')) =
     dropped r + of_nat (length (tring_list r) + length (pushed ops))"
proof (induction ops arbitrary: r out)
  case Nil
  then show ?case by simp
next
  case (Cons op ops)
  show ?case
  proof (cases op)
    case (Push x)
    let ?s = "snd (tring_push r x)"
    have "tring_run ops ?s = (out, r')" using Cons.prems(2) Push by simp
    from Cons.IH [OF tring_invar_push [OF Cons.prems(1)] this]
    have "produced r' = produced ?s + of_nat (length (pushed ops))"
      and "dropped r' + of_nat (length out + length (tring_list r')) =
        dropped ?s + of_nat (length (tring_list ?s) + length (pushed ops))" by blast+
    moreover have "length (tring_list ?s) = min 256 (Suc (length (tring_list r)))"
      using Cons.prems(1) by (rule tr.length_push)
    moreover have "length (tring_list r) = 256 \<or> length (tring_list r) < 256"
      using tr.length_contents [OF Cons.prems(1)] by linarith
    ultimately show ?thesis
      using Push by (auto simp: tring_push_counters algebra_simps simp del: length_tring_list)
  next
    case Pop
    show ?thesis
    proof (cases "tring_pop r")
      case None
      with Pop Cons show ?thesis by simp
    next
      case (Some p)
      then obtain x s where p: "tring_pop r = Some (x, s)" by (cases p) simp
      have s: "tring_list r = x # tring_list s" "tring_invar s"
        using tring_list_pop [OF Cons.prems(1) p] by simp_all
      obtain out' where out: "out = x # out'" and run: "tring_run ops s = (out', r')"
        using Cons.prems(2) Pop p by (auto split: prod.splits)
      from Cons.IH [OF s(2) run] tring_pop_counters [OF p] show ?thesis
        by (auto simp: s(1) out Pop algebra_simps simp del: length_tring_list)
    qed
  qed
qed

text \<open>
  C5. The kernel ring is a drop-oldest FIFO: for every interleaving of pushes and pops on a
  freshly initialised ring, the records read followed by the records still buffered are a
  subsequence, in order, of the records pushed; the buffered ones are the newest; the
  \<^verbatim>\<open>produced\<close> counter counts the pushes and \<^verbatim>\<open>dropped\<close> exactly the records that
  were neither read nor kept (as 64-bit counters).
\<close>

theorem tring_drop_oldest_fifo:
  assumes "length (buf r) = 256"
  shows "case tring_run ops (tring_init r) of (out, r') \<Rightarrow>
    subseq (out @ tring_list r') (pushed ops) \<and>
    suffix (tring_list r') (pushed ops) \<and> length (tring_list r') \<le> 256 \<and>
    produced r' = of_nat (length (pushed ops)) \<and>
    dropped r' = of_nat (length (pushed ops) - length (out @ tring_list r'))"
proof -
  have init: "tring_invar (tring_init r)" "tring_list (tring_init r) = []"
    "produced (tring_init r) = 0" "dropped (tring_init r) = 0"
    using tring_init_empty [OF assms] by (simp_all add: tring_init_def)
  obtain out r' where run: "tring_run ops (tring_init r) = (out, r')" by fastforce
  have sub: "subseq (out @ tring_list r') (pushed ops)"
    using tr.run_subseq [OF init(1) run] by (simp add: init(2))
  moreover have "suffix (tring_list r') (pushed ops)"
    using tr.run_suffix [OF init(1) run] by (simp add: init(2))
  moreover have "length (tring_list r') \<le> 256"
    using tr.invar_run [OF init(1), of ops] run by (simp add: tr.length_contents del: length_tring_list)
  moreover have "dropped r' = of_nat (length (pushed ops) - length (out @ tring_list r'))"
    using tring_run_counters [OF init(1) run] list_emb_length [OF sub]
    by (simp add: init eq_diff_eq del: length_tring_list)
  ultimately show ?thesis
    using tring_run_counters [OF init(1) run] by (simp add: run init)
qed

theorem tring_drop_oldest_fifo_witness:
  "\<exists>r a b. length (buf r) = 256 \<and> a \<noteq> b \<and>
    (case tring_run [Push a, Pop, Push b] (tring_init r) of (out, r') \<Rightarrow>
      subseq (out @ tring_list r') [a, b] \<and> produced r' = 2 \<and> out = [a] \<and> dropped r' = 0)"
proof -
  define a :: telemetry_record where
    "a = \<lparr>device_id = 1, seq = 1, temperature = 0, humidity = 0, server_timestamp_ns = 5\<rparr>"
  define r where
    "r = \<lparr>buf = replicate 256 a, head = 0, tring.count = 0, produced = 0, dropped = 0\<rparr>"
  have len: "length (buf r) = 256" by (simp add: r_def)
  let ?ops = "[Push a, Pop, Push (a\<lparr>seq := 2\<rparr>)]"
  obtain out r' where run: "tring_run ?ops (tring_init r) = (out, r')" by fastforce
  have "a \<noteq> a\<lparr>seq := 2\<rparr>" by (simp add: a_def)
  moreover have "out = [a] \<and> dropped r' = 0"
    using run by (auto simp: r_def tring_init_def tring_push_def tring_pop_def TRING_CAP_def
        Let_def split: prod.splits if_splits)
  ultimately show ?thesis
    using tring_drop_oldest_fifo [OF len, of ?ops] len run by fastforce
qed

end
