(* ===== verification/Printf.thy ===== *)
theory Printf
  imports Prelude "HOL-Library.Signed_Division"
begin

text \<open>
  The \<^verbatim>\<open>printf\<close> conversions the program uses (\<^verbatim>\<open>%u %d %llu %08X %-6u %4d %02d\<close>) and the
  way it prints a centi-unit reading, \<^verbatim>\<open>"%wd.%02d", t / 100, abs(t % 100)\<close>, with C's
  truncating division. The printed reading determines the value up to one case: the sign of
  readings between \<open>-99\<close> and \<open>-1\<close> is not printed.
\<close>

section \<open>Conversions\<close>

definition digit_char :: "nat \<Rightarrow> char" where
  "digit_char d = (if d < 10 then char_of (48 + d) else char_of (55 + d))"

text \<open>Digits of a number in a base, most significant first.\<close>

fun base_str :: "nat \<Rightarrow> nat \<Rightarrow> string" where
  "base_str b n = (if n < b \<or> b < 2 then [digit_char n] else base_str b (n div b) @ [digit_char (n mod b)])"

declare base_str.simps [simp del]

definition pad_left :: "nat \<Rightarrow> char \<Rightarrow> string \<Rightarrow> string" where
  "pad_left w c s = replicate (w - length s) c @ s"

definition pad_right :: "nat \<Rightarrow> string \<Rightarrow> string" where
  "pad_right w s = s @ replicate (w - length s) CHR '' ''"

definition newline :: string where
  "newline = [char_of (10::nat)]"

definition fmt_u :: "nat \<Rightarrow> string" where
  "fmt_u n = base_str 10 n"

definition fmt_d :: "int \<Rightarrow> string" where
  "fmt_d i = (if i < 0 then CHR ''-'' # base_str 10 (nat (- i)) else base_str 10 (nat i))"

definition fmt_08X :: "u32 \<Rightarrow> string" where
  "fmt_08X w = pad_left 8 CHR ''0'' (base_str 16 (unat w))"

text \<open>\<^verbatim>\<open>%wd.%02d\<close> of \<^verbatim>\<open>t / 100\<close> and \<^verbatim>\<open>abs(t % 100)\<close>.\<close>

definition fmt_centi :: "nat \<Rightarrow> int \<Rightarrow> string" where
  "fmt_centi w t = pad_left w CHR '' '' (fmt_d (t sdiv 100)) @ ''.'' @
     pad_left 2 CHR ''0'' (fmt_d \<bar>t smod 100\<bar>)"

section \<open>What a printed number determines\<close>

definition digit_val :: "char \<Rightarrow> nat" where
  "digit_val c = (if of_char c < (65::nat) then of_char c - 48 else of_char c - 55)"

definition base_val :: "nat \<Rightarrow> string \<Rightarrow> nat" where
  "base_val b s = foldl (\<lambda>a c. a * b + digit_val c) 0 s"

lemma digit_val_char [simp]: "d < 16 \<Longrightarrow> digit_val (digit_char d) = d"
  by (auto simp: digit_val_def digit_char_def)

lemma base_val_snoc [simp]: "base_val b (s @ [c]) = base_val b s * b + digit_val c"
  by (simp add: base_val_def)

lemma base_val_str: "2 \<le> b \<Longrightarrow> b \<le> 16 \<Longrightarrow> base_val b (base_str b n) = n"
proof (induction b n rule: base_str.induct)
  case (1 b n)
  show ?case
  proof (cases "n < b")
    case True
    with 1 show ?thesis by (simp add: base_str.simps [of b n] base_val_def)
  next
    case False
    with 1 show ?thesis
      by (simp add: base_str.simps [of b n] less_le_trans [OF mod_less_divisor])
  qed
qed

lemma base_val_pad_zero: "base_val b (pad_left w CHR ''0'' s) = base_val b s"
proof -
  have "foldl (\<lambda>a c. a * b + digit_val c) 0 (replicate k CHR ''0'') = 0" for k
    by (induction k) (simp_all add: digit_val_def)
  then show ?thesis by (simp add: base_val_def pad_left_def)
qed

text \<open>A device id printed with \<^verbatim>\<open>0x%08X\<close> determines the id.\<close>

lemma fmt_08X_inj: "fmt_08X v = fmt_08X w \<longleftrightarrow> v = w"
  by (metis base_val_pad_zero base_val_str fmt_08X_def numeral_le_iff order_refl semiring_norm(69)
      unsigned_word_eqI word_unat_eq_iff semiring_norm(71) semiring_norm(68))

lemma base_str_digits: "2 \<le> b \<Longrightarrow> set (base_str b n) \<subseteq> digit_char ` {..<b}"
proof (induction b n rule: base_str.induct)
  case (1 b n)
  then show ?case
    by (cases "n < b") (auto simp: base_str.simps [of b n])
qed

lemma base_str_nonempty [simp]: "base_str b n \<noteq> []"
  by (subst base_str.simps) simp

lemma digit_char_dec: "d < 10 \<Longrightarrow> digit_char d \<notin> {CHR ''-'', CHR '' '', CHR ''.''}"
proof -
  assume "d < 10"
  then have "of_char (digit_char d) = 48 + d" by (simp add: digit_char_def)
  then show ?thesis by (auto dest!: arg_cong [of _ _ "of_char :: char \<Rightarrow> nat"])
qed

lemma dec_chars: "c \<in> set (base_str 10 n) \<Longrightarrow> c \<notin> {CHR ''-'', CHR '' '', CHR ''.''}"
  using base_str_digits [of 10 n] digit_char_dec by fastforce

lemma fmt_d_chars: "c \<in> set (fmt_d i) \<Longrightarrow> c \<notin> {CHR '' '', CHR ''.''}"
  using dec_chars by (fastforce simp: fmt_d_def split: if_splits)

lemma fmt_d_nonempty [simp]: "fmt_d i \<noteq> []"
  by (simp add: fmt_d_def)

lemma base_val_10 [simp]: "base_val 10 (base_str 10 n) = n"
  by (rule base_val_str) simp_all

lemma base_str_10_inj: "base_str 10 m = base_str 10 n \<longleftrightarrow> m = n"
  by (metis base_val_10)

lemma dec_not_minus: "base_str 10 m \<noteq> CHR ''-'' # s"
  using dec_chars [of "CHR ''-''" m] by auto

lemma fmt_d_inj: "fmt_d i = fmt_d j \<longleftrightarrow> i = j"
  using dec_not_minus [THEN not_sym] dec_not_minus
  by (auto simp: fmt_d_def base_str_10_inj)

lemma unpad_space: "dropWhile (\<lambda>c. c = CHR '' '') (pad_left w CHR '' '' (fmt_d i)) = fmt_d i"
proof -
  have "dropWhile (\<lambda>c. c = CHR '' '') (fmt_d i) = fmt_d i"
    using fmt_d_chars [of "hd (fmt_d i)" i] by (cases "fmt_d i") auto
  then have "dropWhile (\<lambda>c. c = CHR '' '') (replicate k CHR '' '' @ fmt_d i) = fmt_d i" for k
    by (induction k) simp_all
  then show ?thesis by (simp add: pad_left_def)
qed

lemma abs_smod_eq: "\<bar>t smod 100\<bar> = \<bar>t\<bar> mod (100::int)"
proof -
  have "t smod 100 = sgn t * (\<bar>t\<bar> mod 100)"
    using div_mult_mod_eq [of "\<bar>t\<bar>" 100]
    by (cases t "0::int" rule: linorder_cases) (auto simp: signed_modulo_int_def signed_divide_int_def)
  then show ?thesis by (cases "t = 0") (simp_all add: abs_mult)
qed

lemma centi_parts_eq:
  "t sdiv 100 = t' sdiv 100 \<and> \<bar>t smod 100\<bar> = \<bar>t' smod (100::int)\<bar> \<longleftrightarrow> t = t' \<or> (t = - t' \<and> \<bar>t\<bar> < 100)"
proof
  assume eq: "t sdiv 100 = t' sdiv 100 \<and> \<bar>t smod 100\<bar> = \<bar>t' smod 100\<bar>"
  have q: "\<bar>x sdiv 100\<bar> = \<bar>x\<bar> div 100" for x :: int
    by (cases "x = 0") (simp_all add: signed_divide_int_def abs_mult)
  have "\<bar>t\<bar> div 100 = \<bar>t'\<bar> div 100" "\<bar>t\<bar> mod 100 = \<bar>t'\<bar> mod 100"
    using eq q [of t] q [of t'] by (simp_all add: abs_smod_eq)
  then have abs_eq: "\<bar>t\<bar> = \<bar>t'\<bar>" by (metis div_mult_mod_eq)
  show "t = t' \<or> (t = - t' \<and> \<bar>t\<bar> < 100)"
  proof (cases "t = t'")
    case False
    with abs_eq have t: "t = - t'" "t' \<noteq> 0" by arith+
    with eq have "sgn t' * (\<bar>t'\<bar> div 100) = 0" by (simp add: signed_divide_int_def)
    with t have "\<bar>t'\<bar> div 100 = 0" by (simp add: sgn_eq_0_iff)
    then have "\<bar>t'\<bar> < 100" by linarith
    with t show ?thesis by simp
  qed simp
next
  assume "t = t' \<or> (t = - t' \<and> \<bar>t\<bar> < 100)"
  then show "t sdiv 100 = t' sdiv 100 \<and> \<bar>t smod 100\<bar> = \<bar>t' smod 100\<bar>"
    by (auto simp: signed_divide_int_def abs_smod_eq)
qed

lemma fmt_centi_eq_parts:
  "fmt_centi w t = fmt_centi w t' \<longleftrightarrow> t sdiv 100 = t' sdiv 100 \<and> \<bar>t smod 100\<bar> = \<bar>t' smod 100\<bar>"
proof
  assume eq: "fmt_centi w t = fmt_centi w t'"
  have no_dot: "CHR ''.'' \<notin> set (pad_left k c (fmt_d i))" if "c \<noteq> CHR ''.''" for k c i
    using fmt_d_chars that by (fastforce simp: pad_left_def)
  from eq have "pad_left w CHR '' '' (fmt_d (t sdiv 100)) = pad_left w CHR '' '' (fmt_d (t' sdiv 100))"
    and b: "pad_left 2 CHR ''0'' (fmt_d \<bar>t smod 100\<bar>) = pad_left 2 CHR ''0'' (fmt_d \<bar>t' smod 100\<bar>)"
    by (simp_all add: fmt_centi_def append_Cons_eq_iff no_dot)
  then have "fmt_d (t sdiv 100) = fmt_d (t' sdiv 100)" by (metis unpad_space)
  moreover have "base_val 10 (fmt_d \<bar>r\<bar>) = nat \<bar>r\<bar>" for r :: int
    by (simp add: fmt_d_def)
  with b have "nat \<bar>t smod 100\<bar> = nat \<bar>t' smod 100\<bar>" by (metis base_val_pad_zero)
  ultimately show "t sdiv 100 = t' sdiv 100 \<and> \<bar>t smod 100\<bar> = \<bar>t' smod 100\<bar>"
    by (simp add: fmt_d_inj)
qed (simp add: fmt_centi_def)

end
