(* ===== verification/Telemetry_Drv.thy ===== *)
theory Telemetry_Drv
  imports Tring Printf
begin

text \<open>
  \<^verbatim>\<open>kmod/telemetry_drv.c\<close>: the file operations of \<^verbatim>\<open>/dev/telemetry\<close>. Kernel services are
  parameters: \<^verbatim>\<open>copy_from_user\<close> and \<^verbatim>\<open>copy_to_user\<close> are functions that may fault, and what
  a blocking reader sees each time \<^verbatim>\<open>wait_event_interruptible\<close> returns is a list of wake-ups,
  each with the ring as the other threads left it.
\<close>

section \<open>State and results\<close>

text \<open>
  A negative return is \<open>Inl\<close> of the errno, a byte count \<open>Inr\<close>. The state is the static
  \<^verbatim>\<open>g_ring\<close> and the number of \<^verbatim>\<open>wake_up_interruptible(&g_readq)\<close> calls made.
\<close>

record drv =
  g_ring :: tring
  readq_wakeups :: nat

definition BATCH :: nat where
  "BATCH = 32"

section \<open>The file operations\<close>

text \<open>
  \<open>cfu off n\<close> is what \<^verbatim>\<open>copy_from_user\<close> reads at \<^verbatim>\<open>ubuf + off\<close>, \<open>None\<close> for a fault.
  Each iteration takes the spinlock around one push.
\<close>

fun write_loop :: "endian \<Rightarrow> (nat \<Rightarrow> nat \<Rightarrow> u8 list option) \<Rightarrow> nat \<Rightarrow> nat \<Rightarrow> drv \<Rightarrow> bool \<times> drv" where
  "write_loop host cfu i 0 d = (True, d)"
| "write_loop host cfu i (Suc k) d =
     (case cfu (i * REC_SZ) REC_SZ of
        None \<Rightarrow> (False, d)
      | Some bs \<Rightarrow> write_loop host cfu (i + 1) k
          (d\<lparr>g_ring := snd (tring_push (g_ring d) (rec_ld host bs))\<rparr>))"

definition tlm_write ::
  "endian \<Rightarrow> (nat \<Rightarrow> nat \<Rightarrow> u8 list option) \<Rightarrow> nat \<Rightarrow> nat \<Rightarrow> drv \<Rightarrow> sys_result \<times> nat \<times> drv" where
  "tlm_write host cfu len off d =
     (let nrec = len div REC_SZ in
      if nrec = 0 then (Inl EINVAL, off, d)
      else case write_loop host cfu 0 nrec d of
          (False, d1) \<Rightarrow> (Inl EFAULT, off, d1)
        | (True, d1) \<Rightarrow>
            (Inr (nrec * REC_SZ), off + nrec * REC_SZ, d1\<lparr>readq_wakeups := readq_wakeups d1 + 1\<rparr>))"

text \<open>The reader's wait: \<open>None\<close> while it is still asleep after all the listed wake-ups.\<close>

datatype wait_event = Signalled tring | Woken tring

fun read_wait :: "bool \<Rightarrow> wait_event list \<Rightarrow> tring \<Rightarrow> (tring \<times> errno option) option" where
  "read_wait nonblock ws r =
     (if tring_count r \<noteq> 0 then Some (r, None)
      else if nonblock then Some (r, Some EAGAIN)
      else case ws of
          [] \<Rightarrow> None
        | Signalled r' # _ \<Rightarrow> Some (r', Some ERESTARTSYS)
        | Woken r' # ws' \<Rightarrow> read_wait nonblock ws' r')"

declare read_wait.simps [simp del]

text \<open>\<^verbatim>\<open>while (n < want && tring_pop(&g_ring, &batch[n])) n++;\<close> as the records popped.\<close>

fun pop_batch :: "nat \<Rightarrow> tring \<Rightarrow> telemetry_record list \<times> tring" where
  "pop_batch 0 r = ([], r)"
| "pop_batch (Suc k) r =
     (case tring_pop r of
        None \<Rightarrow> ([], r)
      | Some (x, r1) \<Rightarrow> (case pop_batch k r1 of (xs, r2) \<Rightarrow> (x # xs, r2)))"

text \<open>
  \<open>ctu bs\<close> says whether \<^verbatim>\<open>copy_to_user\<close> succeeds. A returned read gives the result, the
  user buffer, the file offset and the driver state; \<open>None\<close> is a reader still blocked.
\<close>

definition tlm_read ::
  "endian \<Rightarrow> (u8 list \<Rightarrow> bool) \<Rightarrow> bool \<Rightarrow> wait_event list \<Rightarrow> u8 list \<Rightarrow> nat \<Rightarrow> nat \<Rightarrow> drv \<Rightarrow>
   (sys_result \<times> u8 list \<times> nat \<times> drv) option" where
  "tlm_read host ctu nonblock ws ubuf len off d =
     (let maxrec = len div REC_SZ in
      if maxrec = 0 then Some (Inl EINVAL, ubuf, off, d)
      else case read_wait nonblock ws (g_ring d) of
          None \<Rightarrow> None
        | Some (r, Some e) \<Rightarrow> Some (Inl e, ubuf, off, d\<lparr>g_ring := r\<rparr>)
        | Some (r, None) \<Rightarrow>
            (let want = (if maxrec < BATCH then maxrec else BATCH);
                 (batch, r1) = pop_batch want r;
                 bs = recs_mem host batch;
                 d1 = d\<lparr>g_ring := r1\<rparr>
             in if \<not> ctu bs then Some (Inl EFAULT, ubuf, off, d1)
                else Some (Inr (length batch * REC_SZ), memcpy_at ubuf 0 bs,
                           off + length batch * REC_SZ, d1)))"

text \<open>\<^verbatim>\<open>POLLIN | POLLRDNORM\<close> as a flag.\<close>

definition tlm_poll :: "drv \<Rightarrow> bool" where
  "tlm_poll d = (tring_count (g_ring d) > 0)"

record pl_stats =
  st_produced :: u64
  st_dropped :: u64
  st_in_ring :: u32
  st_capacity :: u32

datatype ioctl_cmd = PL_IOC_GET_STATS | PL_IOC_RESET | OtherIoctl u32

definition tlm_ioctl :: "(pl_stats \<Rightarrow> bool) \<Rightarrow> ioctl_cmd \<Rightarrow> drv \<Rightarrow> (errno + pl_stats option) \<times> drv" where
  "tlm_ioctl ctu cmd d =
     (case cmd of
        PL_IOC_GET_STATS \<Rightarrow>
          (let s = \<lparr>st_produced = produced (g_ring d), st_dropped = dropped (g_ring d),
                    st_in_ring = tring_count (g_ring d), st_capacity = TRING_CAP\<rparr>
           in if \<not> ctu s then (Inl EFAULT, d) else (Inr (Some s), d))
      | PL_IOC_RESET \<Rightarrow> (Inr None, d\<lparr>g_ring := tring_init (g_ring d)\<rparr>)
      | OtherIoctl _ \<Rightarrow> (Inl ENOTTY, d))"

definition PL_TELEMETRY_DEVNAME :: string where
  "PL_TELEMETRY_DEVNAME = ''telemetry''"

definition tlm_proc_show :: "drv \<Rightarrow> string" where
  "tlm_proc_show d =
     ''device      : /dev/'' @ PL_TELEMETRY_DEVNAME @ newline @
     ''capacity    : '' @ fmt_d (int (unat TRING_CAP)) @ '' records'' @ newline @
     ''record_size : '' @ fmt_u REC_SZ @ '' bytes'' @ newline @
     ''in_ring     : '' @ fmt_u (unat (tring_count (g_ring d))) @ newline @
     ''produced    : '' @ fmt_u (unat (produced (g_ring d))) @ newline @
     ''dropped     : '' @ fmt_u (unat (dropped (g_ring d))) @ newline"

text \<open>
  Module load and unload: \<open>misc\<close> is the return value of \<^verbatim>\<open>misc_register\<close> (\<open>None\<close> for 0) and
  \<open>proc_ok\<close> whether \<^verbatim>\<open>proc_create\<close> succeeds; the registrations are the module's state.
\<close>

record drv_module =
  mod_drv :: drv
  misc_registered :: bool
  proc_registered :: bool

definition tlm_init :: "errno option \<Rightarrow> bool \<Rightarrow> drv_module \<Rightarrow> errno option \<times> drv_module" where
  "tlm_init misc proc_ok m =
     (let m1 = m\<lparr>mod_drv := (mod_drv m)\<lparr>g_ring := tring_init (g_ring (mod_drv m))\<rparr>\<rparr> in
      case misc of
        Some e \<Rightarrow> (Some e, m1)
      | None \<Rightarrow>
          (let m2 = m1\<lparr>misc_registered := True\<rparr> in
           if \<not> proc_ok then (Some ENOMEM, m2\<lparr>misc_registered := False\<rparr>)
           else (None, m2\<lparr>proc_registered := True\<rparr>)))"

definition tlm_exit :: "drv_module \<Rightarrow> drv_module" where
  "tlm_exit m = m\<lparr>proc_registered := False, misc_registered := False\<rparr>"

section \<open>Lemmas\<close>

abbreviation ring_push :: "telemetry_record \<Rightarrow> tring \<Rightarrow> tring" where
  "ring_push x r \<equiv> snd (tring_push r x)"

lemma fold_push_produced: "produced (fold ring_push xs r) = produced r + of_nat (length xs)"
  by (induction xs arbitrary: r) (simp_all add: tring_push_counters)

lemma write_loop_ok:
  assumes "\<And>j. j < length bss \<Longrightarrow> cfu ((i + j) * REC_SZ) REC_SZ = Some (bss ! j)"
  shows "write_loop host cfu i (length bss + k) d =
    write_loop host cfu (i + length bss) k (d\<lparr>g_ring := fold ring_push (map (rec_ld host) bss) (g_ring d)\<rparr>)"
  using assms
proof (induction bss arbitrary: i d)
  case Nil
  then show ?case by simp
next
  case (Cons b bss)
  have "cfu (i * REC_SZ) REC_SZ = Some b" using Cons.prems [of 0] by simp
  moreover have "cfu ((i + 1 + j) * REC_SZ) REC_SZ = Some (bss ! j)" if "j < length bss" for j
    using Cons.prems [of "Suc j"] that by simp
  ultimately show ?case using Cons.IH [of "i + 1"] by simp
qed

lemma pop_batch_spec:
  assumes "tring_invar r" and "pop_batch k r = (xs, r')"
  shows "xs = take k (tring_list r) \<and> tring_list r' = drop k (tring_list r) \<and> tring_invar r' \<and>
    produced r' = produced r \<and> dropped r' = dropped r"
  using assms
proof (induction k arbitrary: r xs)
  case 0
  then show ?case by simp
next
  case (Suc k)
  show ?case
  proof (cases "tring_pop r")
    case None
    with Suc.prems have "tring_list r = []" using tr.pop_None by blast
    with None Suc.prems show ?thesis by auto
  next
    case (Some p)
    then obtain x r1 where p: "tring_pop r = Some (x, r1)" by (cases p) simp
    obtain ys where ys: "pop_batch k r1 = (ys, r')" "xs = x # ys"
      using Suc.prems(2) p by (auto split: prod.splits)
    have "tring_list r = x # tring_list r1" "tring_invar r1"
      using tr.pop_Some [OF Suc.prems(1) p] by auto
    with Suc.IH [OF _ ys(1)] ys(2) tring_pop_counters [OF p] show ?thesis by simp
  qed
qed

lemma tring_count_0: "tring_count r = 0 \<longleftrightarrow> tring_list r = []"
  by (metis length_tring_list length_0_conv tring_count_def unat_eq_zero)

text \<open>
  What the driver relies on of \<^verbatim>\<open>copy_from_user\<close>: it returns the bytes of a readable
  user buffer.
\<close>

definition user_reads :: "(nat \<Rightarrow> nat \<Rightarrow> u8 list option) \<Rightarrow> u8 list \<Rightarrow> bool" where
  "user_reads cfu ubuf \<longleftrightarrow> (\<forall>off n. off + n \<le> length ubuf \<longrightarrow> cfu off n = Some (take n (drop off ubuf)))"

text \<open>The blocks \<^verbatim>\<open>write_loop\<close> reads, and the records in them.\<close>

definition user_blocks :: "u8 list \<Rightarrow> nat \<Rightarrow> u8 list list" where
  "user_blocks ubuf n = map (\<lambda>j. take REC_SZ (drop (j * REC_SZ) ubuf)) [0..<n]"

lemma length_user_blocks [simp]: "length (user_blocks ubuf n) = n"
  by (simp add: user_blocks_def)

lemma block_in_buffer:
  assumes "j < n" and "n * REC_SZ \<le> l"
  shows "j * REC_SZ + REC_SZ \<le> l"
proof -
  have "Suc j * REC_SZ \<le> n * REC_SZ" using assms(1) by (intro mult_le_mono1) simp
  with assms(2) show ?thesis by simp
qed

lemma user_blocks_recs:
  assumes "n * REC_SZ \<le> length ubuf"
  shows "map (rec_ld host) (user_blocks ubuf n) = recs_ld host n ubuf"
proof (rule nth_equalityI)
  fix j assume "j < length (map (rec_ld host) (user_blocks ubuf n))"
  then have j: "j < n" by simp
  from block_in_buffer [OF j assms] j
  show "map (rec_ld host) (user_blocks ubuf n) ! j = recs_ld host n ubuf ! j"
    by (simp add: user_blocks_def recs_ld_nth rec.dec_take)
qed simp

lemma user_reads_block:
  assumes "user_reads cfu ubuf" and "n * REC_SZ \<le> length ubuf" and "j < n"
  shows "cfu ((0 + j) * REC_SZ) REC_SZ = Some (user_blocks ubuf n ! j)"
  using assms block_in_buffer [OF assms(3,2)] by (simp add: user_reads_def user_blocks_def)

lemma tlm_write_run:
  assumes "user_reads cfu ubuf" and "length ubuf = len" and "REC_SZ \<le> len"
  shows "tlm_write host cfu len off d =
    (Inr (len div REC_SZ * REC_SZ), off + len div REC_SZ * REC_SZ,
     d\<lparr>g_ring := fold ring_push (recs_ld host (len div REC_SZ) ubuf) (g_ring d),
       readq_wakeups := readq_wakeups d + 1\<rparr>)"
proof -
  let ?n = "len div REC_SZ"
  have le: "?n * REC_SZ \<le> length ubuf" using assms(2) by simp
  have "?n \<noteq> 0" using assms(3) by (simp add: REC_SZ_def)
  then show ?thesis
    using write_loop_ok [where bss = "user_blocks ubuf ?n" and cfu = cfu and i = 0 and k = 0 and d = d and host = host]
      user_reads_block [OF assms(1) le]
    by (simp add: tlm_write_def Let_def user_blocks_recs [OF le])
qed

lemma tlm_write_invar:
  assumes "tring_invar (g_ring d)"
  shows "tring_invar (g_ring (snd (snd (tlm_write host cfu len off d))))"
proof -
  have loop: "tring_invar (g_ring e) \<Longrightarrow> tring_invar (g_ring (snd (write_loop host cfu i k e)))" for i k e
    by (induction k arbitrary: i e) (simp_all add: tring_invar_push split: option.split)
  from loop [OF assms, of 0 "len div REC_SZ"] assms show ?thesis
    by (auto simp: tlm_write_def Let_def split: prod.split bool.split)
qed

lemma read_wait_ready:
  "tring_list r \<noteq> [] \<Longrightarrow> read_wait nonblock ws r = Some (r, None)"
  by (simp add: read_wait.simps tring_count_0)

lemma read_wait_result:
  "read_wait nonblock ws r = Some (r', None) \<Longrightarrow> tring_list r' \<noteq> [] \<and> (r' = r \<or> Woken r' \<in> set ws)"
proof (induction ws arbitrary: r)
  case Nil
  then show ?case by (simp add: read_wait.simps [of _ "[]"] tring_count_0 split: if_splits)
next
  case (Cons w ws)
  then show ?case
    by (fastforce simp: read_wait.simps [of _ "w # ws"] tring_count_0 split: if_splits wait_event.splits)
qed

lemma tlm_read_ready:
  assumes "tring_invar (g_ring d)" and "tring_list (g_ring d) \<noteq> []" and "REC_SZ \<le> len"
    and "\<forall>bs. ctu bs"
  shows "\<exists>r'. tlm_read host ctu nonblock ws ubuf len off d =
    (let batch = take (min (len div REC_SZ) BATCH) (tring_list (g_ring d))
     in Some (Inr (length batch * REC_SZ), memcpy_at ubuf 0 (recs_mem host batch),
              off + length batch * REC_SZ, d\<lparr>g_ring := r'\<rparr>)) \<and>
    tring_invar r' \<and> tring_list r' = drop (min (len div REC_SZ) BATCH) (tring_list (g_ring d)) \<and>
    produced r' = produced (g_ring d) \<and> dropped r' = dropped (g_ring d)"
proof -
  let ?want = "min (len div REC_SZ) BATCH"
  obtain xs r' where pop: "pop_batch ?want (g_ring d) = (xs, r')" by fastforce
  have want: "(if len div REC_SZ < BATCH then len div REC_SZ else BATCH) = ?want" by simp
  have "len div REC_SZ \<noteq> 0" using assms(3) by (simp add: REC_SZ_def)
  with pop_batch_spec [OF assms(1) pop] pop assms(4) show ?thesis
    unfolding tlm_read_def want by (auto simp: read_wait_ready [OF assms(2)] Let_def)
qed

section \<open>Properties\<close>

text \<open>
  A \<^verbatim>\<open>write(2)\<close> of whole records from a readable buffer succeeds with the number of bytes
  of whole records, appends exactly those records to the ring (the oldest go when 256 are
  exceeded), advances the offset, counts them as produced, and wakes the readers once.
\<close>

lemma tlm_write_appends:
  assumes "tring_invar (g_ring d)" and "user_reads cfu ubuf" and "length ubuf = len" and "REC_SZ \<le> len"
  shows "case tlm_write host cfu len off d of (res, off', d') \<Rightarrow>
    res = Inr (len - len mod REC_SZ) \<and> off' = off + (len - len mod REC_SZ) \<and>
    tring_list (g_ring d') = last_n 256 (tring_list (g_ring d) @ recs_ld host (len div REC_SZ) ubuf) \<and>
    produced (g_ring d') = produced (g_ring d) + of_nat (len div REC_SZ) \<and>
    readq_wakeups d' = readq_wakeups d + 1 \<and> tring_invar (g_ring d')"
  using tlm_write_run [OF assms(2,3,4)] tr.upto.contents_pushes [OF assms(1)] tr.upto.invar_pushes [OF assms(1)]
  by (simp add: fold_push_produced minus_mod_eq_div_mult)

text \<open>
  A copy fault at record \<open>i\<close> makes \<^verbatim>\<open>write(2)\<close> fail with \<^verbatim>\<open>EFAULT\<close> although the \<open>i\<close>
  records before it are already in the ring, and the readers are not woken for them.
\<close>

lemma tlm_write_fault_keeps_prefix:
  assumes "tring_invar (g_ring d)" and "i < len div REC_SZ"
    and "\<And>j. j < i \<Longrightarrow> cfu (j * REC_SZ) REC_SZ = Some (rec_mem host (recs ! j))"
    and "cfu (i * REC_SZ) REC_SZ = None" and "length recs = i"
  shows "case tlm_write host cfu len off d of (res, off', d') \<Rightarrow>
    res = Inl EFAULT \<and> off' = off \<and> readq_wakeups d' = readq_wakeups d \<and>
    tring_list (g_ring d') = last_n 256 (tring_list (g_ring d) @ recs)"
proof -
  obtain k where k: "len div REC_SZ = i + Suc k" using assms(2) less_iff_Suc_add by auto
  have "map (rec_ld host) (map (rec_mem host) recs) = recs"
    by (simp add: rec.dec_enc_exact o_def)
  with write_loop_ok [where bss = "map (rec_mem host) recs" and cfu = cfu and i = 0 and k = "Suc k"
      and d = d and host = host] assms
  have "write_loop host cfu 0 (len div REC_SZ) d = (False, d\<lparr>g_ring := fold ring_push recs (g_ring d)\<rparr>)"
    by (simp add: k)
  with tr.upto.contents_pushes [OF assms(1)] k show ?thesis by (simp add: tlm_write_def Let_def)
qed

text \<open>
  A \<^verbatim>\<open>read(2)\<close> on a ring that has records returns at once, blocking or not, with the
  oldest \<open>min (len div 24) 32\<close> of them, encoded at the start of the user buffer whose rest is
  untouched; they leave the ring, the others stay in order, and the counters do not change.
\<close>

lemma tlm_read_oldest_first:
  assumes "tring_invar (g_ring d)" and "tring_list (g_ring d) \<noteq> []"
    and "length ubuf = len" and "REC_SZ \<le> len" and "\<forall>bs. ctu bs"
  shows "\<exists>recs d'. tlm_read host ctu nonblock ws ubuf len off d =
      Some (Inr (length recs * REC_SZ), recs_mem host recs @ drop (length recs * REC_SZ) ubuf,
            off + length recs * REC_SZ, d') \<and>
    recs \<noteq> [] \<and> length recs = min (min (len div REC_SZ) 32) (length (tring_list (g_ring d))) \<and>
    length recs * REC_SZ \<le> len \<and> tring_list (g_ring d) = recs @ tring_list (g_ring d') \<and>
    produced (g_ring d') = produced (g_ring d) \<and> dropped (g_ring d') = dropped (g_ring d)"
proof -
  let ?k = "min (len div REC_SZ) BATCH"
  let ?recs = "take ?k (tring_list (g_ring d))"
  obtain r' where read: "tlm_read host ctu nonblock ws ubuf len off d =
      Some (Inr (length ?recs * REC_SZ), memcpy_at ubuf 0 (recs_mem host ?recs),
            off + length ?recs * REC_SZ, d\<lparr>g_ring := r'\<rparr>)"
    and r': "tring_list r' = drop ?k (tring_list (g_ring d))"
      "produced r' = produced (g_ring d)" "dropped r' = dropped (g_ring d)"
    using tlm_read_ready [OF assms(1,2,4,5)] unfolding Let_def by blast
  have len: "length ?recs \<le> len div REC_SZ" by simp
  have "length ?recs * REC_SZ \<le> len div REC_SZ * REC_SZ" by (rule mult_le_mono1 [OF len])
  also have "\<dots> \<le> len" by simp
  finally have fits: "length ?recs * REC_SZ \<le> len" .
  have "0 < ?k" using assms(4) by (simp add: BATCH_def REC_SZ_def)
  then have "?recs \<noteq> []" using assms(2) by auto
  moreover have "memcpy_at ubuf 0 (recs_mem host ?recs) =
      recs_mem host ?recs @ drop (length ?recs * REC_SZ) ubuf"
    by (simp add: memcpy_at_0 mult.commute)
  ultimately show ?thesis
    using read r' fits
    by (intro exI [of _ ?recs] exI [of _ "d\<lparr>g_ring := r'\<rparr>"]) (auto simp: BATCH_def)
qed

text \<open>
  \<^verbatim>\<open>PL_IOC_RESET\<close> clears the counters and also discards every buffered record:
  a reader that would have been served must block.
\<close>

lemma tlm_reset_discards_records:
  assumes "tring_invar (g_ring d)" and "REC_SZ \<le> len"
  shows "case tlm_ioctl ctu PL_IOC_RESET d of (res, d') \<Rightarrow>
    res = Inr None \<and> produced (g_ring d') = 0 \<and> dropped (g_ring d') = 0 \<and>
    tring_list (g_ring d') = [] \<and> tlm_read host ctu' False [] ubuf len off d' = None"
proof -
  have "tring_list (tring_init (g_ring d)) = []"
    using tring_init_empty [of "g_ring d"] assms(1) by (simp add: tring_invar_def)
  moreover have "len div REC_SZ \<noteq> 0" using assms(2) by (simp add: REC_SZ_def)
  ultimately show ?thesis
    by (simp add: tlm_ioctl_def tlm_read_def read_wait.simps tring_count_0) (simp add: tring_init_def)
qed

section \<open>Witnesses\<close>

definition sample_rec :: "u32 \<Rightarrow> telemetry_record" where
  "sample_rec n = \<lparr>device_id = 0xE5320001, seq = n, temperature = 2654, humidity = 5510, server_timestamp_ns = 7\<rparr>"

definition sample_drv :: drv where
  "sample_drv = \<lparr>g_ring = tring_init \<lparr>buf = replicate 256 (sample_rec 0), head = 0, count = 0,
     produced = 0, dropped = 0\<rparr>, readq_wakeups = 0\<rparr>"

lemma sample_drv_empty: "tring_invar (g_ring sample_drv)" "tring_list (g_ring sample_drv) = []"
  "produced (g_ring sample_drv) = 0" "readq_wakeups sample_drv = 0"
  by (simp_all add: sample_drv_def tring_init_empty) (simp add: tring_init_def)

definition user_mem :: "u8 list \<Rightarrow> nat \<Rightarrow> nat \<Rightarrow> u8 list option" where
  "user_mem ubuf off n = (if off + n \<le> length ubuf then Some (take n (drop off ubuf)) else None)"

lemma user_reads_mem: "user_reads (user_mem ubuf) ubuf"
  by (simp add: user_reads_def user_mem_def)

lemma tlm_write_appends_example:
  "let ubuf = recs_mem LittleEndian [sample_rec 1, sample_rec 2] @ [0xAA]
   in tring_invar (g_ring sample_drv) \<and> user_reads (user_mem ubuf) ubuf \<and> length ubuf = 49 \<and>
      (case tlm_write LittleEndian (user_mem ubuf) 49 0 sample_drv of (res, off', d') \<Rightarrow>
        res = Inr 48 \<and> off' = 48 \<and> tring_list (g_ring d') = [sample_rec 1, sample_rec 2] \<and>
        readq_wakeups d' = 1)"
proof -
  define ubuf where "ubuf = recs_mem LittleEndian [sample_rec 1, sample_rec 2] @ [0xAA]"
  have len: "length ubuf = 49" by (simp add: ubuf_def REC_SZ_def)
  have recs: "recs_ld LittleEndian 2 ubuf = [sample_rec 1, sample_rec 2]"
    using recs_ld_mem [of LittleEndian "[sample_rec 1, sample_rec 2]" "[0xAA]"]
    by (simp add: ubuf_def numeral_2_eq_2)
  show ?thesis
    using tlm_write_appends [OF sample_drv_empty(1) user_reads_mem len, where host = LittleEndian and off = 0] len recs
    by (simp add: sample_drv_empty user_reads_mem REC_SZ_def flip: ubuf_def split: prod.splits)
qed

lemma tlm_read_oldest_first_example:
  "\<exists>d. tring_list (g_ring d) = [sample_rec 1, sample_rec 2] \<and>
     (\<exists>d'. tlm_read LittleEndian (\<lambda>_. True) False [] (replicate 40 0) 40 0 d =
        Some (Inr 24, rec_mem LittleEndian (sample_rec 1) @ replicate 16 0, 24, d') \<and>
        tring_list (g_ring d') = [sample_rec 2])"
proof -
  define d where "d = sample_drv\<lparr>g_ring := fold ring_push [sample_rec 1, sample_rec 2] (g_ring sample_drv)\<rparr>"
  have inv: "tring_invar (g_ring d)" and list: "tring_list (g_ring d) = [sample_rec 1, sample_rec 2]"
    using tr.upto.invar_pushes [OF sample_drv_empty(1), of "[sample_rec 1, sample_rec 2]"]
      tr.upto.contents_pushes [OF sample_drv_empty(1), of "[sample_rec 1, sample_rec 2]"]
    by (simp_all add: d_def sample_drv_empty)
  obtain recs d' where r: "tlm_read LittleEndian (\<lambda>_. True) False [] (replicate 40 0) 40 0 d =
      Some (Inr (length recs * REC_SZ), recs_mem LittleEndian recs @ drop (length recs * REC_SZ) (replicate 40 0),
            0 + length recs * REC_SZ, d')"
    "length recs = min (min (40 div REC_SZ) 32) (length (tring_list (g_ring d)))"
    "tring_list (g_ring d) = recs @ tring_list (g_ring d')"
    using tlm_read_oldest_first [OF inv, of "replicate 40 0" 40 "\<lambda>_. True" LittleEndian False "[]" 0]
    by (auto simp: list REC_SZ_def)
  have "length recs = 1" using r(2) unfolding list by (simp add: REC_SZ_def)
  then obtain x where x: "recs = [x]" by (auto simp: length_Suc_conv)
  with r list show ?thesis
    by (intro exI [of _ d]) (simp add: REC_SZ_def recs_mem_def)
qed

end
