(* ===== verification/Telemetry_Fops.thy ===== *)
theory Telemetry_Fops
  imports Telemetry_Drv
begin

text \<open>
  The operation tables of \<^verbatim>\<open>kmod/telemetry_drv.c\<close>, and the device as its users see it: system calls that
  reach the driver through \<^verbatim>\<open>tlm_fops\<close>, in any sequence, from the loading of the module on. A
  \<^verbatim>\<open>read\<close> that blocks takes effect when it is woken; in a sequence it stands at that point.
\<close>

section \<open>The tables\<close>

text \<open>\<open>rc\<close> is the result of the kernel's \<^verbatim>\<open>nonseekable_open\<close>, \<open>so\<close> that of \<^verbatim>\<open>single_open\<close>, which is given the
  function that prints the status.\<close>

definition tlm_open :: "int \<Rightarrow> int" where
  "tlm_open rc = rc"

record file_operations =
  fop_open :: "int \<Rightarrow> int"
  fop_read :: "endian \<Rightarrow> (u8 list \<Rightarrow> bool) \<Rightarrow> bool \<Rightarrow> wait_event list \<Rightarrow> u8 list \<Rightarrow> nat \<Rightarrow> nat \<Rightarrow> drv \<Rightarrow>
    (sys_result \<times> u8 list \<times> nat \<times> drv) option"
  fop_write :: "endian \<Rightarrow> (nat \<Rightarrow> nat \<Rightarrow> u8 list option) \<Rightarrow> nat \<Rightarrow> nat \<Rightarrow> drv \<Rightarrow> sys_result \<times> nat \<times> drv"
  fop_poll :: "drv \<Rightarrow> bool"
  fop_unlocked_ioctl :: "(pl_stats \<Rightarrow> bool) \<Rightarrow> ioctl_cmd \<Rightarrow> drv \<Rightarrow> (errno + pl_stats option) \<times> drv"
  fop_compat_ioctl :: "(pl_stats \<Rightarrow> bool) \<Rightarrow> ioctl_cmd \<Rightarrow> drv \<Rightarrow> (errno + pl_stats option) \<times> drv"

definition tlm_fops :: file_operations where
  "tlm_fops = \<lparr>fop_open = tlm_open, fop_read = tlm_read, fop_write = tlm_write, fop_poll = tlm_poll,
     fop_unlocked_ioctl = tlm_ioctl, fop_compat_ioctl = tlm_ioctl\<rparr>"

definition tlm_proc_open :: "((drv \<Rightarrow> string) \<Rightarrow> int) \<Rightarrow> int" where
  "tlm_proc_open so = so tlm_proc_show"

text \<open>The functions of the kernel in this table are given by their names.\<close>

record proc_operations =
  prop_open :: "((drv \<Rightarrow> string) \<Rightarrow> int) \<Rightarrow> int"
  prop_read :: string
  prop_lseek :: string
  prop_release :: string

definition tlm_proc_ops :: proc_operations where
  "tlm_proc_ops = \<lparr>prop_open = tlm_proc_open, prop_read = ''seq_read'', prop_lseek = ''seq_lseek'', prop_release = ''single_release''\<rparr>"

record miscdevice =
  md_minor :: nat
  md_name :: string
  md_fops :: file_operations
  md_mode :: nat

text \<open>\<^verbatim>\<open>MISC_DYNAMIC_MINOR\<close> is 255; the mode is octal 0666.\<close>

definition tlm_misc :: miscdevice where
  "tlm_misc = \<lparr>md_minor = 255, md_name = PL_TELEMETRY_DEVNAME, md_fops = tlm_fops, md_mode = 6 * 64 + 6 * 8 + 6\<rparr>"

section \<open>System calls\<close>

datatype sys_call =
    SysOpen int
  | SysRead "u8 list \<Rightarrow> bool" bool "u8 list" nat nat
  | SysWrite "nat \<Rightarrow> nat \<Rightarrow> u8 list option" nat nat
  | SysPoll
  | SysIoctl "pl_stats \<Rightarrow> bool" ioctl_cmd
  | SysCompatIoctl "pl_stats \<Rightarrow> bool" ioctl_cmd

text \<open>The records the caller of a \<^verbatim>\<open>write\<close> hands over, up to the first fault.\<close>

fun handed_over :: "endian \<Rightarrow> (nat \<Rightarrow> nat \<Rightarrow> u8 list option) \<Rightarrow> nat \<Rightarrow> nat \<Rightarrow> telemetry_record list" where
  "handed_over host cfu i 0 = []"
| "handed_over host cfu i (Suc k) =
     (case cfu (i * REC_SZ) REC_SZ of None \<Rightarrow> [] | Some bs \<Rightarrow> rec_ld host bs # handed_over host cfu (i + 1) k)"

text \<open>A call through the device's table: the records handed over, those the caller finds in its buffer, the state.\<close>

definition sys_step :: "endian \<Rightarrow> sys_call \<Rightarrow> drv \<Rightarrow> telemetry_record list \<times> telemetry_record list \<times> drv" where
  "sys_step host call d =
     (let ops = md_fops tlm_misc in
      case call of
        SysOpen rc \<Rightarrow> ([], [], d)
      | SysRead ctu nonblock ubuf len off \<Rightarrow>
          (case fop_read ops host ctu nonblock [] ubuf len off d of
             None \<Rightarrow> ([], [], d)
           | Some (Inl e, ubuf1, off1, d1) \<Rightarrow> ([], [], d1)
           | Some (Inr n, ubuf1, off1, d1) \<Rightarrow> ([], recs_ld host (n div REC_SZ) ubuf1, d1))
      | SysWrite cfu len off \<Rightarrow>
          (case fop_write ops host cfu len off d of (res, off1, d1) \<Rightarrow> (handed_over host cfu 0 (len div REC_SZ), [], d1))
      | SysPoll \<Rightarrow> ([], [], d)
      | SysIoctl ctu cmd \<Rightarrow> ([], [], snd (fop_unlocked_ioctl ops ctu cmd d))
      | SysCompatIoctl ctu cmd \<Rightarrow> ([], [], snd (fop_compat_ioctl ops ctu cmd d)))"

fun sys_run :: "endian \<Rightarrow> sys_call list \<Rightarrow> drv \<Rightarrow> telemetry_record list \<times> telemetry_record list \<times> drv" where
  "sys_run host [] d = ([], [], d)"
| "sys_run host (call # calls) d =
     (case sys_step host call d of (ps, gs, d1) \<Rightarrow>
      case sys_run host calls d1 of (ps2, gs2, d2) \<Rightarrow> (ps @ ps2, gs @ gs2, d2))"

text \<open>Calls that do not reset the ring and give a buffer as long as they say; calls whose buffer can be written.\<close>

definition call_ok :: "sys_call \<Rightarrow> bool" where
  "call_ok call = (case call of
       SysRead ctu nonblock ubuf len off \<Rightarrow> len = length ubuf
     | SysIoctl ctu cmd \<Rightarrow> cmd \<noteq> PL_IOC_RESET
     | SysCompatIoctl ctu cmd \<Rightarrow> cmd \<noteq> PL_IOC_RESET
     | _ \<Rightarrow> True)"

definition call_writable :: "sys_call \<Rightarrow> bool" where
  "call_writable call = (case call of SysRead ctu nonblock ubuf len off \<Rightarrow> (\<forall>bs. ctu bs) | _ \<Rightarrow> True)"

section \<open>Each call is a sequence of ring operations\<close>

lemma ring_run_append:
  "ring_run psh pp (xs @ ys) r = (case ring_run psh pp xs r of (o1, r1) \<Rightarrow> case ring_run psh pp ys r1 of (o2, r2) \<Rightarrow> (o1 @ o2, r2))"
proof (induction xs arbitrary: r)
  case (Cons op xs)
  then show ?case by (cases op) (auto split: option.split prod.split)
qed simp

lemma pushed_append: "pushed (xs @ ys) = pushed xs @ pushed ys"
  by (induction xs rule: pushed.induct) simp_all

lemma run_pushes: "tring_run (map Push xs) r = ([], fold ring_push xs r) \<and> pushed (map Push xs) = xs"
  by (induction xs arbitrary: r) simp_all

lemma run_pops: "pop_batch k r = (xs, r') \<Longrightarrow> tring_run (replicate (length xs) Pop) r = (xs, r')"
proof (induction k arbitrary: r xs)
  case (Suc k)
  then show ?case by (auto split: option.splits prod.splits)
qed simp

lemma pushed_pops: "pushed (replicate n Pop) = []"
  by (induction n) simp_all

lemma write_loop_ring: "g_ring (snd (write_loop host cfu i k d)) = fold ring_push (handed_over host cfu i k) (g_ring d)"
  by (induction k arbitrary: i d) (simp_all split: option.split)

lemma tlm_write_ring:
  "g_ring (snd (snd (tlm_write host cfu len off d))) = fold ring_push (handed_over host cfu 0 (len div REC_SZ)) (g_ring d)"
  using write_loop_ring [of host cfu 0 "len div REC_SZ" d]
  by (auto simp: tlm_write_def Let_def split: prod.split bool.split)

lemma read_wait_alone: "read_wait nonblock [] r = Some (r1, e) \<Longrightarrow> r1 = r"
  by (auto simp: read_wait.simps split: if_split_asm)

lemma tlm_read_ring:
  assumes "tring_invar (g_ring d)" and "len = length ubuf"
    and "tlm_read host ctu nonblock [] ubuf len off d = Some (res, ubuf1, off1, d1)"
  shows "\<exists>n out. tring_run (replicate n Pop) (g_ring d) = (out, g_ring d1) \<and>
    (case res of Inl e \<Rightarrow> (\<forall>bs. ctu bs) \<longrightarrow> out = [] | Inr m \<Rightarrow> recs_ld host (m div REC_SZ) ubuf1 = out)"
proof -
  let ?want = "if len div REC_SZ < BATCH then len div REC_SZ else BATCH"
  obtain batch r1 where pop: "pop_batch ?want (g_ring d) = (batch, r1)" by (cases "pop_batch ?want (g_ring d)")
  note run = run_pops [OF pop]
  have len: "len div REC_SZ = 0 \<Longrightarrow> ?thesis"
    using assms(3) by (intro exI [of _ "0::nat"] exI [of _ "[]"]) (auto simp: tlm_read_def)
  show ?thesis
  proof (cases "read_wait nonblock [] (g_ring d)")
    case None
    then show ?thesis using assms(3) len by (cases "len div REC_SZ = 0") (simp_all add: tlm_read_def)
  next
    case (Some x)
    then obtain e where w: "read_wait nonblock [] (g_ring d) = Some (g_ring d, e)" using read_wait_alone by (cases x) auto
    show ?thesis
    proof (cases "len div REC_SZ = 0 \<or> e \<noteq> None")
      case True
      have "d\<lparr>g_ring := g_ring d\<rparr> = d" by simp
      then have "len div REC_SZ \<noteq> 0 \<Longrightarrow> d1 = d \<and> (\<exists>e. res = Inl e)" using True w assms(3) by (auto simp: tlm_read_def Let_def)
      then show ?thesis using len by (cases "len div REC_SZ = 0") (auto intro!: exI [of _ "0::nat"])
    next
      case False
      then have eq: "tlm_read host ctu nonblock [] ubuf len off d =
          (if \<not> ctu (recs_mem host batch) then Some (Inl EFAULT, ubuf, off, d\<lparr>g_ring := r1\<rparr>)
           else Some (Inr (length batch * REC_SZ), memcpy_at ubuf 0 (recs_mem host batch), off + length batch * REC_SZ, d\<lparr>g_ring := r1\<rparr>))"
        using w pop by (simp add: tlm_read_def Let_def)
      have "length batch \<le> ?want" using conjunct1 [OF pop_batch_spec [OF assms(1) pop]] by simp
      then have "length batch \<le> len div REC_SZ" by (simp split: if_split_asm)
      then have "REC_SZ * length batch \<le> length ubuf" using mult_le_mono2 [of "length batch" "len div REC_SZ" REC_SZ] assms(2)
        by (meson order.trans times_div_less_eq_dividend)
      then have "memcpy_at ubuf 0 (recs_mem host batch) = recs_mem host batch @ drop (REC_SZ * length batch) ubuf" by (simp add: memcpy_at_def)
      moreover have "length batch * REC_SZ div REC_SZ = length batch" by (simp add: REC_SZ_def)
      ultimately have "recs_ld host (length batch * REC_SZ div REC_SZ) (memcpy_at ubuf 0 (recs_mem host batch)) = batch"
        by (simp add: recs_ld_mem)
      then show ?thesis using assms(3) run unfolding eq
        by (intro exI [of _ "length batch"] exI [of _ batch]) (auto split: if_split_asm)
    qed
  qed
qed

lemma sys_step_ops:
  assumes "tring_invar (g_ring d)" and "call_ok call" and "sys_step host call d = (ps, gs, d1)"
  shows "\<exists>ops out. tring_run ops (g_ring d) = (out, g_ring d1) \<and> pushed ops = ps \<and> subseq gs out \<and> (call_writable call \<longrightarrow> gs = out)"
proof -
  have idle: ?thesis if "g_ring d1 = g_ring d" "ps = []" "gs = []" using that by (intro exI [of _ "[]"]) simp
  show ?thesis
  proof (cases call)
    case (SysRead ctu nonblock ubuf len off)
    show ?thesis
    proof (cases "tlm_read host ctu nonblock [] ubuf len off d")
      case None
      then show ?thesis using assms(3) SysRead by (intro idle) (simp_all add: sys_step_def tlm_misc_def tlm_fops_def)
    next
      case (Some x)
      then obtain res ubuf1 off1 d2 where r: "tlm_read host ctu nonblock [] ubuf len off d = Some (res, ubuf1, off1, d2)" by (cases x) auto
      have "len = length ubuf" using assms(2) SysRead by (simp add: call_ok_def)
      from tlm_read_ring [OF assms(1) this r] obtain n out where "tring_run (replicate n Pop) (g_ring d) = (out, g_ring d2)"
        "case res of Inl e \<Rightarrow> (\<forall>bs. ctu bs) \<longrightarrow> out = [] | Inr m \<Rightarrow> recs_ld host (m div REC_SZ) ubuf1 = out" by blast
      then show ?thesis using assms(3) SysRead r
        by (intro exI [of _ "replicate n Pop"] exI [of _ out])
          (auto simp: sys_step_def tlm_misc_def tlm_fops_def call_writable_def pushed_pops split: sum.split_asm)
    qed
  next
    case (SysWrite cfu len off)
    then have "ps = handed_over host cfu 0 (len div REC_SZ)" "gs = []" "d1 = snd (snd (tlm_write host cfu len off d))"
      using assms(3) by (auto simp: sys_step_def tlm_misc_def tlm_fops_def split: prod.splits)
    then show ?thesis using run_pushes [of ps "g_ring d"]
      by (intro exI [of _ "map Push ps"] exI [of _ "[]"]) (simp add: tlm_write_ring)
  qed (rule idle; insert assms; auto simp: sys_step_def tlm_misc_def tlm_fops_def tlm_ioctl_def call_ok_def Let_def
        split: ioctl_cmd.split_asm)+
qed

lemma sys_run_ops:
  "tring_invar (g_ring d) \<Longrightarrow> list_all call_ok calls \<Longrightarrow> sys_run host calls d = (ps, gs, d1) \<Longrightarrow>
   \<exists>ops out. tring_run ops (g_ring d) = (out, g_ring d1) \<and> pushed ops = ps \<and> subseq gs out \<and> (list_all call_writable calls \<longrightarrow> gs = out)"
proof (induction calls arbitrary: d ps gs)
  case Nil
  then show ?case by (intro exI [of _ "[]"]) simp
next
  case (Cons call calls)
  obtain ps1 gs1 d2 where s: "sys_step host call d = (ps1, gs1, d2)" by (cases "sys_step host call d")
  obtain ps2 gs2 d3 where r: "sys_run host calls d2 = (ps2, gs2, d3)" by (cases "sys_run host calls d2")
  have eq: "ps = ps1 @ ps2" "gs = gs1 @ gs2" "d1 = d3" using Cons.prems(3) s r by simp_all
  obtain ops1 out1 where 1: "tring_run ops1 (g_ring d) = (out1, g_ring d2)" "pushed ops1 = ps1" "subseq gs1 out1" "call_writable call \<longrightarrow> gs1 = out1"
    using sys_step_ops [OF Cons.prems(1) _ s] Cons.prems(2) by auto
  have "tring_invar (g_ring d2)" using tr.invar_run [OF Cons.prems(1), of ops1] 1(1) by simp
  from Cons.IH [OF this _ r [folded eq(3)]] Cons.prems(2) obtain ops2 out2 where 2: "tring_run ops2 (g_ring d2) = (out2, g_ring d1)"
    "pushed ops2 = ps2" "subseq gs2 out2" "list_all call_writable calls \<longrightarrow> gs2 = out2" by auto
  from 1 2 show ?case unfolding eq(1,2)
    by (intro exI [of _ "ops1 @ ops2"] exI [of _ "out1 @ out2"]) (auto simp: ring_run_append pushed_append intro: list_emb_append_mono)
qed

text \<open>A \<^verbatim>\<open>read\<close> whose buffer faults has already taken its batch out of the ring: the records are gone, and
  no counter says so.\<close>

lemma tlm_read_fault_loses:
  assumes "tring_invar (g_ring d)" and "tring_list (g_ring d) \<noteq> []" and "REC_SZ \<le> len" and "\<forall>bs. \<not> ctu bs"
  shows "\<exists>d1. tlm_read host ctu nonblock ws ubuf len off d = Some (Inl EFAULT, ubuf, off, d1) \<and>
    tring_list (g_ring d1) = drop (min (len div REC_SZ) BATCH) (tring_list (g_ring d)) \<and> dropped (g_ring d1) = dropped (g_ring d)"
proof -
  let ?want = "min (len div REC_SZ) BATCH"
  obtain xs r' where pop: "pop_batch ?want (g_ring d) = (xs, r')" by (cases "pop_batch ?want (g_ring d)")
  have want: "(if len div REC_SZ < BATCH then len div REC_SZ else BATCH) = ?want" by simp
  have "len div REC_SZ \<noteq> 0" using assms(3) by (simp add: REC_SZ_def)
  with pop_batch_spec [OF assms(1) pop] pop assms(4) show ?thesis
    unfolding tlm_read_def want by (auto simp: read_wait_ready [OF assms(2)] Let_def)
qed

section \<open>Properties\<close>



end
