(* ===== verification/Telemetry_Wait.thy ===== *)
theory Telemetry_Wait
  imports Telemetry_Drv
begin

text \<open>
  The blocking protocol of \<^verbatim>\<open>kmod/telemetry_drv.c\<close> as a step relation: any number of readers
  and writers, one step per critical section of \<^verbatim>\<open>g_lock\<close> or per action on the wait queue
  \<^verbatim>\<open>g_readq\<close>. \<^verbatim>\<open>wait_event_interruptible\<close> is the kernel's: it tests its condition after
  queueing the caller, sleeps only when the test fails, tests again after each wake-up and
  gives up on a signal.
\<close>

section \<open>The step relation\<close>

datatype reader_pc = RIdle | RCheck | RWait | RAsleep

text \<open>\<open>WCopy n p\<close>: \<open>n\<close> records to go, \<open>p\<close> when at least one is already in the ring.\<close>

datatype writer_pc = WIdle | WCopy nat bool

record tlm_sys =
  sys_ring :: tring
  readers :: "nat \<Rightarrow> reader_pc"
  writers :: "nat \<Rightarrow> writer_pc"
  faulted :: bool

definition wake_readers :: "(nat \<Rightarrow> reader_pc) \<Rightarrow> nat \<Rightarrow> reader_pc" where
  "wake_readers rs i = (if rs i = RAsleep then RWait else rs i)"

inductive tlm_step :: "tlm_sys \<Rightarrow> tlm_sys \<Rightarrow> bool" where
  read_enter: "readers s i = RIdle \<Longrightarrow> tlm_step s (s\<lparr>readers := (readers s)(i := RCheck)\<rparr>)"
| read_pop: "readers s i = RCheck \<Longrightarrow> tring_count (sys_ring s) \<noteq> 0 \<Longrightarrow> 0 < want \<Longrightarrow> want \<le> BATCH \<Longrightarrow>
    tlm_step s (s\<lparr>sys_ring := snd (pop_batch want (sys_ring s)), readers := (readers s)(i := RIdle)\<rparr>)"
| read_again: "readers s i = RCheck \<Longrightarrow> tring_count (sys_ring s) = 0 \<Longrightarrow>
    tlm_step s (s\<lparr>readers := (readers s)(i := RIdle)\<rparr>)"
| read_unlock: "readers s i = RCheck \<Longrightarrow> tring_count (sys_ring s) = 0 \<Longrightarrow>
    tlm_step s (s\<lparr>readers := (readers s)(i := RWait)\<rparr>)"
| wait_ready: "readers s i = RWait \<Longrightarrow> tring_count (sys_ring s) > 0 \<Longrightarrow>
    tlm_step s (s\<lparr>readers := (readers s)(i := RCheck)\<rparr>)"
| wait_sleep: "readers s i = RWait \<Longrightarrow> \<not> tring_count (sys_ring s) > 0 \<Longrightarrow>
    tlm_step s (s\<lparr>readers := (readers s)(i := RAsleep)\<rparr>)"
| wait_signal: "readers s i \<in> {RWait, RAsleep} \<Longrightarrow>
    tlm_step s (s\<lparr>readers := (readers s)(i := RIdle)\<rparr>)"
| write_enter: "writers s j = WIdle \<Longrightarrow> nrec \<noteq> 0 \<Longrightarrow>
    tlm_step s (s\<lparr>writers := (writers s)(j := WCopy nrec False)\<rparr>)"
| write_push: "writers s j = WCopy (Suc n) p \<Longrightarrow>
    tlm_step s (s\<lparr>sys_ring := snd (tring_push (sys_ring s) x), writers := (writers s)(j := WCopy n True)\<rparr>)"
| write_fault: "writers s j = WCopy (Suc n) p \<Longrightarrow>
    tlm_step s (s\<lparr>writers := (writers s)(j := WIdle), faulted := (faulted s \<or> p)\<rparr>)"
| write_wake: "writers s j = WCopy 0 p \<Longrightarrow>
    tlm_step s (s\<lparr>writers := (writers s)(j := WIdle), readers := wake_readers (readers s)\<rparr>)"
| ioctl_reset: "tlm_step s (s\<lparr>sys_ring := tring_init (sys_ring s)\<rparr>)"

definition tlm_sys_init :: "tring \<Rightarrow> tlm_sys" where
  "tlm_sys_init r = \<lparr>sys_ring = tring_init r, readers = (\<lambda>_. RIdle), writers = (\<lambda>_. WIdle), faulted = False\<rparr>"

abbreviation tlm_reach :: "tring \<Rightarrow> tlm_sys \<Rightarrow> bool" where
  "tlm_reach r s \<equiv> tlm_step\<^sup>*\<^sup>* (tlm_sys_init r) s"

section \<open>No wake-up is lost\<close>

definition wake_pending :: "tlm_sys \<Rightarrow> bool" where
  "wake_pending s \<longleftrightarrow> (\<exists>j n. writers s j = WCopy n True)"

definition wake_inv :: "tlm_sys \<Rightarrow> bool" where
  "wake_inv s \<longleftrightarrow> tring_invar (sys_ring s) \<and>
     (faulted s \<or> wake_pending s \<or> tring_list (sys_ring s) = [] \<or> (\<forall>i. readers s i \<noteq> RAsleep))"

lemma tring_init_list: "tring_invar r \<Longrightarrow> tring_list (tring_init r) = []"
  using tring_init_empty [of r] by (simp add: tring_invar_def)

lemma tring_init_invar: "tring_invar r \<Longrightarrow> tring_invar (tring_init r)"
  using tring_init_empty [of r] by (simp add: tring_invar_def)

lemma wake_inv_step: "tlm_step s s' \<Longrightarrow> wake_inv s \<Longrightarrow> wake_inv s'"
proof (induction rule: tlm_step.induct)
  case (read_pop s i want)
  obtain xs r' where pop: "pop_batch want (sys_ring s) = (xs, r')" by fastforce
  have "tring_invar r'" and "tring_list (sys_ring s) = [] \<Longrightarrow> tring_list r' = []"
    using pop_batch_spec [OF _ pop] read_pop.prems by (auto simp: wake_inv_def)
  with read_pop.prems pop show ?case by (auto simp: wake_inv_def wake_pending_def)
next
  case (write_push s j n p x)
  then show ?case by (auto simp: wake_inv_def wake_pending_def tring_invar_push)
next
  case (write_fault s j n p)
  then show ?case
    by (auto simp: wake_inv_def wake_pending_def) (metis writer_pc.inject)+
next
  case (write_wake s j p)
  then show ?case by (simp add: wake_inv_def wake_readers_def)
next
  case (write_enter s j nrec)
  then show ?case by (auto simp: wake_inv_def wake_pending_def) (metis writer_pc.distinct(1))+
next
  case (ioctl_reset s)
  then show ?case by (simp add: wake_inv_def tring_init_list tring_init_invar)
qed (auto simp: wake_inv_def wake_pending_def tring_count_0 word_gt_0)

lemma wake_inv_reach: "tlm_reach r s \<Longrightarrow> length (buf r) = 256 \<Longrightarrow> wake_inv s"
proof (induction rule: rtranclp_induct)
  case base
  then show ?case using tring_init_empty by (simp add: wake_inv_def tlm_sys_init_def)
next
  case (step s s')
  then show ?case using wake_inv_step by blast
qed

text \<open>A writer that finishes its loop wakes every sleeping reader.\<close>

lemma writer_runs_to_wake:
  "writers s j = WCopy n p \<Longrightarrow>
   \<exists>s'. tlm_step\<^sup>*\<^sup>* s s' \<and> readers s' = wake_readers (readers s) \<and> faulted s' = faulted s"
proof (induction n arbitrary: s p)
  case 0
  from tlm_step.write_wake [OF 0] show ?case by (intro exI conjI, rule r_into_rtranclp) simp_all
next
  case (Suc n)
  let ?s = "s\<lparr>sys_ring := snd (tring_push (sys_ring s) undefined), writers := (writers s)(j := WCopy n True)\<rparr>"
  have step: "tlm_step s ?s" by (rule tlm_step.write_push [OF Suc.prems])
  obtain s' where "tlm_step\<^sup>*\<^sup>* ?s s'" "readers s' = wake_readers (readers ?s)" "faulted s' = faulted ?s"
    using Suc.IH [of ?s True] by auto
  with step show ?case by (auto intro: converse_rtranclp_into_rtranclp)
qed

section \<open>Properties\<close>

text \<open>
  C21. No wake-up is lost while no copy faults: in every reachable state with a sleeping reader
  and a record in the ring, some writer is still between its first push and its
  \<^verbatim>\<open>wake_up_interruptible\<close>, and letting that writer finish wakes the reader.
\<close>

theorem tlm_no_lost_wakeup:
  assumes "length (buf r) = 256" and "tlm_reach r s" and "\<not> faulted s"
    and "readers s i = RAsleep" and "tring_list (sys_ring s) \<noteq> []"
  shows "wake_pending s \<and> (\<exists>s'. tlm_step\<^sup>*\<^sup>* s s' \<and> readers s' i = RWait \<and> \<not> faulted s')"
proof -
  have pending: "wake_pending s"
    using wake_inv_reach [OF assms(2,1)] assms(3-5) by (auto simp: wake_inv_def)
  then obtain j n where "writers s j = WCopy n True" by (auto simp: wake_pending_def)
  from writer_runs_to_wake [OF this] obtain s' where
    "tlm_step\<^sup>*\<^sup>* s s'" "readers s' = wake_readers (readers s)" "faulted s' = faulted s" by auto
  with pending assms(3,4) show ?thesis by (auto simp: wake_readers_def)
qed

lemma asleep_run:
  "\<exists>s. tlm_reach r s \<and> s = (tlm_sys_init r)\<lparr>readers := (\<lambda>_. RIdle)(0 := RAsleep)\<rparr>"
proof -
  let ?s = "\<lambda>pc. (tlm_sys_init r)\<lparr>readers := (\<lambda>_. RIdle)(0 := pc)\<rparr>"
  have c: "tring_count (tring_init r) = 0" by (simp add: tring_init_def tring_count_def)
  have "tlm_step (tlm_sys_init r) (?s RCheck)"
    using tlm_step.read_enter [of "tlm_sys_init r" 0] by (simp add: tlm_sys_init_def)
  moreover have "tlm_step (?s RCheck) (?s RWait)"
    using tlm_step.read_unlock [of "?s RCheck" 0] by (simp add: tlm_sys_init_def c)
  moreover have "tlm_step (?s RWait) (?s RAsleep)"
    using tlm_step.wait_sleep [of "?s RWait" 0] by (simp add: tlm_sys_init_def c)
  ultimately show ?thesis by (meson rtranclp.rtrancl_into_rtrancl rtranclp.rtrancl_refl)
qed

text \<open>A writer of two records, after its first push.\<close>

lemma asleep_push_run:
  assumes "s = (tlm_sys_init r)\<lparr>readers := (\<lambda>_. RIdle)(0 := RAsleep)\<rparr>"
  shows "tlm_step\<^sup>*\<^sup>* s (s\<lparr>sys_ring := snd (tring_push (tring_init r) x),
    writers := (\<lambda>_. WIdle)(0 := WCopy 1 True)\<rparr>)"
proof -
  let ?s = "s\<lparr>writers := (\<lambda>_. WIdle)(0 := WCopy 2 False)\<rparr>"
  have "tlm_step s ?s"
    using tlm_step.write_enter [of s 0 2] by (simp add: assms tlm_sys_init_def)
  moreover have "tlm_step ?s (s\<lparr>sys_ring := snd (tring_push (tring_init r) x),
      writers := (\<lambda>_. WIdle)(0 := WCopy 1 True)\<rparr>)"
    using tlm_step.write_push [of ?s 0 1 False x] by (simp add: assms tlm_sys_init_def)
  ultimately show ?thesis by (meson rtranclp.rtrancl_into_rtrancl rtranclp.rtrancl_refl)
qed

lemma sample_push_list:
  "tring_list (snd (tring_push (tring_init (g_ring sample_drv)) x)) = [x]"
  using tr.contents_push [OF tring_init_invar [OF sample_drv_empty(1)], of x]
  by (simp add: tring_init_list [OF sample_drv_empty(1)])

theorem tlm_no_lost_wakeup_witness:
  "\<exists>s. tlm_reach (g_ring sample_drv) s \<and> \<not> faulted s \<and> readers s 0 = RAsleep \<and>
     tring_list (sys_ring s) = [sample_rec 1] \<and> wake_pending s \<and>
     (\<exists>s'. tlm_step\<^sup>*\<^sup>* s s' \<and> readers s' 0 = RWait)"
proof -
  let ?r = "g_ring sample_drv"
  let ?a = "(tlm_sys_init ?r)\<lparr>readers := (\<lambda>_. RIdle)(0 := RAsleep)\<rparr>"
  let ?s = "?a\<lparr>sys_ring := snd (tring_push (tring_init ?r) (sample_rec 1)),
    writers := (\<lambda>_. WIdle)(0 := WCopy 1 True)\<rparr>"
  have reach: "tlm_reach ?r ?s"
    using asleep_run [of ?r] asleep_push_run [OF refl, of ?r "sample_rec 1"] by (auto intro: rtranclp_trans)
  have "length (buf ?r) = 256" using sample_drv_empty(1) by (simp add: tring_invar_def)
  from tlm_no_lost_wakeup [OF this reach, of 0] reach show ?thesis
    by (intro exI [of _ ?s]) (auto simp: sample_push_list tlm_sys_init_def)
qed

text \<open>
  C40. A copy fault after the first record does lose the wake-up: a state is reachable in which
  a record is in the ring, a reader sleeps, and no writer is left to wake it.
\<close>

theorem tlm_fault_loses_wakeup:
  "\<exists>s. tlm_reach (g_ring sample_drv) s \<and> readers s 0 = RAsleep \<and>
     tring_list (sys_ring s) \<noteq> [] \<and> (\<forall>j. writers s j = WIdle)"
proof -
  let ?r = "g_ring sample_drv"
  let ?a = "(tlm_sys_init ?r)\<lparr>readers := (\<lambda>_. RIdle)(0 := RAsleep)\<rparr>"
  let ?s = "?a\<lparr>sys_ring := snd (tring_push (tring_init ?r) (sample_rec 1)),
    writers := (\<lambda>_. WIdle)(0 := WCopy 1 True)\<rparr>"
  let ?t = "?s\<lparr>writers := (writers ?s)(0 := WIdle), faulted := (faulted ?s \<or> True)\<rparr>"
  have "tlm_step ?s ?t" by (rule tlm_step.write_fault [where n = 0]) simp
  moreover have "tlm_reach ?r ?s"
    using asleep_run [of ?r] asleep_push_run [OF refl, of ?r "sample_rec 1"] by (auto intro: rtranclp_trans)
  ultimately have "tlm_reach ?r ?t" by (rule rtranclp.rtrancl_into_rtrancl [rotated])
  then show ?thesis by (intro exI [of _ ?t]) (simp add: sample_push_list tlm_sys_init_def)
qed

end
