(* ===== verification/Telemetry_Tools.thy ===== *)
theory Telemetry_Tools
  imports Telemetry_Drv
begin

text \<open>
  The two userspace tools of the kernel device: \<^verbatim>\<open>kmod/telemetry_cat.c\<close>, which prints the records
  it reads, and \<^verbatim>\<open>kmod/telemetry_stat.c\<close>, which queries or resets the counters. Running
  \<^verbatim>\<open>telemetry_cat\<close> against the driver prints every buffered record once and in order.
\<close>

section \<open>\<^verbatim>\<open>telemetry_cat\<close>\<close>

definition cat_line :: "telemetry_record \<Rightarrow> string" where
  "cat_line r =
     ''dev=0x'' @ fmt_08X (device_id r) @ '' seq='' @ pad_right 6 (fmt_u (unat (seq r))) @ ''  '' @
     fmt_centi 4 (sint (temperature r)) @ '' C  '' @ fmt_centi 4 (sint (humidity r)) @
     '' %  ts='' @ fmt_u (unat (server_timestamp_ns r)) @ newline"

text \<open>
  The read loop over what the successive \<^verbatim>\<open>read(fd, recs, sizeof recs)\<close> calls return: each
  result with the contents of \<^verbatim>\<open>recs\<close>. \<open>None\<close> for a program that is still reading.
\<close>

fun cat_loop :: "endian \<Rightarrow> (sys_result \<times> u8 list) list \<Rightarrow> string list \<times> int option" where
  "cat_loop host [] = ([], None)"
| "cat_loop host ((Inl e, recs) # rs) = ([], Some 0)"
| "cat_loop host ((Inr n, recs) # rs) =
     (if n = 0 then cat_loop host rs
      else let cnt = n div REC_SZ;
               (out, code) = cat_loop host rs
           in (map cat_line (recs_ld host cnt recs) @ out, code))"

definition telemetry_cat_main ::
  "endian \<Rightarrow> string list \<Rightarrow> (string \<Rightarrow> (sys_result \<times> u8 list) list option) \<Rightarrow> string list \<times> int option" where
  "telemetry_cat_main host argv dev_open =
     (let dev = (if length argv > 1 then argv ! 1 else ''/dev/'' @ PL_TELEMETRY_DEVNAME)
      in case dev_open dev of
           None \<Rightarrow> ([], Some 1)
         | Some reads \<Rightarrow> cat_loop host reads)"

section \<open>\<^verbatim>\<open>telemetry_stat\<close>\<close>

definition stat_line :: "pl_stats \<Rightarrow> string" where
  "stat_line s = ''produced='' @ fmt_u (unat (st_produced s)) @ '' dropped='' @ fmt_u (unat (st_dropped s)) @
     '' in_ring='' @ fmt_u (unat (st_in_ring s)) @ ''/'' @ fmt_u (unat (st_capacity s)) @ newline"

text \<open>
  Exit status, output and driver state; \<open>dev_open\<close> says whether the device opens, \<open>ctu\<close>
  whether the kernel can copy the answer out.
\<close>

definition telemetry_stat_main ::
  "string list \<Rightarrow> (string \<Rightarrow> bool) \<Rightarrow> (pl_stats \<Rightarrow> bool) \<Rightarrow> drv \<Rightarrow> int \<times> string \<times> drv" where
  "telemetry_stat_main argv dev_open ctu d =
     (let do_reset = (length argv > 1 \<and> argv ! 1 = ''--reset'') in
      if \<not> dev_open (''/dev/'' @ PL_TELEMETRY_DEVNAME) then (1, [], d)
      else if do_reset then
        (case tlm_ioctl ctu PL_IOC_RESET d of
           (Inl e, d1) \<Rightarrow> (1, [], d1)
         | (Inr _, d1) \<Rightarrow> (0, ''ring counters reset'' @ newline, d1))
      else (case tlm_ioctl ctu PL_IOC_GET_STATS d of
              (Inr (Some s), d1) \<Rightarrow> (0, stat_line s, d1)
            | (_, d1) \<Rightarrow> (1, [], d1)))"

section \<open>The reader against the driver\<close>

text \<open>The results of \<open>k\<close> blocking reads into a 32-record array, up to the one that blocks.\<close>

fun cat_reads :: "endian \<Rightarrow> nat \<Rightarrow> u8 list \<Rightarrow> nat \<Rightarrow> drv \<Rightarrow> (sys_result \<times> u8 list) list" where
  "cat_reads host 0 recs off d = []"
| "cat_reads host (Suc k) recs off d =
     (case tlm_read host (\<lambda>_. True) False [] recs (length recs) off d of
        None \<Rightarrow> []
      | Some (res, recs', off', d') \<Rightarrow> (res, recs') # cat_reads host k recs' off' d')"

lemma recs_ld_mem_len: "length rs = n \<Longrightarrow> recs_ld host n (recs_mem host rs @ rest) = rs"
  using recs_ld_mem by blast

lemma cat_reads_empty:
  "tring_list (g_ring d) = [] \<Longrightarrow> length recs = BATCH * REC_SZ \<Longrightarrow> cat_reads host (Suc k) recs off d = []"
  by (simp add: tlm_read_def read_wait.simps tring_count_0 REC_SZ_def BATCH_def Let_def)

lemma cat_reads_print:
  assumes "tring_invar (g_ring d)" and "length recs = BATCH * REC_SZ"
    and "length (tring_list (g_ring d)) \<le> BATCH * k"
  shows "cat_loop host (cat_reads host (Suc k) recs off d) = (map cat_line (tring_list (g_ring d)), None)"
  using assms
  supply length_tring_list [simp del] cat_reads.simps [simp del]
proof (induction k arbitrary: d recs off)
  case 0
  then show ?case by (simp add: cat_reads_empty)
next
  case (Suc k)
  show ?case
  proof (cases "tring_list (g_ring d) = []")
    case True
    with Suc.prems show ?thesis by (simp add: cat_reads_empty)
  next
    case False
    let ?l = "tring_list (g_ring d)"
    let ?b = "take BATCH ?l"
    have len: "length recs div REC_SZ = BATCH" "REC_SZ \<le> length recs"
      using Suc.prems(2) by (simp_all add: REC_SZ_def BATCH_def)
    obtain r' where read: "tlm_read host (\<lambda>_. True) False [] recs (length recs) off d =
        Some (Inr (length ?b * REC_SZ), memcpy_at recs 0 (recs_mem host ?b),
              off + length ?b * REC_SZ, d\<lparr>g_ring := r'\<rparr>)"
      and r': "tring_invar r'" "tring_list r' = drop BATCH ?l"
      using tlm_read_ready [OF Suc.prems(1) False len(2), of "\<lambda>_. True" host False "[]" recs off]
      unfolding len(1) Let_def by auto
    have copy: "memcpy_at recs 0 (recs_mem host ?b) = recs_mem host ?b @ drop (length ?b * REC_SZ) recs"
      by (simp add: memcpy_at_0 mult.commute)
    have "length ?b * REC_SZ \<le> length recs" using Suc.prems(2) by (simp add: mult_le_mono1)
    then have len': "length (memcpy_at recs 0 (recs_mem host ?b)) = BATCH * REC_SZ"
      unfolding copy using Suc.prems(2) by (simp add: mult.commute)
    have "length (tring_list r') \<le> BATCH * k"
      using Suc.prems(3) by (simp add: r'(2))
    from Suc.IH [of "d\<lparr>g_ring := r'\<rparr>" _ "off + length ?b * REC_SZ", OF _ len'] r'(1) this
    have "cat_loop host (cat_reads host (Suc k) (memcpy_at recs 0 (recs_mem host ?b))
        (off + length ?b * REC_SZ) (d\<lparr>g_ring := r'\<rparr>)) = (map cat_line (drop BATCH ?l), None)"
      by (simp add: r'(2))
    moreover have "recs_ld host (length ?b) (memcpy_at recs 0 (recs_mem host ?b)) = ?b"
      unfolding copy by (rule recs_ld_mem_len) simp
    moreover have "length ?b * REC_SZ \<noteq> 0" using False by (simp add: REC_SZ_def BATCH_def)
    moreover have "length ?b * REC_SZ div REC_SZ = length ?b" by (simp add: REC_SZ_def)
    ultimately show ?thesis
      by (subst cat_reads.simps(2)) (simp add: read Let_def del: length_take flip: map_append)
  qed
qed

section \<open>Properties\<close>

text \<open>
  \<^verbatim>\<open>telemetry_cat\<close> against the driver: after at most nine reads of its 32-record array, with no
  writer active, it has printed one line for each record that was in the ring, oldest first, and
  the next read blocks.
\<close>

lemma telemetry_cat_prints_ring:
  assumes "tring_invar (g_ring d)" and "length recs = BATCH * REC_SZ" and "8 \<le> k"
    and "dev_open (''/dev/'' @ PL_TELEMETRY_DEVNAME) = Some (cat_reads host (Suc k) recs off d)"
  shows "telemetry_cat_main host [''telemetry_cat''] dev_open = (map cat_line (tring_list (g_ring d)), None)"
proof -
  have "length (tring_list (g_ring d)) \<le> BATCH * k"
    using tr.length_contents [OF assms(1)] assms(3) unfolding BATCH_def by linarith
  from cat_reads_print [OF assms(1,2) this] assms(4) show ?thesis
    by (simp add: telemetry_cat_main_def del: cat_reads.simps)
qed

text \<open>
  What a printed reading says: two readings print the same text exactly when they are equal
  or are opposite and below one unit. The sign of a reading between \<open>-99\<close> and \<open>-1\<close>
  hundredths (a temperature just below zero) is lost.
\<close>

lemma fmt_centi_eq_iff:
  "fmt_centi w t = fmt_centi w t' \<longleftrightarrow> t = t' \<or> (t = - t' \<and> \<bar>t\<bar> < 100)"
  by (simp add: fmt_centi_eq_parts centi_parts_eq)

end
