(* ===== verification/Sink.thy ===== *)
theory Sink
  imports Records Ring_Spec Printf
begin

text \<open>
  \<^verbatim>\<open>server/sink.h\<close>, the v-table behind which the workers write their records, and its default
  implementation \<^verbatim>\<open>server/ring_log.c\<close>. The contract of a sink is the locale \<open>record_sink\<close>: every
  write succeeds and the sink holds the newest records in order.
\<close>

section \<open>The v-table and its contract\<close>

record 's sink =
  sink_name :: string
  sink_open :: "'s \<Rightarrow> int \<times> 's"
  write_record :: "sensor_record \<Rightarrow> 's \<Rightarrow> int \<times> 's"
  sink_dump :: "('s \<Rightarrow> string) option"
  sink_close :: "'s \<Rightarrow> 's"

text \<open>The state after a sequence of writes, as the workers make them.\<close>

definition sink_writes :: "'s sink \<Rightarrow> sensor_record list \<Rightarrow> 's \<Rightarrow> 's" where
  "sink_writes sk xs s = fold (\<lambda>x s. snd (write_record sk x s)) xs s"

locale record_sink = drop_oldest_upto "\<lambda>x s. snd (write_record sk x s)" contents invar cap
  for sk :: "'s sink" and contents invar cap +
  assumes write_ok: "invar (Suc n) s \<Longrightarrow> fst (write_record sk x s) = 0"
begin

lemma writes_contents:
  "invar (length xs) s \<Longrightarrow> contents (sink_writes sk xs s) = last_n cap (contents s @ xs)"
  unfolding sink_writes_def by (rule contents_pushes)

lemma writes_all_ok:
  "invar (length (xs @ y # ys)) s \<Longrightarrow> fst (write_record sk y (sink_writes sk xs s)) = 0"
  using write_ok [OF invar_pushes [of xs "Suc (length ys)" s]] by (simp add: sink_writes_def)

end

section \<open>The in-memory ring log\<close>

definition RING_SLOTS :: nat where
  "RING_SLOTS = 1024"

record ring_log =
  rl_ring :: "sensor_record list"
  rl_head :: u64
  rl_written :: u64
  rl_overwritten :: u64

definition zero_record :: sensor_record where
  "zero_record = \<lparr>device_id = 0, seq = 0, temperature = 0, humidity = 0, server_timestamp_ns = 0\<rparr>"

definition rl_open :: "ring_log \<Rightarrow> int \<times> ring_log" where
  "rl_open g = (0, g\<lparr>rl_head := 0, rl_ring := replicate RING_SLOTS zero_record,
     rl_written := 0, rl_overwritten := 0\<rparr>)"

definition rl_write :: "sensor_record \<Rightarrow> ring_log \<Rightarrow> int \<times> ring_log" where
  "rl_write rec g =
     (let g1 = g\<lparr>rl_ring := (rl_ring g)[unat (rl_head g mod of_nat RING_SLOTS) := rec],
                 rl_head := rl_head g + 1\<rparr>;
          w = rl_written g1 + 1;
          g2 = g1\<lparr>rl_written := w\<rparr>
      in (0, if w > of_nat RING_SLOTS then g2\<lparr>rl_overwritten := rl_overwritten g2 + 1\<rparr> else g2))"

definition rl_line :: "sensor_record \<Rightarrow> string" where
  "rl_line r = ''  dev=0x'' @ fmt_08X (device_id r) @ '' seq='' @ fmt_u (unat (seq r)) @
     '' temp='' @ fmt_d (sint (temperature r)) @ '' humid='' @ fmt_d (sint (humidity r)) @
     '' ts='' @ fmt_u (unat (server_timestamp_ns r)) @ newline"

definition rl_dump :: "ring_log \<Rightarrow> string" where
  "rl_dump g =
     (let written = rl_written g;
          lost = rl_overwritten g;
          fill = (if rl_head g < of_nat RING_SLOTS then unat (rl_head g) else RING_SLOTS);
          show = (if fill < 5 then fill else 5)
      in ''==== ring_log: written='' @ fmt_u (unat written) @ ''  overwritten='' @ fmt_u (unat lost) @
         ''  fill='' @ fmt_u fill @ ''/'' @ fmt_d (int RING_SLOTS) @ '' ===='' @ newline @
         concat (map (\<lambda>i. rl_line (rl_ring g ! unat ((rl_head g - 1 - of_nat i) mod of_nat RING_SLOTS))) [0..<show]))"

definition rl_close :: "ring_log \<Rightarrow> ring_log" where
  "rl_close g = g"

definition sink_ring_log :: "ring_log sink" where
  "sink_ring_log = \<lparr>sink_name = ''mem(ring_log)'', sink_open = rl_open, write_record = rl_write,
     sink_dump = Some rl_dump, sink_close = rl_close\<rparr>"

section \<open>The ring log is a sink\<close>

definition rl_fill :: "ring_log \<Rightarrow> nat" where
  "rl_fill g = min (unat (rl_head g)) 1024"

definition rl_contents :: "ring_log \<Rightarrow> sensor_record list" where
  "rl_contents g = map (\<lambda>k. rl_ring g ! ((unat (rl_head g) - rl_fill g + k) mod 1024)) [0..<rl_fill g]"

definition rl_invar :: "nat \<Rightarrow> ring_log \<Rightarrow> bool" where
  "rl_invar n g \<longleftrightarrow> length (rl_ring g) = 1024 \<and> unat (rl_head g) + n < 2 ^ 64 \<and>
     rl_written g = rl_head g \<and> rl_overwritten g = of_nat (unat (rl_head g) - 1024)"

lemma unat_mod_slots: "unat (h mod of_nat RING_SLOTS :: u64) = unat h mod 1024"
  by (simp add: RING_SLOTS_def unat_mod_distrib)

lemma unat_head_inc: "rl_invar (Suc n) g \<Longrightarrow> unat (rl_head g + 1) = unat (rl_head g) + 1"
  by (simp add: rl_invar_def unat_plus_simple word_le_nat_alt unat_word_ariths)

lemma length_rl_contents [simp]: "length (rl_contents g) = rl_fill g"
  by (simp add: rl_contents_def)

lemma rl_contents_write:
  assumes "rl_invar (Suc n) g"
  shows "rl_contents (snd (rl_write rec g)) =
    (if length (rl_contents g) = 1024 then tl (rl_contents g) else rl_contents g) @ [rec]"
proof -
  let ?h = "unat (rl_head g)" and ?g = "snd (rl_write rec g)"
  have ring: "rl_ring ?g = (rl_ring g)[?h mod 1024 := rec]" and head: "unat (rl_head ?g) = ?h + 1"
    using unat_head_inc [OF assms] by (simp_all add: rl_write_def Let_def unat_mod_slots)
  have len: "length (rl_ring g) = 1024" using assms by (simp add: rl_invar_def)
  have other: "(?h - d) mod 1024 \<noteq> ?h mod 1024" if "0 < d" "d < 1024" "d \<le> ?h" for d
  proof
    assume "(?h - d) mod 1024 = ?h mod 1024"
    then have "1024 dvd ?h - (?h - d)" by (metis diff_le_self mod_eq_dvd_iff_nat)
    with that show False by (simp add: nat_dvd_not_less)
  qed
  show ?thesis
  proof (cases "?h < 1024")
    case True
    then have "rl_fill g = ?h" "rl_fill ?g = ?h + 1" by (simp_all add: rl_fill_def head)
    with True show ?thesis
      by (auto simp: rl_contents_def ring head nth_list_update len intro!: nth_equalityI)
  next
    case False
    then have f: "rl_fill g = 1024" "rl_fill ?g = 1024" by (simp_all add: rl_fill_def head)
    show ?thesis
    proof (rule nth_equalityI)
      fix k assume "k < length (rl_contents ?g)"
      then have k: "k < 1024" by (simp add: f)
      show "rl_contents ?g ! k = ((if length (rl_contents g) = 1024 then tl (rl_contents g) else rl_contents g) @ [rec]) ! k"
      proof (cases "k = 1023")
        case True
        with False show ?thesis by (simp add: rl_contents_def f ring head nth_append len)
      next
        case k': False
        with k have d: "0 < 1023 - k" "1023 - k < 1024" "1023 - k \<le> ?h" using False by simp_all
        have "?h + 1 - 1024 + k = ?h - (1023 - k)" using False k by simp
        with other [OF d] k k' False show ?thesis
          by (simp add: rl_contents_def f ring head nth_append nth_tl len)
      qed
    qed (simp add: f)
  qed
qed

lemma rl_invar_write:
  assumes "rl_invar (Suc n) g"
  shows "rl_invar n (snd (rl_write rec g))"
proof -
  let ?h = "unat (rl_head g)"
  have inc: "unat (rl_head g + 1) = ?h + 1" by (rule unat_head_inc [OF assms])
  have "rl_head g + 1 > of_nat RING_SLOTS \<longleftrightarrow> 1024 < ?h + 1"
    by (simp add: word_less_nat_alt inc RING_SLOTS_def)
  moreover have "of_nat (?h - 1024) + (1 :: u64) = of_nat (Suc ?h - 1024)" if "1024 \<le> ?h"
    using that by (simp add: Suc_diff_le)
  ultimately show ?thesis
    using assms inc by (auto simp: rl_invar_def rl_write_def Let_def Suc_diff_le)
qed

interpretation rl: record_sink sink_ring_log rl_contents rl_invar 1024
proof (unfold_locales, goal_cases)
  case (2 n r) show ?case by (simp add: rl_fill_def)
next
  case (3 n r x) then show ?case by (simp add: sink_ring_log_def rl_invar_write)
next
  case (4 n r x) then show ?case by (simp add: sink_ring_log_def rl_contents_write)
next
  case (5 n s x) show ?case by (simp add: sink_ring_log_def rl_write_def Let_def)
qed simp

lemma rl_open_invar: "n < 2 ^ 64 \<Longrightarrow> rl_invar n (snd (rl_open g)) \<and> rl_contents (snd (rl_open g)) = []"
  by (simp add: rl_open_def rl_invar_def rl_contents_def rl_fill_def RING_SLOTS_def)

text \<open>The records the statistics dump lists are the newest, newest first.\<close>

lemma rl_fill_code: "(if rl_head g < of_nat RING_SLOTS then unat (rl_head g) else RING_SLOTS) = rl_fill g"
  by (auto simp: rl_fill_def RING_SLOTS_def word_less_nat_alt min_def)

lemma rl_dump_slot:
  assumes "i < rl_fill g"
  shows "rl_ring g ! unat ((rl_head g - 1 - of_nat i) mod of_nat RING_SLOTS) = rev (rl_contents g) ! i"
proof -
  let ?h = "unat (rl_head g)"
  have i: "i < ?h" "i < 1024" using assms by (simp_all add: rl_fill_def)
  have "rl_head g - 1 - of_nat i = of_nat (?h - (1 + i))"
    using i(1) by (simp add: of_nat_diff)
  moreover have "unat (of_nat (?h - (1 + i)) :: u64) = ?h - (1 + i)"
    by (rule unat_of_nat_small) (use unat_u64_less [of "rl_head g"] in simp)
  moreover have "?h - rl_fill g + (rl_fill g - Suc i) = ?h - (1 + i)"
    using assms by (simp add: rl_fill_def min_def)
  ultimately show ?thesis
    using assms by (simp add: unat_mod_slots rev_nth) (simp add: rl_contents_def)
qed

lemma rl_dump_recent:
  "rl_dump g = ''==== ring_log: written='' @ fmt_u (unat (rl_written g)) @ ''  overwritten='' @
     fmt_u (unat (rl_overwritten g)) @ ''  fill='' @ fmt_u (length (rl_contents g)) @ ''/'' @ fmt_d 1024 @ '' ===='' @
     newline @ concat (map rl_line (take 5 (rev (rl_contents g))))"
proof -
  let ?n = "if rl_fill g < 5 then rl_fill g else 5"
  have "map (\<lambda>i. rl_line (rl_ring g ! unat ((rl_head g - 1 - of_nat i) mod of_nat RING_SLOTS))) [0..<?n] =
      map rl_line (take 5 (rev (rl_contents g)))"
  proof (rule nth_equalityI)
    fix i assume "i < length (map (\<lambda>i. rl_line (rl_ring g ! unat ((rl_head g - 1 - of_nat i) mod of_nat RING_SLOTS))) [0..<?n])"
    then have "i < ?n" by simp
    then show "map (\<lambda>i. rl_line (rl_ring g ! unat ((rl_head g - 1 - of_nat i) mod of_nat RING_SLOTS))) [0..<?n] ! i =
        map rl_line (take 5 (rev (rl_contents g))) ! i"
      using rl_dump_slot [of i g] by (simp split: if_splits)
  qed (simp add: min_def)
  then show ?thesis unfolding rl_dump_def Let_def rl_fill_code by (simp add: RING_SLOTS_def)
qed

section \<open>Properties\<close>

text \<open>
  C34. The in-memory sink: after it is opened and \<open>xs\<close> are written (fewer than \<open>2\<^sup>6\<^sup>4\<close>), it holds
  the newest 1024 of them in order, \<^verbatim>\<open>g_written\<close> counts them all and \<^verbatim>\<open>g_overwritten\<close> those no longer
  held, and the dump prints exactly these counters and the five newest records, newest first.
\<close>

theorem ring_log_keeps_newest:
  assumes "length xs < 2 ^ 64"
  shows "let g = sink_writes sink_ring_log xs (snd (rl_open g0)) in
    rl_contents g = last_n 1024 xs \<and>
    unat (rl_written g) = length xs \<and> unat (rl_overwritten g) = length xs - length (rl_contents g) \<and>
    rl_dump g = ''==== ring_log: written='' @ fmt_u (length xs) @ ''  overwritten='' @
      fmt_u (length xs - 1024) @ ''  fill='' @ fmt_u (min 1024 (length xs)) @ ''/'' @ fmt_d 1024 @ '' ===='' @
      newline @ concat (map rl_line (take 5 (rev (last_n 1024 xs))))"
proof -
  define g where "g = sink_writes sink_ring_log xs (snd (rl_open g0))"
  have inv: "rl_invar (length xs) (snd (rl_open g0))" "rl_contents (snd (rl_open g0)) = []"
    using rl_open_invar [OF assms] by simp_all
  have list: "rl_contents g = last_n 1024 xs"
    using rl.writes_contents [OF inv(1)] by (simp add: inv(2) g_def)
  have "rl_written (sink_writes sink_ring_log ys s) = rl_written s + of_nat (length ys)" for ys s
    by (induction ys arbitrary: s) (simp_all add: sink_writes_def sink_ring_log_def rl_write_def Let_def)
  then have "rl_written g = of_nat (length xs)" by (simp add: g_def rl_open_def)
  then have w: "unat (rl_written g) = length xs" using assms by (simp add: unat_of_nat_small)
  have "rl_invar 0 g" using rl.invar_pushes [of xs 0] inv by (simp add: g_def sink_writes_def)
  then have "rl_overwritten g = of_nat (length xs - 1024)" using w by (simp add: rl_invar_def)
  moreover have "unat (of_nat (length xs - 1024) :: u64) = length xs - 1024"
    by (rule unat_of_nat_small) (use assms in simp)
  ultimately have o: "unat (rl_overwritten g) = length xs - 1024" by simp
  have "length xs - length (last_n 1024 xs) = length xs - 1024" by simp
  with list w o show ?thesis
    unfolding g_def [symmetric] Let_def rl_dump_recent by (simp del: length_rl_contents)
qed

theorem ring_log_keeps_newest_witness:
  "\<exists>g0. length [zero_record, zero_record\<lparr>seq := 7\<rparr>] < 2 ^ 64 \<and>
    rl_contents (sink_writes sink_ring_log [zero_record, zero_record\<lparr>seq := 7\<rparr>] (snd (rl_open g0))) =
      [zero_record, zero_record\<lparr>seq := 7\<rparr>]"
  using ring_log_keeps_newest [of "[zero_record, zero_record\<lparr>seq := 7\<rparr>]"] by (simp add: Let_def)

end
