(* ===== verification/Sink_Chardev.thy ===== *)
theory Sink_Chardev
  imports Sink Telemetry_Drv
begin

text \<open>
  \<^verbatim>\<open>server/sink_chardev.c\<close>: the sink that writes each record to the kernel device. The
  system calls are parameters of the operations; with the driver of \<open>Telemetry_Drv\<close> behind
  them the sink satisfies the same contract as the in-memory one.
\<close>

section \<open>The code\<close>

definition DEV_PATH :: string where
  "DEV_PATH = ''/dev/telemetry''"

text \<open>
  The state is \<^verbatim>\<open>g_fd\<close> (\<open>-1\<close> when closed) and the world \<open>'w\<close> the system calls act on.
  \<open>os_open path\<close> returns the descriptor or a negative value, \<open>os_write fd bytes\<close> the
  result of \<^verbatim>\<open>write(2)\<close>.
\<close>

record 'w cd_state =
  cd_fd :: int
  cd_world :: 'w

definition cd_open ::
  "string option \<Rightarrow> (string \<Rightarrow> 'w \<Rightarrow> int \<times> 'w) \<Rightarrow> 'w cd_state \<Rightarrow> int \<times> 'w cd_state" where
  "cd_open getenv_PULSELINK_DEV os_open s =
     (let path = (case getenv_PULSELINK_DEV of Some p \<Rightarrow> p | None \<Rightarrow> DEV_PATH);
          (fd, w) = os_open path (cd_world s);
          s1 = s\<lparr>cd_fd := fd, cd_world := w\<rparr>
      in if fd < 0 then (-1, s1) else (0, s1))"

definition cd_write_record ::
  "endian \<Rightarrow> (int \<Rightarrow> u8 list \<Rightarrow> 'w \<Rightarrow> sys_result \<times> 'w) \<Rightarrow> sensor_record \<Rightarrow> 'w cd_state \<Rightarrow> int \<times> 'w cd_state" where
  "cd_write_record host os_write rec s =
     (let (n, w) = os_write (cd_fd s) (rec_mem host rec) (cd_world s);
          s1 = s\<lparr>cd_world := w\<rparr>
      in if n \<noteq> Inr REC_SZ then (-1, s1) else (0, s1))"

text \<open>\<open>proc\<close>: the text of \<^verbatim>\<open>/proc/pulselink\<close>, which the loop copies line by line.\<close>

definition cd_dump :: "('w \<Rightarrow> string option) \<Rightarrow> 'w cd_state \<Rightarrow> string" where
  "cd_dump proc s =
     ''==== sink dev: '' @ DEV_PATH @ '' ===='' @ newline @
     (case proc (cd_world s) of
        Some txt \<Rightarrow> txt
      | None \<Rightarrow> ''  (/proc/pulselink unavailable)'' @ newline) @
     ''====================================='' @ newline"

definition cd_close :: "(int \<Rightarrow> 'w \<Rightarrow> 'w) \<Rightarrow> 'w cd_state \<Rightarrow> 'w cd_state" where
  "cd_close os_close s =
     (let s1 = (if cd_fd s \<ge> 0 then s\<lparr>cd_world := os_close (cd_fd s) (cd_world s)\<rparr> else s)
      in s1\<lparr>cd_fd := -1\<rparr>)"

definition sink_chardev ::
  "endian \<Rightarrow> string option \<Rightarrow> (string \<Rightarrow> 'w \<Rightarrow> int \<times> 'w) \<Rightarrow> (int \<Rightarrow> u8 list \<Rightarrow> 'w \<Rightarrow> sys_result \<times> 'w) \<Rightarrow>
   ('w \<Rightarrow> string option) \<Rightarrow> (int \<Rightarrow> 'w \<Rightarrow> 'w) \<Rightarrow> 'w cd_state sink" where
  "sink_chardev host env os_open os_write proc os_close =
     \<lparr>sink_name = ''dev(/dev/telemetry)'', sink_open = cd_open env os_open,
      write_record = cd_write_record host os_write, sink_dump = Some (cd_dump proc),
      sink_close = cd_close os_close\<rparr>"

section \<open>The sink on top of the driver\<close>

text \<open>
  The world is the driver and the descriptor's offset. Descriptor 3 is the device; a
  \<^verbatim>\<open>write(2)\<close> to it is \<open>tlm_write\<close> on the caller's bytes, to any other descriptor it fails.
\<close>

type_synonym drv_file = "drv \<times> nat"

definition dev_open_fd :: "string \<Rightarrow> drv_file \<Rightarrow> int \<times> drv_file" where
  "dev_open_fd path w = (if path = ''/dev/'' @ PL_TELEMETRY_DEVNAME then (3, (fst w, 0)) else (-1, w))"

definition dev_write_fd :: "endian \<Rightarrow> int \<Rightarrow> u8 list \<Rightarrow> drv_file \<Rightarrow> sys_result \<times> drv_file" where
  "dev_write_fd host fd bs w =
     (if fd \<noteq> 3 then (Inl EBADF, w)
      else case tlm_write host (user_mem bs) (length bs) (snd w) (fst w) of (res, off, d) \<Rightarrow> (res, (d, off)))"

definition dev_sink :: "endian \<Rightarrow> drv_file cd_state sink" where
  "dev_sink host = sink_chardev host None dev_open_fd (dev_write_fd host)
     (\<lambda>w. Some (tlm_proc_show (fst w))) (\<lambda>fd w. w)"

definition dev_contents :: "drv_file cd_state \<Rightarrow> sensor_record list" where
  "dev_contents s = tring_list (g_ring (fst (cd_world s)))"

definition dev_invar :: "nat \<Rightarrow> drv_file cd_state \<Rightarrow> bool" where
  "dev_invar n s \<longleftrightarrow> cd_fd s = 3 \<and> tring_invar (g_ring (fst (cd_world s)))"

lemma dev_write_one:
  assumes "cd_fd s = 3"
  shows "write_record (dev_sink host) x s =
    (0, s\<lparr>cd_world := ((fst (cd_world s))\<lparr>g_ring := snd (tring_push (g_ring (fst (cd_world s))) x),
        readq_wakeups := readq_wakeups (fst (cd_world s)) + 1\<rparr>, snd (cd_world s) + REC_SZ)\<rparr>)"
proof -
  have "recs_ld host 1 (rec_mem host x) = [x]" by (simp add: rec.dec_enc_exact)
  moreover have "REC_SZ \<le> length (rec_mem host x)" "REC_SZ div REC_SZ = 1" by (simp_all add: REC_SZ_def)
  ultimately show ?thesis
    using assms tlm_write_run [OF user_reads_mem refl, of "rec_mem host x" host "snd (cd_world s)" "fst (cd_world s)"]
    by (simp add: dev_sink_def sink_chardev_def cd_write_record_def dev_write_fd_def)
qed

interpretation dev: record_sink "dev_sink host" dev_contents dev_invar 256
proof (unfold_locales, goal_cases)
  case (2 n r) then show ?case
    using tr.length_contents by (simp add: dev_invar_def dev_contents_def del: length_tring_list)
next
  case (3 n r x) then show ?case
    using tring_invar_push by (simp add: dev_invar_def dev_write_one)
next
  case (4 n r x) then show ?case
    using tr.contents_push by (simp add: dev_invar_def dev_contents_def dev_write_one del: length_tring_list)
next
  case (5 n s x) then show ?case by (simp add: dev_invar_def dev_write_one)
qed simp

lemma dev_open_ok:
  "fst (sink_open (dev_sink host) s) = 0 \<and> cd_fd (snd (sink_open (dev_sink host) s)) = 3 \<and>
   fst (cd_world (snd (sink_open (dev_sink host) s))) = fst (cd_world s)"
  by (simp add: dev_sink_def sink_chardev_def cd_open_def DEV_PATH_def dev_open_fd_def
      PL_TELEMETRY_DEVNAME_def Let_def)

end
