(* ===== verification/Device_Table.thy ===== *)
theory Device_Table
  imports Printf
begin

text \<open>
  \<^verbatim>\<open>server/device_table.c\<close>: the registry of devices. A \<^verbatim>\<open>device_t *\<close> is an address into the list
  of allocated devices, and the \<^verbatim>\<open>next\<close> chain of a bucket is the list of its addresses, so that
  the stability of pointers is part of the model. Seconds are unbounded integers; counters keep
  their width.
\<close>

section \<open>Data\<close>

datatype dev_state = DEV_ONLINE | DEV_OFFLINE

record device =
  dev_id :: u32
  session_id :: u32
  dstate :: dev_state
  last_seq :: u32
  last_seen :: int
  packets_ok :: u64
  packets_bad :: u64
  last_temp :: i32
  last_humid :: i32

definition TABLE_BUCKETS :: nat where
  "TABLE_BUCKETS = 64"

record device_table =
  devices :: "device list"
  buckets :: "nat list list"
  device_count :: u32

section \<open>Operations\<close>

definition dt_hash :: "u32 \<Rightarrow> nat" where
  "dt_hash i = unat ((i * 2654435761) mod of_nat TABLE_BUCKETS)"

definition dt_init :: "device_table \<Rightarrow> device_table" where
  "dt_init t = t\<lparr>buckets := replicate TABLE_BUCKETS [], device_count := 0\<rparr>"

text \<open>Every device in a chain is freed and the chain cut; the count is left as it is.\<close>

definition dt_destroy :: "device_table \<Rightarrow> device_table" where
  "dt_destroy t = t\<lparr>devices := [], buckets := replicate TABLE_BUCKETS []\<rparr>"

definition find_locked :: "device_table \<Rightarrow> nat \<Rightarrow> u32 \<Rightarrow> nat option" where
  "find_locked t h i = List.find (\<lambda>a. dev_id (devices t ! a) = i) (buckets t ! h)"

definition new_device :: "int \<Rightarrow> u32 \<Rightarrow> u32 \<Rightarrow> device" where
  "new_device now i session = \<lparr>dev_id = i, session_id = session, dstate = DEV_ONLINE, last_seq = 0,
     last_seen = now, packets_ok = 0, packets_bad = 0, last_temp = 0, last_humid = 0\<rparr>"

text \<open>
  The write-locked half of \<^verbatim>\<open>dt_get_or_create\<close>: look again, then allocate and link at the head
  of the chain. \<open>calloc_ok\<close> and \<open>now\<close> are what \<^verbatim>\<open>calloc\<close> and \<^verbatim>\<open>time(NULL)\<close> return.
\<close>

definition dt_create_locked :: "bool \<Rightarrow> int \<Rightarrow> nat \<Rightarrow> u32 \<Rightarrow> u32 \<Rightarrow> device_table \<Rightarrow> nat option \<times> device_table" where
  "dt_create_locked calloc_ok now h i session t =
     (case find_locked t h i of
        Some d \<Rightarrow> (Some d, t)
      | None \<Rightarrow>
          if \<not> calloc_ok then (None, t)
          else let d = length (devices t) in
            (Some d, t\<lparr>devices := devices t @ [new_device now i session],
                       buckets := (buckets t)[h := d # buckets t ! h],
                       device_count := device_count t + 1\<rparr>))"

definition dt_get_or_create :: "bool \<Rightarrow> int \<Rightarrow> u32 \<Rightarrow> u32 \<Rightarrow> device_table \<Rightarrow> nat option \<times> device_table" where
  "dt_get_or_create calloc_ok now i session t =
     (let h = dt_hash i in
      case find_locked t h i of
        Some d \<Rightarrow> (Some d, t)
      | None \<Rightarrow> dt_create_locked calloc_ok now h i session t)"

definition dt_record_sensor :: "nat \<Rightarrow> u32 \<Rightarrow> i32 \<Rightarrow> i32 \<Rightarrow> int \<Rightarrow> device_table \<Rightarrow> device_table" where
  "dt_record_sensor d sq temp humid now t =
     (let v = devices t ! d in
      t\<lparr>devices := (devices t)[d := v\<lparr>last_seq := sq, last_temp := temp, last_humid := humid,
         last_seen := now, dstate := DEV_ONLINE, packets_ok := packets_ok v + 1\<rparr>]\<rparr>)"

definition dt_record_bad :: "nat option \<Rightarrow> device_table \<Rightarrow> device_table" where
  "dt_record_bad d t =
     (case d of
        None \<Rightarrow> t
      | Some a \<Rightarrow> t\<lparr>devices := (devices t)[a := (devices t ! a)\<lparr>packets_bad := packets_bad (devices t ! a) + 1\<rparr>]\<rparr>)"

definition dt_touch :: "bool \<Rightarrow> int \<Rightarrow> u32 \<Rightarrow> int \<Rightarrow> device_table \<Rightarrow> device_table" where
  "dt_touch calloc_ok clock i now t =
     (case dt_get_or_create calloc_ok clock i 0 t of
        (None, t1) \<Rightarrow> t1
      | (Some d, t1) \<Rightarrow>
          t1\<lparr>devices := (devices t1)[d := (devices t1 ! d)\<lparr>last_seen := now, dstate := DEV_ONLINE\<rparr>]\<rparr>)"

definition sweep_device :: "int \<Rightarrow> int \<Rightarrow> device \<Rightarrow> device" where
  "sweep_device now timeout_s v =
     (if now - last_seen v > timeout_s then v\<lparr>dstate := DEV_OFFLINE\<rparr> else v)"

definition dt_sweep_offline :: "int \<Rightarrow> int \<Rightarrow> device_table \<Rightarrow> device_table" where
  "dt_sweep_offline now timeout_s t =
     fold (\<lambda>chain t. fold (\<lambda>d t. t\<lparr>devices := (devices t)[d := sweep_device now timeout_s (devices t ! d)]\<rparr>) chain t)
       (buckets t) t"

definition dump_line :: "device \<Rightarrow> string" where
  "dump_line d =
     ''  0x'' @ fmt_08X (dev_id d) @ '' '' @ pad_right 7 (fmt_u (unat (session_id d))) @ '' '' @
     pad_right 7 (if dstate d = DEV_ONLINE then ''ONLINE'' else ''OFFLINE'') @ '' '' @
     pad_right 8 (fmt_u (unat (packets_ok d))) @ '' '' @ pad_right 8 (fmt_u (unat (packets_bad d))) @ '' '' @
     fmt_centi 3 (sint (last_temp d)) @ '' '' @ fmt_centi 3 (sint (last_humid d)) @ newline"

definition dt_dump :: "device_table \<Rightarrow> string" where
  "dt_dump t =
     ''==== device table ('' @ fmt_u (unat (device_count t)) @ '' devices) ===='' @ newline @
     ''  '' @ pad_right 10 ''device'' @ '' '' @ pad_right 7 ''session'' @ '' '' @ pad_right 7 ''state'' @ '' '' @
     pad_right 8 ''ok'' @ '' '' @ pad_right 8 ''bad'' @ '' '' @ pad_right 7 ''temp'' @ '' '' @
     pad_right 7 ''humid'' @ newline @
     concat (map (\<lambda>chain. concat (map (\<lambda>d. dump_line (devices t ! d)) chain)) (buckets t)) @
     ''==================================='' @ newline"

section \<open>Invariant and abstraction\<close>

text \<open>
  Every allocated device is in exactly one chain, the one of its hash; ids are unique; the
  count is the number of devices.
\<close>

definition dt_invar :: "device_table \<Rightarrow> bool" where
  "dt_invar t \<longleftrightarrow> length (buckets t) = 64 \<and>
     (\<forall>h < 64. distinct (buckets t ! h) \<and>
        set (buckets t ! h) = {a. a < length (devices t) \<and> dt_hash (dev_id (devices t ! a)) = h}) \<and>
     distinct (map dev_id (devices t)) \<and> device_count t = of_nat (length (devices t))"

text \<open>The registry as a finite map from ids to devices, and the address of an id.\<close>

definition dt_addr :: "device_table \<Rightarrow> u32 \<Rightarrow> nat option" where
  "dt_addr t i = List.find (\<lambda>a. dev_id (devices t ! a) = i) [0..<length (devices t)]"

definition dt_map :: "device_table \<Rightarrow> u32 \<rightharpoonup> device" where
  "dt_map t i = map_option (\<lambda>a. devices t ! a) (dt_addr t i)"

lemma dt_hash_less [simp]: "dt_hash i < 64"
proof -
  have "unat ((i * 2654435761) mod 64 :: u32) < unat (64 :: u32)"
    by (rule unat_mono) (simp add: word_mod_less_divisor)
  then show ?thesis by (simp add: dt_hash_def TABLE_BUCKETS_def)
qed

lemma find_eq_Some:
  "(\<And>x y. x \<in> set xs \<Longrightarrow> y \<in> set xs \<Longrightarrow> P x \<Longrightarrow> P y \<Longrightarrow> x = y) \<Longrightarrow>
   List.find P xs = Some a \<longleftrightarrow> a \<in> set xs \<and> P a"
proof (induction xs)
  case (Cons x xs)
  then show ?case by (auto split: if_splits)
qed simp

lemma ids_distinct:
  "dt_invar t \<Longrightarrow> a < length (devices t) \<Longrightarrow> b < length (devices t) \<Longrightarrow>
   dev_id (devices t ! a) = dev_id (devices t ! b) \<longleftrightarrow> a = b"
  using nth_eq_iff_index_eq [of "map dev_id (devices t)" a b] by (simp add: dt_invar_def)

lemma dt_addr_Some:
  "dt_invar t \<Longrightarrow> dt_addr t i = Some a \<longleftrightarrow> a < length (devices t) \<and> dev_id (devices t ! a) = i"
  unfolding dt_addr_def by (subst find_eq_Some) (auto simp: ids_distinct)

lemma dt_addr_None: "dt_addr t i = None \<Longrightarrow> a < length (devices t) \<Longrightarrow> dev_id (devices t ! a) \<noteq> i"
  by (auto simp: dt_addr_def find_None_iff)

lemma find_locked_addr:
  assumes "dt_invar t"
  shows "find_locked t (dt_hash i) i = dt_addr t i"
proof -
  have chain: "set (buckets t ! dt_hash i) = {a. a < length (devices t) \<and> dt_hash (dev_id (devices t ! a)) = dt_hash i}"
    using assms by (simp add: dt_invar_def)
  have "find_locked t (dt_hash i) i = Some a \<longleftrightarrow> dt_addr t i = Some a" for a
    unfolding find_locked_def dt_addr_Some [OF assms]
    by (subst find_eq_Some) (use assms in \<open>auto simp: chain ids_distinct\<close>)
  then show ?thesis by (rule option_eqI)
qed

section \<open>Updates through a device pointer\<close>

abbreviation dt_upd :: "nat \<Rightarrow> device \<Rightarrow> device_table \<Rightarrow> device_table" where
  "dt_upd d v t \<equiv> t\<lparr>devices := (devices t)[d := v]\<rparr>"

lemma map_upd_same: "f v = f (xs ! d) \<Longrightarrow> map f (xs[d := v]) = map f xs"
  by (metis list_update_id map_update)

lemma dev_id_upd: "dev_id v = dev_id (xs ! d) \<Longrightarrow> a < length xs \<Longrightarrow> dev_id (xs[d := v] ! a) = dev_id (xs ! a)"
  by (metis map_upd_same nth_map length_list_update)

lemma dt_invar_upd:
  assumes "dt_invar t" and "dev_id v = dev_id (devices t ! d)"
  shows "dt_invar (dt_upd d v t)"
proof -
  have "{a. a < length (devices t) \<and> dt_hash (dev_id ((devices t)[d := v] ! a)) = h} =
      {a. a < length (devices t) \<and> dt_hash (dev_id (devices t ! a)) = h}" for h
    using dev_id_upd [where xs = "devices t" and d = d, OF assms(2)] by auto
  with assms show ?thesis by (simp add: dt_invar_def map_upd_same)
qed

lemma dt_addr_upd:
  assumes "dt_invar t" and "dev_id v = dev_id (devices t ! d)"
  shows "dt_addr (dt_upd d v t) i = dt_addr t i"
proof -
  have "dt_addr (dt_upd d v t) i = Some a \<longleftrightarrow> dt_addr t i = Some a" for a
    using dev_id_upd [OF assms(2)] by (auto simp: dt_addr_Some assms dt_invar_upd [OF assms])
  then show ?thesis by (rule option_eqI)
qed

lemma dt_map_upd:
  assumes "dt_invar t" and "dt_addr t i = Some d" and "dev_id v = i"
  shows "dt_map (dt_upd d v t) = (dt_map t)(i \<mapsto> v)"
proof
  fix j
  have d: "d < length (devices t)" "dev_id (devices t ! d) = i" using assms by (simp_all add: dt_addr_Some)
  have "dt_addr (dt_upd d v t) j = dt_addr t j" by (rule dt_addr_upd) (simp_all add: assms d)
  moreover have "j \<noteq> i \<Longrightarrow> dt_addr t j \<noteq> Some d" using d by (simp add: dt_addr_Some [OF assms(1)])
  ultimately show "dt_map (dt_upd d v t) j = ((dt_map t)(i \<mapsto> v)) j"
    using assms(2) d by (cases "dt_addr t j") (auto simp: dt_map_def nth_list_update)
qed

lemma dt_map_Some: "dt_addr t i = Some d \<Longrightarrow> dt_map t i = Some (devices t ! d)"
  by (simp add: dt_map_def)

lemma dt_init_invar: "devices t = [] \<Longrightarrow> dt_invar (dt_init t) \<and> dt_map (dt_init t) = Map.empty"
  by (simp add: dt_init_def dt_invar_def TABLE_BUCKETS_def dt_map_def dt_addr_def fun_eq_iff)

lemma dom_dt_map:
  assumes "dt_invar t"
  shows "dom (dt_map t) = set (map dev_id (devices t))"
proof -
  have "i \<in> dom (dt_map t) \<longleftrightarrow> (\<exists>a. dt_addr t i = Some a)" for i
    by (auto simp: dt_map_def)
  moreover have "i \<in> set (map dev_id (devices t)) \<longleftrightarrow> (\<exists>a. dt_addr t i = Some a)" for i
    unfolding dt_addr_Some [OF assms] in_set_conv_nth by auto
  ultimately show ?thesis by blast
qed

lemma dt_count_card:
  assumes "dt_invar t"
  shows "unat (device_count t) = card (dom (dt_map t)) mod 2 ^ 32"
proof -
  have "card (set (map dev_id (devices t))) = length (map dev_id (devices t))"
    using assms by (intro distinct_card) (simp add: dt_invar_def)
  then have "card (dom (dt_map t)) = length (devices t)" by (simp only: dom_dt_map [OF assms] length_map)
  with assms show ?thesis by (simp add: dt_invar_def unat_of_nat)
qed

section \<open>Creating a device\<close>

definition dt_insert :: "int \<Rightarrow> u32 \<Rightarrow> u32 \<Rightarrow> device_table \<Rightarrow> device_table" where
  "dt_insert now i session t =
     t\<lparr>devices := devices t @ [new_device now i session],
       buckets := (buckets t)[dt_hash i := length (devices t) # buckets t ! dt_hash i],
       device_count := device_count t + 1\<rparr>"

lemma devices_dt_insert [simp]: "devices (dt_insert now i session t) = devices t @ [new_device now i session]"
  by (simp add: dt_insert_def)

lemma dev_id_new_device [simp]: "dev_id (new_device now i session) = i"
  by (simp add: new_device_def)

lemma dt_create_cases:
  assumes "dt_invar t"
  shows "dt_create_locked calloc_ok now (dt_hash i) i session t =
    (case dt_addr t i of
       Some d \<Rightarrow> (Some d, t)
     | None \<Rightarrow> if calloc_ok then (Some (length (devices t)), dt_insert now i session t) else (None, t))"
  by (simp add: dt_create_locked_def dt_insert_def find_locked_addr [OF assms] Let_def split: option.split)

lemma dt_get_or_create_eq_create:
  "dt_get_or_create calloc_ok now i session t = dt_create_locked calloc_ok now (dt_hash i) i session t"
  by (simp add: dt_get_or_create_def dt_create_locked_def Let_def split: option.split)

lemma dt_insert_invar:
  assumes "dt_invar t" and "dt_addr t i = None"
  shows "dt_invar (dt_insert now i session t)"
proof -
  let ?n = "length (devices t)"
  have fresh: "dev_id (devices t ! a) \<noteq> i" if "a < ?n" for a
    using dt_addr_None [OF assms(2) that] .
  then have "dev_id x \<noteq> i" if "x \<in> set (devices t)" for x
    using that unfolding in_set_conv_nth by blast
  then have ids: "i \<notin> set (map dev_id (devices t))" by auto
  have "distinct (buckets (dt_insert now i session t) ! h) \<and> set (buckets (dt_insert now i session t) ! h) =
      {a. a < length (devices (dt_insert now i session t)) \<and>
          dt_hash (dev_id (devices (dt_insert now i session t) ! a)) = h}" if "h < 64" for h
  proof -
    have "distinct (buckets t ! h)"
      "set (buckets t ! h) = {a. a < ?n \<and> dt_hash (dev_id (devices t ! a)) = h}"
      "length (buckets t) = 64"
      using assms(1) that by (simp_all add: dt_invar_def)
    moreover have "{a. a < Suc ?n \<and> dt_hash (dev_id ((devices t @ [new_device now i session]) ! a)) = h} =
        {a. a < ?n \<and> dt_hash (dev_id (devices t ! a)) = h} \<union> (if dt_hash i = h then {?n} else {})"
      by (auto simp: nth_append less_Suc_eq)
    ultimately show ?thesis
      using that by (cases "dt_hash i = h") (simp_all add: dt_insert_def)
  qed
  with assms ids show ?thesis
    by (simp add: dt_invar_def dt_insert_def new_device_def)
qed

lemma dt_insert_addr:
  assumes "dt_invar t" and "dt_addr t i = None"
  shows "dt_addr (dt_insert now i session t) = (dt_addr t)(i \<mapsto> length (devices t))"
proof
  fix j
  let ?t = "dt_insert now i session t" and ?n = "length (devices t)"
  have new: "dt_addr ?t j = Some a \<longleftrightarrow>
      (if a = ?n then j = i else a < ?n \<and> dev_id (devices t ! a) = j)" for a
    by (auto simp: dt_addr_Some [OF dt_insert_invar [OF assms]] nth_append)
  show "dt_addr ?t j = ((dt_addr t)(i \<mapsto> ?n)) j"
  proof (cases "j = i")
    case True
    then show ?thesis using new [of ?n] by simp
  next
    case False
    have "dt_addr ?t j = Some a \<longleftrightarrow> dt_addr t j = Some a" for a
      using new [of a] False by (auto simp: dt_addr_Some [OF assms(1)])
    then have "dt_addr ?t j = dt_addr t j" by (rule option_eqI)
    with False show ?thesis by simp
  qed
qed

lemma dt_insert_map:
  assumes "dt_invar t" and "dt_addr t i = None"
  shows "dt_map (dt_insert now i session t) = (dt_map t)(i \<mapsto> new_device now i session)"
proof
  fix j
  show "dt_map (dt_insert now i session t) j = ((dt_map t)(i \<mapsto> new_device now i session)) j"
  proof (cases "j = i")
    case True
    then have "dt_addr (dt_insert now i session t) j = Some (length (devices t))"
      using fun_cong [OF dt_insert_addr [OF assms], of now session j] by simp
    with True show ?thesis by (simp add: dt_map_def)
  next
    case False
    then have same: "dt_addr (dt_insert now i session t) j = dt_addr t j"
      using fun_cong [OF dt_insert_addr [OF assms], of now session j] by simp
    show ?thesis
    proof (cases "dt_addr t j")
      case None
      with False same show ?thesis by (simp add: dt_map_def)
    next
      case (Some a)
      then have "a < length (devices t)" using dt_addr_Some [OF assms(1)] by blast
      with False same Some show ?thesis by (simp add: dt_map_def nth_append)
    qed
  qed
qed

section \<open>The sweep\<close>

abbreviation upd_all :: "(device \<Rightarrow> device) \<Rightarrow> nat list \<Rightarrow> device_table \<Rightarrow> device_table" where
  "upd_all f ds t \<equiv> fold (\<lambda>d t. t\<lparr>devices := (devices t)[d := f (devices t ! d)]\<rparr>) ds t"

lemma fold_concat_chains: "fold (\<lambda>chain t. fold g chain t) css t = fold g (concat css) t"
  by (induction css arbitrary: t) simp_all

lemma upd_all_nth:
  assumes "\<And>v. f (f v) = f v"
  shows "length (devices (upd_all f ds t)) = length (devices t) \<and>
    (\<forall>a < length (devices t). devices (upd_all f ds t) ! a = (if a \<in> set ds then f (devices t ! a) else devices t ! a))"
proof (induction ds arbitrary: t)
  case (Cons d ds)
  have "f ((devices t)[d := f (devices t ! d)] ! a) = f (devices t ! a)" if "a < length (devices t)" for a
    using that assms by (cases "a = d") simp_all
  with Cons.IH assms show ?case by (auto simp: nth_list_update)
qed simp

lemma upd_all_frame: "upd_all f ds t = t\<lparr>devices := devices (upd_all f ds t)\<rparr>"
proof (induction ds arbitrary: t)
  case (Cons d ds)
  show ?case by (simp, subst Cons.IH) simp
qed simp

lemma sweep_device_idem: "sweep_device now timeout_s (sweep_device now timeout_s v) = sweep_device now timeout_s v"
  by (simp add: sweep_device_def)

lemma dev_id_sweep [simp]: "dev_id (sweep_device now timeout_s v) = dev_id v"
  by (simp add: sweep_device_def)

lemma all_addresses:
  assumes "dt_invar t" and "a < length (devices t)"
  shows "a \<in> set (concat (buckets t))"
proof -
  have "a \<in> set (buckets t ! dt_hash (dev_id (devices t ! a)))" "length (buckets t) = 64"
    using assms by (simp_all add: dt_invar_def)
  then show ?thesis by (metis UN_I dt_hash_less nth_mem set_concat)
qed

lemma dt_sweep_eq:
  assumes "dt_invar t"
  shows "dt_sweep_offline now timeout_s t = t\<lparr>devices := map (sweep_device now timeout_s) (devices t)\<rparr>"
proof -
  let ?u = "upd_all (sweep_device now timeout_s) (concat (buckets t)) t"
  have "devices ?u = map (sweep_device now timeout_s) (devices t)"
    using upd_all_nth [of "sweep_device now timeout_s" "concat (buckets t)" t, OF sweep_device_idem]
      all_addresses [OF assms] by (intro nth_equalityI) simp_all
  then show ?thesis
    using upd_all_frame [of "sweep_device now timeout_s" "concat (buckets t)" t]
    by (simp add: dt_sweep_offline_def fold_concat_chains)
qed

lemma dt_sweep_invar:
  assumes "dt_invar t"
  shows "dt_invar (dt_sweep_offline now timeout_s t)"
proof -
  have "{a. a < length (devices t) \<and> dt_hash (dev_id (map (sweep_device now timeout_s) (devices t) ! a)) = h} =
      {a. a < length (devices t) \<and> dt_hash (dev_id (devices t ! a)) = h}" for h by auto
  with assms show ?thesis by (simp add: dt_sweep_eq [OF assms] dt_invar_def o_def)
qed

lemma dt_sweep_addr:
  assumes "dt_invar t"
  shows "dt_addr (dt_sweep_offline now timeout_s t) i = dt_addr t i"
  by (rule option_eqI)
    (simp add: dt_addr_Some [OF dt_sweep_invar [OF assms]] dt_addr_Some [OF assms], auto simp: dt_sweep_eq [OF assms])

lemma dt_sweep_map:
  assumes "dt_invar t"
  shows "dt_map (dt_sweep_offline now timeout_s t) i = map_option (sweep_device now timeout_s) (dt_map t i)"
  by (cases "dt_addr t i")
    (simp_all add: dt_map_def dt_sweep_addr [OF assms], simp add: dt_sweep_eq [OF assms] dt_addr_Some [OF assms])

section \<open>The registry contract\<close>

text \<open>
  What the workers, the UDP listener and the reaper rely on: \<open>get\<close> finds or creates, the
  pointer of an id never changes and nothing is removed.
\<close>

locale device_registry =
  fixes get :: "bool \<Rightarrow> int \<Rightarrow> u32 \<Rightarrow> u32 \<Rightarrow> 't \<Rightarrow> 'p option \<times> 't"
    and addr :: "'t \<Rightarrow> u32 \<Rightarrow> 'p option" and view :: "'t \<Rightarrow> u32 \<Rightarrow> device option" and invar :: "'t \<Rightarrow> bool"
  assumes get_known: "invar t \<Longrightarrow> addr t i = Some p \<Longrightarrow> get ok now i s t = (Some p, t)"
    and get_new: "invar t \<Longrightarrow> addr t i = None \<Longrightarrow> \<exists>p t'. get True now i s t = (Some p, t') \<and> invar t' \<and>
      addr t' = (addr t)(i \<mapsto> p) \<and> view t' = (view t)(i \<mapsto> new_device now i s)"
    and get_oom: "invar t \<Longrightarrow> addr t i = None \<Longrightarrow> get False now i s t = (None, t)"
    and addr_view: "invar t \<Longrightarrow> addr t i = None \<longleftrightarrow> view t i = None"
begin

lemma get_effect:
  assumes "invar t" and "get ok now i s t = (r, t')"
  shows "invar t' \<and> r = addr t' i \<and> (\<forall>j p. addr t j = Some p \<longrightarrow> addr t' j = Some p) \<and>
    (\<forall>j. j \<noteq> i \<longrightarrow> addr t' j = addr t j) \<and> (\<forall>j. j \<noteq> i \<longrightarrow> view t' j = view t j) \<and>
    view t' i = (case view t i of Some v \<Rightarrow> Some v | None \<Rightarrow> if ok then Some (new_device now i s) else None)"
proof (cases "addr t i")
  case None
  then have "view t i = None" using addr_view [OF assms(1)] by simp
  then show ?thesis
    using get_new [OF assms(1) None, of now s] get_oom [OF assms(1) None, of now s] assms None
    by (cases ok) auto
next
  case (Some p)
  moreover from Some obtain v where "view t i = Some v" using addr_view [OF assms(1), of i] by auto
  ultimately show ?thesis using get_known [OF assms(1) Some, of ok now s] assms by simp
qed

lemma get_invar: "invar t \<Longrightarrow> invar (snd (get ok now i s t))"
  using get_effect by (metis prod.collapse)

lemma get_again:
  assumes "invar t" and "get ok now i s t = (Some p, t')"
  shows "get ok' now' i s' t' = (Some p, t')"
  using get_effect [OF assms] get_known by metis

end

interpretation reg: device_registry dt_get_or_create dt_addr dt_map dt_invar
proof (unfold_locales, goal_cases)
  case (1 t i p ok now s) then show ?case
    by (simp add: dt_get_or_create_eq_create dt_create_cases)
next
  case (2 t i now s) then show ?case
    by (simp add: dt_get_or_create_eq_create dt_create_cases dt_insert_invar dt_insert_addr dt_insert_map)
next
  case (3 t i now s) then show ?case
    by (simp add: dt_get_or_create_eq_create dt_create_cases)
next
  case (4 t i) show ?case by (simp add: dt_map_def)
qed

section \<open>Operations as updates of the map\<close>

lemma dt_map_addr:
  "dt_invar t \<Longrightarrow> dt_addr t i = Some d \<Longrightarrow> dt_map t i = Some v \<Longrightarrow> v = devices t ! d \<and> dev_id v = i"
  using dt_addr_Some [of t i d] by (simp add: dt_map_def)

lemma dt_record_sensor_map:
  assumes "dt_invar t" and "dt_addr t i = Some d" and "dt_map t i = Some v"
  shows "dt_map (dt_record_sensor d sq temp humid now t) = (dt_map t)(i \<mapsto> v\<lparr>last_seq := sq, last_temp := temp,
    last_humid := humid, last_seen := now, dstate := DEV_ONLINE, packets_ok := packets_ok v + 1\<rparr>)"
proof -
  have "v = devices t ! d" "dev_id v = i" using dt_map_addr [OF assms] by auto
  then show ?thesis
    using dt_map_upd [OF assms(1,2)] by (simp add: dt_record_sensor_def Let_def)
qed

lemma dt_record_sensor_invar: "dt_invar t \<Longrightarrow> dt_invar (dt_record_sensor d sq temp humid now t)"
  by (simp add: dt_record_sensor_def Let_def dt_invar_upd)

lemma dt_record_sensor_addr: "dt_invar t \<Longrightarrow> dt_addr (dt_record_sensor d sq temp humid now t) i = dt_addr t i"
  by (simp add: dt_record_sensor_def Let_def dt_addr_upd)

lemma dt_record_bad_invar: "dt_invar t \<Longrightarrow> dt_invar (dt_record_bad d t)"
  by (simp add: dt_record_bad_def dt_invar_upd split: option.split)

lemma dt_record_bad_addr: "dt_invar t \<Longrightarrow> dt_addr (dt_record_bad d t) i = dt_addr t i"
  by (simp add: dt_record_bad_def dt_addr_upd split: option.split)

lemma dt_record_bad_map:
  assumes "dt_invar t" and "dt_addr t i = Some d" and "dt_map t i = Some v"
  shows "dt_map (dt_record_bad (Some d) t) = (dt_map t)(i \<mapsto> v\<lparr>packets_bad := packets_bad v + 1\<rparr>)"
proof -
  have "v = devices t ! d" "dev_id v = i" using dt_map_addr [OF assms] by auto
  then show ?thesis using dt_map_upd [OF assms(1,2)] by (simp add: dt_record_bad_def)
qed

lemma dt_touch_effect:
  assumes "dt_invar t"
  shows "dt_invar (dt_touch ok clock i now t) \<and>
    dt_map (dt_touch ok clock i now t) = (case dt_map t i of
        Some v \<Rightarrow> (dt_map t)(i \<mapsto> v\<lparr>last_seen := now, dstate := DEV_ONLINE\<rparr>)
      | None \<Rightarrow> if ok then (dt_map t)(i \<mapsto> new_device now i 0) else dt_map t) \<and>
    (\<forall>j p. dt_addr t j = Some p \<longrightarrow> dt_addr (dt_touch ok clock i now t) j = Some p)"
proof -
  obtain r t' where get: "dt_get_or_create ok clock i 0 t = (r, t')" by fastforce
  note eff = reg.get_effect [OF assms get]
  show ?thesis
  proof (cases r)
    case None
    with eff have "dt_map t' i = None" by (simp add: dt_map_def)
    with eff have new: "dt_map t i = None" "\<not> ok" by (auto split: option.splits if_splits)
    then have "t' = t" using reg.get_oom [OF assms, of i clock 0] get by (simp add: dt_map_def)
    with None get new assms show ?thesis by (simp add: dt_touch_def)
  next
    case (Some d)
    with eff have d: "dt_addr t' i = Some d" and inv: "dt_invar t'" by simp_all
    then have id: "dev_id (devices t' ! d) = i" by (simp add: dt_addr_Some)
    let ?v = "(devices t' ! d)\<lparr>last_seen := now, dstate := DEV_ONLINE\<rparr>"
    have touch: "dt_touch ok clock i now t = dt_upd d ?v t'" using Some get by (simp add: dt_touch_def)
    have map: "dt_map (dt_upd d ?v t') = (dt_map t')(i \<mapsto> ?v)"
      by (rule dt_map_upd [OF inv d]) (simp add: id)
    have old: "dt_map t' = (dt_map t)(i := dt_map t' i)" using eff by (auto simp: fun_eq_iff)
    have "Some (devices t' ! d) = (case dt_map t i of Some v \<Rightarrow> Some v | None \<Rightarrow> if ok then Some (new_device clock i 0) else None)"
      using eff dt_map_Some [OF d] by simp
    then have "(dt_map t')(i \<mapsto> ?v) = (case dt_map t i of
        Some v \<Rightarrow> (dt_map t)(i \<mapsto> v\<lparr>last_seen := now, dstate := DEV_ONLINE\<rparr>)
      | None \<Rightarrow> if ok then (dt_map t)(i \<mapsto> new_device now i 0) else dt_map t)"
      by (subst old) (auto simp: new_device_def split: option.splits if_splits)
    with eff map inv id show ?thesis
      unfolding touch by (simp add: dt_invar_upd dt_addr_upd)
  qed
qed

section \<open>Properties\<close>

text \<open>
  C15. \<^verbatim>\<open>dt_get_or_create\<close> implements find-or-add on a map from ids to devices: a known id
  returns its pointer and changes nothing; a new id adds one fresh ONLINE device, or returns NULL
  and changes nothing when the allocation fails; no other device moves or changes, and the
  table stays well formed.
\<close>

theorem dt_get_or_create_refines:
  assumes "dt_invar t"
  shows "case dt_get_or_create calloc_ok now i session t of (d, t') \<Rightarrow>
    dt_invar t' \<and> d = dt_addr t' i \<and>
    dt_map t' = (if dt_map t i = None \<and> calloc_ok then (dt_map t)(i \<mapsto> new_device now i session) else dt_map t) \<and>
    (\<forall>j p. dt_addr t j = Some p \<longrightarrow> dt_addr t' j = Some p) \<and>
    (d = None \<longleftrightarrow> dt_map t i = None \<and> \<not> calloc_ok) \<and>
    unat (device_count t') = card (dom (dt_map t')) mod 2 ^ 32"
proof -
  obtain d t' where get: "dt_get_or_create calloc_ok now i session t = (d, t')" by fastforce
  note eff = reg.get_effect [OF assms get]
  have "dt_map t' j = (if dt_map t i = None \<and> calloc_ok then (dt_map t)(i \<mapsto> new_device now i session) else dt_map t) j" for j
    using eff by (cases "j = i") (auto split: option.splits)
  then have "dt_map t' = (if dt_map t i = None \<and> calloc_ok then (dt_map t)(i \<mapsto> new_device now i session) else dt_map t)"
    by (rule ext)
  moreover have "dt_addr t' i = None \<longleftrightarrow> dt_map t' i = None" by (simp add: dt_map_def)
  ultimately show ?thesis using get eff dt_count_card [of t'] by (auto split: if_splits)
qed

text \<open>
  One sweep of the reaper marks OFFLINE exactly the devices not heard from for more than
  the timeout and leaves every other field of every device, and the table itself, unchanged.
\<close>

lemma dt_sweep_marks_silent:
  assumes "dt_invar t"
  shows "dt_invar (dt_sweep_offline now timeout_s t) \<and>
    dt_addr (dt_sweep_offline now timeout_s t) = dt_addr t \<and>
    dt_map (dt_sweep_offline now timeout_s t) =
      (\<lambda>i. map_option (\<lambda>v. if now - last_seen v > timeout_s then v\<lparr>dstate := DEV_OFFLINE\<rparr> else v) (dt_map t i))"
proof -
  have f: "sweep_device now timeout_s = (\<lambda>v. if now - last_seen v > timeout_s then v\<lparr>dstate := DEV_OFFLINE\<rparr> else v)"
    by (rule ext) (simp add: sweep_device_def)
  have "dt_addr (dt_sweep_offline now timeout_s t) = dt_addr t"
    by (rule ext) (rule dt_sweep_addr [OF assms])
  moreover have "dt_map (dt_sweep_offline now timeout_s t) = (\<lambda>i. map_option (sweep_device now timeout_s) (dt_map t i))"
    by (rule ext) (rule dt_sweep_map [OF assms])
  ultimately show ?thesis using dt_sweep_invar [OF assms] by (simp only: f simp_thms)
qed

text \<open>
  A SENSOR record and a heartbeat act on one entry of the map only: the sensor record
  stores the reading, the time and ONLINE and counts one good packet; the heartbeat refreshes
  the time and the state, adding the device first when it is new.
\<close>

lemma dt_updates_one_device:
  assumes "dt_invar t" and "dt_addr t i = Some d" and "dt_map t i = Some v"
  shows "dt_map (dt_record_sensor d sq temp humid now t) = (dt_map t)(i \<mapsto> v\<lparr>last_seq := sq, last_temp := temp,
      last_humid := humid, last_seen := now, dstate := DEV_ONLINE, packets_ok := packets_ok v + 1\<rparr>) \<and>
    dt_map (dt_record_bad (Some d) t) = (dt_map t)(i \<mapsto> v\<lparr>packets_bad := packets_bad v + 1\<rparr>) \<and>
    dt_map (dt_touch ok clock j now t) = (case dt_map t j of
        Some w \<Rightarrow> (dt_map t)(j \<mapsto> w\<lparr>last_seen := now, dstate := DEV_ONLINE\<rparr>)
      | None \<Rightarrow> if ok then (dt_map t)(j \<mapsto> new_device now j 0) else dt_map t)"
  using dt_record_sensor_map [OF assms] dt_record_bad_map [OF assms] dt_touch_effect [OF assms(1)] by simp

section \<open>Witnesses\<close>

definition empty_table :: device_table where
  "empty_table = dt_init \<lparr>devices = [], buckets = [], device_count = 0\<rparr>"

lemma empty_table_invar: "dt_invar empty_table" "dt_map empty_table = Map.empty"
  using dt_init_invar by (simp_all add: empty_table_def)

text \<open>A table with one device.\<close>

definition one_table :: device_table where
  "one_table = dt_insert 1000 7 1 empty_table"

lemma one_table_invar: "dt_invar one_table" "dt_addr one_table 7 = Some 0"
  "dt_map one_table = [7 \<mapsto> new_device 1000 7 1]"
proof -
  have none: "dt_addr empty_table 7 = None" using empty_table_invar(2) by (simp add: dt_map_def fun_eq_iff)
  show "dt_invar one_table" "dt_map one_table = [7 \<mapsto> new_device 1000 7 1]"
    using dt_insert_invar [OF empty_table_invar(1) none] dt_insert_map [OF empty_table_invar(1) none]
    by (simp_all add: one_table_def empty_table_invar)
  show "dt_addr one_table 7 = Some 0"
    using fun_cong [OF dt_insert_addr [OF empty_table_invar(1) none, of 1000 1], of 7]
    by (simp add: one_table_def empty_table_def dt_init_def)
qed

theorem dt_get_or_create_refines_witness:
  "dt_invar one_table \<and> (case dt_get_or_create True 1005 9 2 one_table of (d, t') \<Rightarrow>
    d \<noteq> None \<and> dt_map t' = [7 \<mapsto> new_device 1000 7 1, 9 \<mapsto> new_device 1005 9 2] \<and> dt_addr t' 7 = Some 0)"
  using dt_get_or_create_refines [OF one_table_invar(1), where calloc_ok = True and now = 1005 and i = 9 and session = 2]
  by (auto simp: one_table_invar split: prod.splits)

lemma dt_sweep_marks_silent_example:
  "dt_invar one_table \<and> dt_map (dt_sweep_offline 1016 15 one_table) 7 =
    Some ((new_device 1000 7 1)\<lparr>dstate := DEV_OFFLINE\<rparr>)"
  using dt_sweep_marks_silent [OF one_table_invar(1), of 1016 15]
  by (simp add: one_table_invar new_device_def)

end
