(* ===== verification/Device_Table_Conc.thy ===== *)
theory Device_Table_Conc
  imports Device_Table
begin

text \<open>
  The device table under concurrency. Workers, the UDP listener and the reaper are threads; each
  step is one critical section of the table's rwlock, or one update of a device's atomic fields
  through a pointer a thread got earlier, without the lock. Between the read-locked lookup and
  the write-locked insertion of \<^verbatim>\<open>dt_get_or_create\<close> any other step may happen.
\<close>

section \<open>The step relation\<close>

datatype get_pc = GIdle | GLookup u32 u32 | GMissed u32 u32 | GDone u32 "nat option"

record reg_sys =
  table :: device_table
  threads :: "nat \<Rightarrow> get_pc"

inductive reg_step :: "reg_sys \<Rightarrow> reg_sys \<Rightarrow> bool" where
  call: "threads s k \<in> {GIdle} \<union> range (\<lambda>(i, r). GDone i r) \<Longrightarrow>
    reg_step s (s\<lparr>threads := (threads s)(k := GLookup i sid)\<rparr>)"
| lookup_hit: "threads s k = GLookup i sid \<Longrightarrow> find_locked (table s) (dt_hash i) i = Some d \<Longrightarrow>
    reg_step s (s\<lparr>threads := (threads s)(k := GDone i (Some d))\<rparr>)"
| lookup_miss: "threads s k = GLookup i sid \<Longrightarrow> find_locked (table s) (dt_hash i) i = None \<Longrightarrow>
    reg_step s (s\<lparr>threads := (threads s)(k := GMissed i sid)\<rparr>)"
| create: "threads s k = GMissed i sid \<Longrightarrow> dt_create_locked calloc_ok now (dt_hash i) i sid (table s) = (r, t') \<Longrightarrow>
    reg_step s (s\<lparr>table := t', threads := (threads s)(k := GDone i r)\<rparr>)"
| sensor: "threads s k = GDone i (Some d) \<Longrightarrow>
    reg_step s (s\<lparr>table := dt_record_sensor d sq temp humid now (table s)\<rparr>)"
| bad: "threads s k = GDone i r \<Longrightarrow> reg_step s (s\<lparr>table := dt_record_bad r (table s)\<rparr>)"
| heartbeat: "threads s k = GDone i (Some d) \<Longrightarrow>
    reg_step s (s\<lparr>table := (table s)\<lparr>devices := (devices (table s))
      [d := (devices (table s) ! d)\<lparr>last_seen := now, dstate := DEV_ONLINE\<rparr>]\<rparr>\<rparr>)"
| sweep: "reg_step s (s\<lparr>table := dt_sweep_offline now timeout_s (table s)\<rparr>)"

definition reg_init :: "device_table \<Rightarrow> reg_sys" where
  "reg_init t = \<lparr>table = dt_init t, threads = (\<lambda>_. GIdle)\<rparr>"

inductive_cases reg_stepE: "reg_step s s'"

section \<open>Invariant\<close>

definition reg_inv :: "reg_sys \<Rightarrow> bool" where
  "reg_inv s \<longleftrightarrow> dt_invar (table s) \<and>
     (\<forall>k i d. threads s k = GDone i (Some d) \<longrightarrow> dt_addr (table s) i = Some d)"

text \<open>A step keeps the table well formed and every pointer in place.\<close>

lemma reg_step_table:
  assumes "reg_step s s'" and "dt_invar (table s)"
  shows "dt_invar (table s') \<and> (\<forall>j p. dt_addr (table s) j = Some p \<longrightarrow> dt_addr (table s') j = Some p)"
  using assms
proof (induction rule: reg_step.induct)
  case (create s k i sid calloc_ok now r t')
  then have "dt_get_or_create calloc_ok now i sid (table s) = (r, t')"
    by (simp add: dt_get_or_create_eq_create)
  from reg.get_effect [OF create.prems this] show ?case by simp
next
  case (sensor s k i d sq temp humid now)
  then show ?case by (simp add: dt_record_sensor_invar dt_record_sensor_addr)
next
  case (bad s k i r)
  then show ?case by (simp add: dt_record_bad_invar dt_record_bad_addr)
next
  case (heartbeat s k i d now)
  then show ?case by (simp add: dt_invar_upd dt_addr_upd)
next
  case (sweep s now timeout_s)
  then show ?case by (simp add: dt_sweep_invar dt_sweep_addr)
qed simp_all

text \<open>Only \<open>lookup_hit\<close> and \<open>create\<close> give a thread a pointer, and they give it the id's own.\<close>

lemma reg_step_result:
  assumes "reg_step s s'" and "dt_invar (table s)"
    and "threads s' k = GDone i (Some d)" and "threads s k \<noteq> GDone i (Some d)"
  shows "dt_addr (table s') i = Some d"
  using assms
proof (induction rule: reg_step.induct)
  case (lookup_hit s k' i' sid d')
  then show ?case by (auto simp: find_locked_addr split: if_splits)
next
  case (create s k' i' sid calloc_ok now r t')
  then have "dt_get_or_create calloc_ok now i' sid (table s) = (r, t')"
    by (simp add: dt_get_or_create_eq_create)
  from reg.get_effect [OF create.prems(1) this] create.prems show ?case by (auto split: if_splits)
qed (auto split: if_splits)

lemma reg_inv_step: "reg_step s s' \<Longrightarrow> reg_inv s \<Longrightarrow> reg_inv s'"
proof -
  assume step: "reg_step s s'" and "reg_inv s"
  then have inv: "dt_invar (table s)"
    and known: "\<And>k i d. threads s k = GDone i (Some d) \<Longrightarrow> dt_addr (table s) i = Some d"
    by (simp_all add: reg_inv_def)
  have "dt_addr (table s') i = Some d" if "threads s' k = GDone i (Some d)" for k i d
  proof (cases "threads s k = GDone i (Some d)")
    case True
    from known [OF this] reg_step_table [OF step inv] show ?thesis by blast
  next
    case False
    show ?thesis by (rule reg_step_result [OF step inv that False])
  qed
  with reg_step_table [OF step inv] show "reg_inv s'" by (simp add: reg_inv_def)
qed

lemma reg_inv_reach: "reg_step\<^sup>*\<^sup>* (reg_init t) s \<Longrightarrow> devices t = [] \<Longrightarrow> reg_inv s"
proof (induction rule: rtranclp_induct)
  case base
  then show ?case using dt_init_invar by (simp add: reg_inv_def reg_init_def)
next
  case (step s s')
  then show ?case using reg_inv_step by blast
qed

lemma reg_steps_addr:
  "reg_step\<^sup>*\<^sup>* s s' \<Longrightarrow> dt_invar (table s) \<Longrightarrow> dt_addr (table s) j = Some p \<Longrightarrow> dt_addr (table s') j = Some p"
proof -
  assume steps: "reg_step\<^sup>*\<^sup>* s s'" and inv: "dt_invar (table s)" and p: "dt_addr (table s) j = Some p"
  from steps have "dt_invar (table s') \<and> dt_addr (table s') j = Some p"
    by (induction rule: rtranclp_induct) (use inv p reg_step_table in auto)
  then show ?thesis by simp
qed

section \<open>Properties\<close>

text \<open>
  C16. The double-checked insertion is safe for any number of threads: in every reachable state
  the table is well formed (no id twice, every device in the chain of its hash, the count right),
  and any two calls for the same id, however interleaved with each other and with the rest, whether
  one finished long before the other, return the same pointer.
\<close>

theorem dt_concurrent_get_or_create:
  assumes "devices t = []" and "reg_step\<^sup>*\<^sup>* (reg_init t) s" and "reg_step\<^sup>*\<^sup>* s s'"
    and "threads s k = GDone i (Some d)" and "threads s' k' = GDone i (Some d')"
  shows "d = d' \<and> dt_invar (table s') \<and> dt_addr (table s') i = Some d \<and>
    unat (device_count (table s')) = card (dom (dt_map (table s'))) mod 2 ^ 32"
proof -
  have inv: "reg_inv s" by (rule reg_inv_reach [OF assms(2,1)])
  have inv': "reg_inv s'" by (rule reg_inv_reach [OF rtranclp_trans [OF assms(2,3)] assms(1)])
  have "dt_addr (table s) i = Some d" using inv assms(4) by (simp add: reg_inv_def)
  then have "dt_addr (table s') i = Some d"
    using reg_steps_addr [OF assms(3)] inv by (simp add: reg_inv_def)
  moreover have "dt_addr (table s') i = Some d'" using inv' assms(5) by (simp add: reg_inv_def)
  ultimately show ?thesis using inv' dt_count_card by (simp add: reg_inv_def)
qed

text \<open>Two threads race: both miss, then both enter the write-locked section.\<close>

lemma race_run:
  "\<exists>s d. reg_step\<^sup>*\<^sup>* (reg_init empty_table) s \<and> threads s 0 = GDone 7 (Some d) \<and> threads s 1 = GDone 7 (Some d)"
proof -
  let ?t = "dt_init empty_table"
  have inv: "dt_invar ?t" "dt_map ?t = Map.empty"
    using dt_init_invar [of empty_table] by (simp_all add: empty_table_def dt_init_def)
  then have none: "dt_addr ?t 7 = None" by (simp add: dt_map_def fun_eq_iff)
  define st where "st = (\<lambda>t a b. \<lparr>table = t, threads = (\<lambda>_. GIdle)(0 := a, 1 := b)\<rparr>)"
  have st [simp]: "table (st t a b) = t" "threads (st t a b) 0 = a" "threads (st t a b) 1 = b"
    "(st t a b)\<lparr>threads := (threads (st t a b))(0 := c)\<rparr> = st t c b"
    "(st t a b)\<lparr>threads := (threads (st t a b))(1 := c)\<rparr> = st t a c"
    "(st t a b)\<lparr>table := t'\<rparr> = st t' a b" for t t' a b c
    by (simp_all add: st_def fun_upd_twist)
  define t1 where "t1 = dt_insert 1000 7 1 ?t"
  define fin where "fin = GDone 7 (Some (length (devices ?t)))"
  have t1: "dt_invar t1" "dt_addr t1 7 = Some (length (devices ?t))"
    using dt_insert_invar [OF inv(1) none] fun_cong [OF dt_insert_addr [OF inv(1) none, of 1000 1], of 7]
    by (simp_all add: t1_def)
  have "reg_init empty_table = st ?t GIdle GIdle" by (simp add: st_def reg_init_def fun_upd_idem)
  then have "reg_step (reg_init empty_table) (st ?t (GLookup 7 1) GIdle)"
    using reg_step.call [of "st ?t GIdle GIdle" 0 7 1] by (simp only: st) simp
  then have r1: "reg_step\<^sup>*\<^sup>* (reg_init empty_table) (st ?t (GLookup 7 1) GIdle)" by (rule r_into_rtranclp)
  have "reg_step (st ?t (GLookup 7 1) GIdle) (st ?t (GLookup 7 1) (GLookup 7 2))"
    using reg_step.call [of "st ?t (GLookup 7 1) GIdle" 1 7 2] by (simp only: st) simp
  with r1 have r2: "reg_step\<^sup>*\<^sup>* (reg_init empty_table) (st ?t (GLookup 7 1) (GLookup 7 2))"
    by (rule rtranclp.rtrancl_into_rtrancl)
  have "reg_step (st ?t (GLookup 7 1) (GLookup 7 2)) (st ?t (GMissed 7 1) (GLookup 7 2))"
    using reg_step.lookup_miss [of "st ?t (GLookup 7 1) (GLookup 7 2)" 0 7 1] inv none
    by (simp only: st find_locked_addr)
  with r2 have r3: "reg_step\<^sup>*\<^sup>* (reg_init empty_table) (st ?t (GMissed 7 1) (GLookup 7 2))"
    by (rule rtranclp.rtrancl_into_rtrancl)
  have "reg_step (st ?t (GMissed 7 1) (GLookup 7 2)) (st ?t (GMissed 7 1) (GMissed 7 2))"
    using reg_step.lookup_miss [of "st ?t (GMissed 7 1) (GLookup 7 2)" 1 7 2] inv none
    by (simp only: st find_locked_addr)
  with r3 have r4: "reg_step\<^sup>*\<^sup>* (reg_init empty_table) (st ?t (GMissed 7 1) (GMissed 7 2))"
    by (rule rtranclp.rtrancl_into_rtrancl)
  have "dt_create_locked True 1000 (dt_hash 7) 7 1 ?t = (Some (length (devices ?t)), t1)"
    using none by (simp add: dt_create_cases [OF inv(1)] t1_def)
  then have "reg_step (st ?t (GMissed 7 1) (GMissed 7 2)) (st t1 fin (GMissed 7 2))"
    using reg_step.create [of "st ?t (GMissed 7 1) (GMissed 7 2)" 0 7 1 True 1000]
    unfolding fin_def by (simp add: st_def fun_upd_twist)
  with r4 have r5: "reg_step\<^sup>*\<^sup>* (reg_init empty_table) (st t1 fin (GMissed 7 2))"
    by (rule rtranclp.rtrancl_into_rtrancl)
  have "dt_create_locked True 1001 (dt_hash 7) 7 2 t1 = (Some (length (devices ?t)), t1)"
    using t1 by (simp add: dt_create_cases)
  then have "reg_step (st t1 fin (GMissed 7 2)) (st t1 fin fin)"
    using reg_step.create [of "st t1 fin (GMissed 7 2)" 1 7 2 True 1001]
    unfolding fin_def by (simp add: st_def)
  with r5 have "reg_step\<^sup>*\<^sup>* (reg_init empty_table) (st t1 fin fin)"
    by (rule rtranclp.rtrancl_into_rtrancl)
  then show ?thesis unfolding fin_def using st(2,3) by blast
qed

theorem dt_concurrent_get_or_create_witness:
  "\<exists>s d. reg_step\<^sup>*\<^sup>* (reg_init empty_table) s \<and> threads s 0 = GDone 7 (Some d) \<and>
     threads s 1 = GDone 7 (Some d) \<and> dt_invar (table s)"
proof -
  obtain s d where s: "reg_step\<^sup>*\<^sup>* (reg_init empty_table) s" "threads s 0 = GDone 7 (Some d)"
    "threads s 1 = GDone 7 (Some d)" using race_run by blast
  have "devices empty_table = []" by (simp add: empty_table_def dt_init_def)
  from dt_concurrent_get_or_create [OF this s(1) rtranclp.rtrancl_refl s(2,3)] s show ?thesis by blast
qed

end
