(* ===== verification/Device_Fields_Conc.thy ===== *)
theory Device_Fields_Conc
  imports Device_Table
begin

text \<open>
  The fields of one device under concurrency. The code updates them through a stable pointer and
  without a lock, each by an atomic operation of its own; between two of them any other thread
  may run. Here one atomic load, store or increment is a step. A thread is the list of atomic
  operations of the calls it makes, a schedule names the thread that takes the next step.
\<close>

section \<open>The atomic operations\<close>

datatype field_op =
    StoreSeq u32 | StoreTemp i32 | StoreHumid i32 | StoreSeen int | StoreState dev_state
  | IncOk | IncBad | TestSilent int int

fun exec_op :: "field_op \<Rightarrow> device \<Rightarrow> device" where
  "exec_op (StoreSeq v) d = d\<lparr>last_seq := v\<rparr>"
| "exec_op (StoreTemp v) d = d\<lparr>last_temp := v\<rparr>"
| "exec_op (StoreHumid v) d = d\<lparr>last_humid := v\<rparr>"
| "exec_op (StoreSeen v) d = d\<lparr>last_seen := v\<rparr>"
| "exec_op (StoreState v) d = d\<lparr>dstate := v\<rparr>"
| "exec_op IncOk d = d\<lparr>packets_ok := packets_ok d + 1\<rparr>"
| "exec_op IncBad d = d\<lparr>packets_bad := packets_bad d + 1\<rparr>"
| "exec_op (TestSilent now timeout_s) d = d"

text \<open>What is left of a thread after an operation: a test that fails skips the operation it guards.\<close>

fun rest_after :: "field_op \<Rightarrow> device \<Rightarrow> field_op list \<Rightarrow> field_op list" where
  "rest_after (TestSilent now timeout_s) d ops = (if now - last_seen d > timeout_s then ops else tl ops)"
| "rest_after _ d ops = ops"

text \<open>The calls on a device, and the operations each of them consists of.\<close>

datatype dev_call = RecordSensor u32 i32 i32 int | RecordBad | Touch int | Sweep int int

fun call_ops :: "dev_call \<Rightarrow> field_op list" where
  "call_ops (RecordSensor sq temp humid now) =
     [StoreSeq sq, StoreTemp temp, StoreHumid humid, StoreSeen now, StoreState DEV_ONLINE, IncOk]"
| "call_ops RecordBad = [IncBad]"
| "call_ops (Touch now) = [StoreSeen now, StoreState DEV_ONLINE]"
| "call_ops (Sweep now timeout_s) = [TestSilent now timeout_s, StoreState DEV_OFFLINE]"

definition thread_ops :: "dev_call list \<Rightarrow> field_op list" where
  "thread_ops calls = concat (map call_ops calls)"

section \<open>Runs\<close>

text \<open>A turn given to a thread that has finished, or to none, does nothing.\<close>

definition field_step :: "nat \<Rightarrow> device \<times> field_op list list \<Rightarrow> device \<times> field_op list list" where
  "field_step k s =
     (case s of (d, ts) \<Rightarrow>
      if k < length ts then
        (case ts ! k of
           [] \<Rightarrow> (d, ts)
         | x # xs \<Rightarrow> (exec_op x d, ts[k := rest_after x d xs]))
      else (d, ts))"

fun field_run :: "nat list \<Rightarrow> device \<times> field_op list list \<Rightarrow> device \<times> field_op list list" where
  "field_run [] s = s"
| "field_run (k # ks) s = field_run ks (field_step k s)"

definition all_done :: "field_op list list \<Rightarrow> bool" where
  "all_done ts \<longleftrightarrow> (\<forall>t \<in> set ts. t = [])"

text \<open>One call without interruption.\<close>

fun run_alone :: "field_op list \<Rightarrow> device \<Rightarrow> device" where
  "run_alone [] d = d"
| "run_alone (x # xs) d =
     (case x of
        TestSilent now timeout_s \<Rightarrow>
          (if now - last_seen d > timeout_s then run_alone xs d
           else case xs of [] \<Rightarrow> d | _ # ys \<Rightarrow> run_alone ys d)
      | _ \<Rightarrow> run_alone xs (exec_op x d))"

section \<open>Lemmas\<close>

lemma field_run_append: "field_run (xs @ ys) s = field_run ys (field_run xs s)"
  by (induction xs arbitrary: s) simp_all

text \<open>A step takes one operation off one thread.\<close>

lemma field_step_cases:
  assumes "field_step k (d, ts) = (d', ts')"
  obtains "d' = d" and "ts' = ts"
  | x xs where "k < length ts" and "ts ! k = x # xs" and "d' = exec_op x d" and "ts' = ts[k := rest_after x d xs]"
  using assms by (auto simp: field_step_def split: if_splits list.splits)

text \<open>
  Uninterrupted, the operations of a call are the function of the sequential model, so the
  atomic operations refine the updates of \<open>Device_Table\<close>.
\<close>

lemma run_alone_calls:
  "d < length (devices t) \<Longrightarrow> devices (dt_record_sensor d sq temp humid now t) ! d =
     run_alone (call_ops (RecordSensor sq temp humid now)) (devices t ! d)"
  "d < length (devices t) \<Longrightarrow> devices (dt_record_bad (Some d) t) ! d = run_alone (call_ops RecordBad) (devices t ! d)"
  "sweep_device now timeout_s v = run_alone (call_ops (Sweep now timeout_s)) v"
  "run_alone (call_ops (Touch now)) v = v\<lparr>last_seen := now, dstate := DEV_ONLINE\<rparr>"
  by (simp_all add: dt_record_sensor_def dt_record_bad_def sweep_device_def Let_def)

text \<open>In a thread every test guards a store of the state, also after some of its operations.\<close>

fun guarded :: "field_op list \<Rightarrow> bool" where
  "guarded [] = True"
| "guarded (x # xs) =
     (case x of
        TestSilent _ _ \<Rightarrow> (case xs of StoreState _ # ys \<Rightarrow> guarded ys | _ \<Rightarrow> False)
      | _ \<Rightarrow> guarded xs)"

lemma guarded_call: "guarded (call_ops c @ ops) = guarded ops"
  by (cases c) simp_all

lemma guarded_thread: "guarded (thread_ops calls)"
  by (induction calls) (simp_all add: thread_ops_def guarded_call)

lemma guarded_test: "guarded (TestSilent now timeout_s # xs) \<Longrightarrow> \<exists>v ys. xs = StoreState v # ys \<and> guarded ys"
proof (cases xs)
  case (Cons y ys)
  assume "guarded (TestSilent now timeout_s # xs)"
  with Cons show ?thesis by (cases y) simp_all
qed simp

lemma guarded_rest:
  assumes "guarded (x # xs)"
  shows "guarded (rest_after x d xs)"
proof (cases x)
  case (TestSilent now timeout_s)
  with assms guarded_test [of now timeout_s xs] show ?thesis by auto
qed (use assms in simp_all)

text \<open>A skipped operation is a store of the state, so every other one is executed exactly once.\<close>

lemma rest_after_filter:
  assumes "guarded (x # xs)" and "\<And>v. \<not> P (StoreState v)"
  shows "filter P (rest_after x d xs) = filter P xs"
proof (cases x)
  case (TestSilent now timeout_s)
  with assms guarded_test [of now timeout_s xs] show ?thesis by auto
qed simp_all

text \<open>
  A count of operations that is the same in every state of a run: those executed, as the
  counter shows, and those still to come.
\<close>

definition to_come :: "field_op \<Rightarrow> field_op list list \<Rightarrow> nat" where
  "to_come x ts = sum_list (map (\<lambda>t. count_list t x) ts)"

lemma count_list_filter: "count_list xs x = length (filter (\<lambda>y. x = y) xs)"
  by (induction xs) simp_all

lemma to_come_update:
  assumes "k < length ts" and "count_list (ts ! k) x = n + count_list t x"
  shows "to_come x ts = n + to_come x (ts[k := t])"
  using assms sum_list_update [of k "map (\<lambda>t. count_list t x) ts" "count_list t x"]
    elem_le_sum_list [of k "map (\<lambda>t. count_list t x) ts"]
  by (simp add: to_come_def map_update)

lemma count_rest:
  assumes "guarded (x # xs)" and "\<And>v. y \<noteq> StoreState v"
  shows "count_list (x # xs) y = (if x = y then 1 else 0) + count_list (rest_after x d xs) y"
  using rest_after_filter [OF assms(1), of "\<lambda>z. y = z" d] assms(2) by (simp add: count_list_filter)

definition counters_ok :: "device \<Rightarrow> nat \<Rightarrow> nat \<Rightarrow> device \<times> field_op list list \<Rightarrow> bool" where
  "counters_ok d0 oks bads s \<longleftrightarrow> (\<forall>t \<in> set (snd s). guarded t) \<and>
     packets_ok (fst s) + of_nat (to_come IncOk (snd s)) = packets_ok d0 + of_nat oks \<and>
     packets_bad (fst s) + of_nat (to_come IncBad (snd s)) = packets_bad d0 + of_nat bads"

lemma counters_ok_step:
  assumes "counters_ok d0 oks bads s"
  shows "counters_ok d0 oks bads (field_step k s)"
proof -
  obtain d ts where s: "s = (d, ts)" by (cases s)
  obtain d' ts' where s': "field_step k (d, ts) = (d', ts')" by (cases "field_step k (d, ts)")
  from s' show ?thesis
  proof (cases rule: field_step_cases)
    case 1
    with assms s s' show ?thesis by simp
  next
    case (2 x xs)
    let ?t = "rest_after x d xs"
    have "ts ! k \<in> set ts" using 2(1) by (rule nth_mem)
    then have g: "guarded (x # xs)" using assms s 2(2) by (simp add: counters_ok_def del: guarded.simps)
    have cnt: "to_come y ts = (if x = y then 1 else 0) + to_come y ts'" if "\<And>v. y \<noteq> StoreState v" for y
      unfolding 2(4) by (rule to_come_update [OF 2(1)]) (use count_rest [OF g that] 2(2) in simp)
    have "guarded t" if "t \<in> set ts'" for t
      using that 2(4) guarded_rest [OF g] assms s set_update_subset_insert [of ts k ?t] by (auto simp: counters_ok_def)
    moreover have "packets_ok d' + of_nat (to_come IncOk ts') = packets_ok d + of_nat (to_come IncOk ts)"
      unfolding 2(3) by (subst cnt) (cases x; simp)+
    moreover have "packets_bad d' + of_nat (to_come IncBad ts') = packets_bad d + of_nat (to_come IncBad ts)"
      unfolding 2(3) by (subst cnt) (cases x; simp)+
    ultimately show ?thesis using assms s s' by (simp add: counters_ok_def)
  qed
qed

lemma counters_ok_run: "counters_ok d0 oks bads s \<Longrightarrow> counters_ok d0 oks bads (field_run ks s)"
  by (induction ks arbitrary: s) (simp_all add: counters_ok_step)

lemma to_come_done: "all_done ts \<Longrightarrow> to_come x ts = 0"
  by (auto simp: all_done_def to_come_def)

text \<open>The number of calls of a kind that a list of threads makes.\<close>

fun is_record :: "dev_call \<Rightarrow> bool" where
  "is_record (RecordSensor _ _ _ _) = True"
| "is_record _ = False"

lemma count_thread:
  "count_list (thread_ops calls) IncOk = length (filter is_record calls)"
  "count_list (thread_ops calls) IncBad = count_list calls RecordBad"
proof -
  have "count_list (call_ops c) IncOk = (if is_record c then 1 else 0)"
    "count_list (call_ops c) IncBad = (if c = RecordBad then 1 else 0)" for c
    by (cases c; simp)+
  then show "count_list (thread_ops calls) IncOk = length (filter is_record calls)"
    "count_list (thread_ops calls) IncBad = count_list calls RecordBad"
    by (induction calls) (simp_all add: thread_ops_def)
qed

lemma to_come_threads:
  "to_come IncOk (map thread_ops progs) = length (filter is_record (concat progs))"
  "to_come IncBad (map thread_ops progs) = count_list (concat progs) RecordBad"
  by (induction progs) (simp_all add: to_come_def count_thread)

section \<open>A field with one writer\<close>

text \<open>The value a list of operations leaves in a field that holds \<open>v\<close>; \<open>store\<close> is what an operation stores there.\<close>

fun last_stored :: "(field_op \<Rightarrow> 'a option) \<Rightarrow> field_op list \<Rightarrow> 'a \<Rightarrow> 'a" where
  "last_stored store [] v = v"
| "last_stored store (x # xs) v = last_stored store xs (case store x of None \<Rightarrow> v | Some u \<Rightarrow> u)"

definition owned :: "(field_op \<Rightarrow> 'a option) \<Rightarrow> (device \<Rightarrow> 'a) \<Rightarrow> nat \<Rightarrow> 'a \<Rightarrow> device \<times> field_op list list \<Rightarrow> bool" where
  "owned store get w v s \<longleftrightarrow> (\<forall>t \<in> set (snd s). guarded t) \<and> w < length (snd s) \<and>
     (\<forall>j < length (snd s). j \<noteq> w \<longrightarrow> (\<forall>x \<in> set (snd s ! j). store x = None)) \<and>
     last_stored store (snd s ! w) (get (fst s)) = v"

lemma rest_after_subset: "set (rest_after x d xs) \<subseteq> set xs"
  by (cases x; cases xs) auto

lemma last_stored_append: "last_stored store (xs @ ys) v = last_stored store ys (last_stored store xs v)"
  by (induction xs arbitrary: v) simp_all

locale stored_field =
  fixes get :: "device \<Rightarrow> 'a" and store :: "field_op \<Rightarrow> 'a option"
  assumes get_exec: "get (exec_op x d) = (case store x of None \<Rightarrow> get d | Some u \<Rightarrow> u)"
    and store_state: "store (StoreState v) = None"
begin

lemma last_stored_rest:
  assumes "guarded (x # xs)"
  shows "last_stored store (rest_after x d xs) v = last_stored store xs v"
proof (cases x)
  case (TestSilent now timeout_s)
  with assms guarded_test [of now timeout_s xs] show ?thesis by (auto simp: store_state)
qed simp_all

lemma owned_step:
  assumes "owned store get w v s"
  shows "owned store get w v (field_step k s)"
proof -
  obtain d ts where s: "s = (d, ts)" by (cases s)
  obtain d' ts' where s': "field_step k (d, ts) = (d', ts')" by (cases "field_step k (d, ts)")
  from s' show ?thesis
  proof (cases rule: field_step_cases)
    case 1
    with assms s s' show ?thesis by simp
  next
    case (2 x xs)
    let ?t = "rest_after x d xs"
    have own: "w < length ts" "\<And>j y. j < length ts \<Longrightarrow> j \<noteq> w \<Longrightarrow> y \<in> set (ts ! j) \<Longrightarrow> store y = None"
      "last_stored store (ts ! w) (get d) = v" using assms s by (auto simp: owned_def)
    have "ts ! k \<in> set ts" using 2(1) by (rule nth_mem)
    then have g: "guarded (x # xs)" using assms s 2(2) by (simp add: owned_def del: guarded.simps)
    have "guarded t" if "t \<in> set ts'" for t
      using that 2(4) guarded_rest [OF g] assms s set_update_subset_insert [of ts k ?t] by (auto simp: owned_def)
    moreover have "store y = None" if "j < length ts'" "j \<noteq> w" "y \<in> set (ts' ! j)" for j y
      using that own(2) [of j y] 2 rest_after_subset [of x d xs] by (auto simp: nth_list_update split: if_splits)
    moreover have "last_stored store (ts' ! w) (get d') = v"
      using own(2) [OF 2(1), of x] own(3) 2 last_stored_rest [OF g] by (cases "k = w") (simp_all add: get_exec)
    ultimately show ?thesis using own(1) s s' 2(4) by (simp add: owned_def)
  qed
qed

lemma owned_run: "owned store get w v s \<Longrightarrow> owned store get w v (field_run ks s)"
  by (induction ks arbitrary: s) (simp_all add: owned_step)

lemma owned_done:
  assumes "owned store get w v (d, ts)" and "all_done ts"
  shows "get d = v"
proof -
  have "ts ! w = []" using assms by (simp add: owned_def all_done_def)
  with assms(1) show ?thesis by (simp add: owned_def)
qed

text \<open>With one writer the field ends with the value of the writer's own last store, whatever the schedule.\<close>

lemma one_writer:
  assumes "field_run ks (d, map thread_ops progs) = (d', ts')" and "all_done ts'" and "w < length progs"
    and "\<And>j x. j < length progs \<Longrightarrow> j \<noteq> w \<Longrightarrow> x \<in> set (thread_ops (progs ! j)) \<Longrightarrow> store x = None"
  shows "get d' = last_stored store (thread_ops (progs ! w)) (get d)"
proof -
  have "owned store get w (last_stored store (thread_ops (progs ! w)) (get d)) (d, map thread_ops progs)"
    using assms(3,4) guarded_thread by (auto simp: owned_def)
  from owned_run [OF this, of ks] show ?thesis using owned_done assms(1,2) by simp
qed

end

text \<open>The three fields that hold the last reading.\<close>

fun seq_stored :: "field_op \<Rightarrow> u32 option" where
  "seq_stored (StoreSeq v) = Some v"
| "seq_stored _ = None"

fun temp_stored :: "field_op \<Rightarrow> i32 option" where
  "temp_stored (StoreTemp v) = Some v"
| "temp_stored _ = None"

fun humid_stored :: "field_op \<Rightarrow> i32 option" where
  "humid_stored (StoreHumid v) = Some v"
| "humid_stored _ = None"

lemma exec_op_fields:
  "last_seq (exec_op x d) = (case seq_stored x of None \<Rightarrow> last_seq d | Some u \<Rightarrow> u)"
  "last_temp (exec_op x d) = (case temp_stored x of None \<Rightarrow> last_temp d | Some u \<Rightarrow> u)"
  "last_humid (exec_op x d) = (case humid_stored x of None \<Rightarrow> last_humid d | Some u \<Rightarrow> u)"
  "dev_id (exec_op x d) = dev_id d"
  "session_id (exec_op x d) = session_id d"
  by (cases x; simp)+

interpretation seq_field: stored_field last_seq seq_stored
  by unfold_locales (simp_all add: exec_op_fields)

interpretation temp_field: stored_field last_temp temp_stored
  by unfold_locales (simp_all add: exec_op_fields)

interpretation humid_field: stored_field last_humid humid_stored
  by unfold_locales (simp_all add: exec_op_fields)

lemma field_run_ident: "field_run ks (d, ts) = (d', ts') \<Longrightarrow> dev_id d' = dev_id d \<and> session_id d' = session_id d"
proof (induction ks arbitrary: d ts)
  case (Cons k ks)
  obtain d1 ts1 where st: "field_step k (d, ts) = (d1, ts1)" by (cases "field_step k (d, ts)")
  have "dev_id d1 = dev_id d \<and> session_id d1 = session_id d"
    using st by (cases rule: field_step_cases) (simp_all add: exec_op_fields)
  with Cons.IH [of d1 ts1] Cons.prems st show ?case by simp
qed simp

text \<open>Threads that record no reading store none of the three fields.\<close>

lemma no_record_no_store:
  assumes "filter is_record calls = []" and "x \<in> set (thread_ops calls)"
  shows "seq_stored x = None" "temp_stored x = None" "humid_stored x = None"
proof -
  obtain c where c: "c \<in> set calls" "x \<in> set (call_ops c)" using assms(2) by (auto simp: thread_ops_def)
  with assms(1) have "\<not> is_record c" by (simp add: filter_empty_conv)
  with c(2) have "seq_stored x = None \<and> temp_stored x = None \<and> humid_stored x = None" by (cases c) auto
  then show "seq_stored x = None" "temp_stored x = None" "humid_stored x = None" by simp_all
qed

lemma last_stored_none: "(\<And>x. x \<in> set xs \<Longrightarrow> store x = None) \<Longrightarrow> last_stored store xs v = v"
  by (induction xs arbitrary: v) simp_all

lemma last_record_split:
  assumes "filter is_record calls = pre @ [r]"
  obtains us vs where "calls = us @ r # vs" and "filter is_record vs = []" and "is_record r"
proof -
  from assms have "filter is_record (rev calls) = r # rev pre" by (simp flip: rev_filter)
  then obtain us vs where "rev calls = us @ r # vs" "\<forall>x \<in> set us. \<not> is_record x" "is_record r"
    by (auto simp: filter_eq_Cons_iff)
  then have "calls = rev vs @ r # rev us" "filter is_record (rev us) = []"
    by (metis rev_append rev_rev_ident rev.simps(2) append.assoc append_Cons append_Nil, simp add: filter_empty_conv)
  with \<open>is_record r\<close> show thesis using that by blast
qed

lemma last_reading_stored:
  assumes "filter is_record calls = pre @ [RecordSensor sq temp humid now]"
  shows "last_stored seq_stored (thread_ops calls) a = sq" "last_stored temp_stored (thread_ops calls) b = temp"
    "last_stored humid_stored (thread_ops calls) c = humid"
proof -
  let ?r = "RecordSensor sq temp humid now"
  obtain us vs where calls: "calls = us @ ?r # vs" and none: "filter is_record vs = []"
    using last_record_split [OF assms] .
  have ops: "thread_ops calls = thread_ops us @ call_ops ?r @ thread_ops vs" by (simp add: calls thread_ops_def)
  note rest = last_stored_none [of "thread_ops vs"] no_record_no_store [OF none]
  show "last_stored seq_stored (thread_ops calls) a = sq" "last_stored temp_stored (thread_ops calls) b = temp"
    "last_stored humid_stored (thread_ops calls) c = humid"
    by (simp_all add: ops last_stored_append rest)
qed

section \<open>Properties\<close>

text \<open>
  C17. No update of a device is lost, for any number of threads making any calls on the same
  device under any schedule of their atomic operations: when all calls have returned, the two
  counters have grown by exactly the number of calls that count, the identity of the device is
  unchanged, and if one thread alone records readings, sequence number, temperature and humidity
  are together those of its last reading, whatever heartbeats and sweeps ran in between.
\<close>

theorem dt_no_lost_updates:
  assumes "field_run sched (d, map thread_ops progs) = (d', ts')" and "all_done ts'"
  shows "packets_ok d' = packets_ok d + of_nat (length (filter is_record (concat progs))) \<and>
    packets_bad d' = packets_bad d + of_nat (count_list (concat progs) RecordBad) \<and>
    dev_id d' = dev_id d \<and> session_id d' = session_id d \<and>
    (\<forall>w pre sq temp humid now. w < length progs \<and> filter is_record (progs ! w) = pre @ [RecordSensor sq temp humid now] \<and>
       (\<forall>j < length progs. j \<noteq> w \<longrightarrow> filter is_record (progs ! j) = []) \<longrightarrow>
       last_seq d' = sq \<and> last_temp d' = temp \<and> last_humid d' = humid)"
proof -
  have "counters_ok d (length (filter is_record (concat progs))) (count_list (concat progs) RecordBad) (d, map thread_ops progs)"
    using guarded_thread by (auto simp: counters_ok_def to_come_threads)
  from counters_ok_run [OF this, of sched]
  have "packets_ok d' = packets_ok d + of_nat (length (filter is_record (concat progs)))"
    "packets_bad d' = packets_bad d + of_nat (count_list (concat progs) RecordBad)"
    by (simp_all add: counters_ok_def assms to_come_done)
  moreover have "last_seq d' = sq \<and> last_temp d' = temp \<and> last_humid d' = humid"
    if w: "w < length progs" "filter is_record (progs ! w) = pre @ [RecordSensor sq temp humid now]"
      and others: "\<And>j. j < length progs \<Longrightarrow> j \<noteq> w \<Longrightarrow> filter is_record (progs ! j) = []" for w pre sq temp humid now
    using seq_field.one_writer [OF assms w(1)] temp_field.one_writer [OF assms w(1)] humid_field.one_writer [OF assms w(1)]
      no_record_no_store [OF others] last_reading_stored [OF w(2)] by simp
  ultimately show ?thesis using field_run_ident [OF assms(1)] by blast
qed

text \<open>A worker, the UDP listener and the reaper at the same device, their operations interleaved.\<close>

definition demo_threads :: "dev_call list list" where
  "demo_threads = [[RecordSensor 1 2500 5000 1000, RecordSensor 2 2600 5100 1002], [Touch 1001, RecordBad], [Sweep 1030 15]]"

definition demo_schedule :: "nat list" where
  "demo_schedule = [0, 0, 2, 1, 0, 0, 1, 0, 2, 0, 1, 0, 0, 0, 0, 0, 0]"

lemma demo_threads_run:
  "all_done (snd (field_run demo_schedule (new_device 900 7 1, map thread_ops demo_threads)))"
  by (simp add: demo_schedule_def demo_threads_def thread_ops_def new_device_def field_step_def all_done_def)

theorem dt_no_lost_updates_witness:
  "packets_ok (fst (field_run demo_schedule (new_device 900 7 1, map thread_ops demo_threads))) = 2 \<and>
   packets_bad (fst (field_run demo_schedule (new_device 900 7 1, map thread_ops demo_threads))) = 1 \<and>
   last_seq (fst (field_run demo_schedule (new_device 900 7 1, map thread_ops demo_threads))) = 2"
proof -
  let ?r = "field_run demo_schedule (new_device 900 7 1, map thread_ops demo_threads)"
  have "?r = (fst ?r, snd ?r)" by simp
  note all = dt_no_lost_updates [OF this demo_threads_run]
  have cnt: "length (filter is_record (concat demo_threads)) = 2" "count_list (concat demo_threads) RecordBad = 1"
    by (simp_all add: demo_threads_def)
  have sums: "packets_ok (fst ?r) = 2" "packets_bad (fst ?r) = 1"
    using conjunct1 [OF all] conjunct1 [OF conjunct2 [OF all]] unfolding cnt by (simp_all add: new_device_def)
  have own: "\<And>w pre sq temp humid now. w < length demo_threads \<Longrightarrow>
      filter is_record (demo_threads ! w) = pre @ [RecordSensor sq temp humid now] \<Longrightarrow>
      (\<forall>j < length demo_threads. j \<noteq> w \<longrightarrow> filter is_record (demo_threads ! j) = []) \<Longrightarrow> last_seq (fst ?r) = sq"
    using all by blast
  have "last_seq (fst ?r) = 2"
    by (rule own [of 0 "[RecordSensor 1 2500 5000 1000]" 2 2600 5100 1002])
      (auto simp: demo_threads_def less_Suc_eq nth_Cons')
  with sums show ?thesis by simp
qed

text \<open>
  C39. What the separate atomic operations do not give. The sweep's test and its store are two
  steps: a device that has been silent and reports just between them ends OFFLINE although its
  time stamp is fresh, while in either order without interleaving it ends ONLINE. And two
  connections of the same device can leave the sequence number of one reading beside the
  temperature and humidity of the other.
\<close>

theorem dt_field_races:
  assumes "now - last_seen d > timeout_s" and "now - seen \<le> timeout_s"
  shows "(\<exists>sched d' ts'. field_run sched (d, map thread_ops [[Sweep now timeout_s], [RecordSensor sq temp humid seen]]) = (d', ts') \<and>
      all_done ts' \<and> last_seen d' = seen \<and> dstate d' = DEV_OFFLINE) \<and>
    dstate (run_alone (thread_ops [Sweep now timeout_s, RecordSensor sq temp humid seen]) d) = DEV_ONLINE \<and>
    dstate (run_alone (thread_ops [RecordSensor sq temp humid seen, Sweep now timeout_s]) d) = DEV_ONLINE \<and>
    (\<exists>sched d' ts'. field_run sched (d, map thread_ops [[RecordSensor sq temp humid seen], [RecordSensor sq2 temp2 humid2 seen2]]) = (d', ts') \<and>
      all_done ts' \<and> last_seq d' = sq2 \<and> last_temp d' = temp \<and> last_humid d' = humid)"
proof -
  let ?a = "field_run [0, 1, 1, 1, 1, 1, 1, 0] (d, map thread_ops [[Sweep now timeout_s], [RecordSensor sq temp humid seen]])"
  let ?b = "field_run [0, 1, 1, 1, 1, 1, 1, 0, 0, 0, 0, 0]
    (d, map thread_ops [[RecordSensor sq temp humid seen], [RecordSensor sq2 temp2 humid2 seen2]])"
  have "?a = (fst ?a, snd ?a)" "all_done (snd ?a)" "last_seen (fst ?a) = seen" "dstate (fst ?a) = DEV_OFFLINE"
    using assms by (simp_all add: thread_ops_def field_step_def all_done_def)
  moreover have "?b = (fst ?b, snd ?b)" "all_done (snd ?b)" "last_seq (fst ?b) = sq2" "last_temp (fst ?b) = temp" "last_humid (fst ?b) = humid"
    by (simp_all add: thread_ops_def field_step_def all_done_def)
  moreover have "dstate (run_alone (thread_ops [Sweep now timeout_s, RecordSensor sq temp humid seen]) d) = DEV_ONLINE"
    "dstate (run_alone (thread_ops [RecordSensor sq temp humid seen, Sweep now timeout_s]) d) = DEV_ONLINE"
    using assms by (simp_all add: thread_ops_def)
  ultimately show ?thesis by blast
qed

theorem dt_field_races_witness:
  "\<exists>sched d' ts'. field_run sched (new_device 900 7 1, map thread_ops [[Sweep 1000 15], [RecordSensor 1 2500 5000 999]]) = (d', ts') \<and>
     all_done ts' \<and> last_seen d' = 999 \<and> dstate d' = DEV_OFFLINE"
  using dt_field_races [of 15 1000 "new_device 900 7 1" 999] by (simp add: new_device_def)

end
