(* ===== verification/Image.thy ===== *)
theory Image
  imports Prelude
begin

text \<open>
  \<^verbatim>\<open>imaging/image.c\<close>: 8-bit grayscale images, row-major, and the test pattern. The nested pixel
  loops of this library are the function \<open>fill_rect\<close>; its pixel-wise meaning is proved once and
  used for the pattern and for the filters.
\<close>

section \<open>Images\<close>

text \<open>\<open>pix = None\<close> is the NULL pointer.\<close>

record image =
  img_w :: int
  img_h :: int
  pix :: "u8 list option"

definition IMAGE_MAX_PIXELS :: int where
  "IMAGE_MAX_PIXELS = 2 ^ 22"

definition image_alloc :: "bool \<Rightarrow> image \<Rightarrow> int \<Rightarrow> int \<Rightarrow> int \<times> image" where
  "image_alloc calloc_ok img w h =
     (if w \<le> 0 \<or> h \<le> 0 then (-1, img)
      else if w * h > IMAGE_MAX_PIXELS then (-1, img)
      else let img1 = img\<lparr>img_w := w, img_h := h, pix := (if calloc_ok then Some (replicate (nat w * nat h) 0) else None)\<rparr>
           in if pix img1 \<noteq> None then (0, img1) else (-1, img1))"

definition image_free :: "image \<Rightarrow> image" where
  "image_free img = img\<lparr>pix := None, img_w := 0, img_h := 0\<rparr>"

definition image_size :: "image \<Rightarrow> nat" where
  "image_size img = nat (img_w img) * nat (img_h img)"

lemma image_alloc_ok:
  "0 < a \<Longrightarrow> 0 < b \<Longrightarrow> a * b \<le> 4194304 \<Longrightarrow> image_alloc True img (int a) (int b) =
    (0, img\<lparr>img_w := int a, img_h := int b, pix := Some (replicate (a * b) 0)\<rparr>)"
  by (simp add: image_alloc_def IMAGE_MAX_PIXELS_def flip: of_nat_mult)

text \<open>An image as the callers keep it: positive sides, the cap, and one byte per pixel.\<close>

definition image_ok :: "image \<Rightarrow> bool" where
  "image_ok img \<longleftrightarrow> 0 < img_w img \<and> 0 < img_h img \<and> img_w img * img_h img \<le> IMAGE_MAX_PIXELS \<and>
     (\<exists>p. pix img = Some p \<and> length p = image_size img)"

section \<open>Pixel loops\<close>

text \<open>\<^verbatim>\<open>for y in ys: for x in xs: p[y * w + x] = f(x, y)\<close>\<close>

definition fill_rect :: "nat \<Rightarrow> nat list \<Rightarrow> nat list \<Rightarrow> (nat \<Rightarrow> nat \<Rightarrow> u8) \<Rightarrow> u8 list \<Rightarrow> u8 list" where
  "fill_rect w xs ys f p = fold (\<lambda>y p. fold (\<lambda>x p. p[y * w + x := f x y]) xs p) ys p"

lemma index_inj:
  assumes "x < w" and "x' < w"
  shows "y * w + x = y' * w + x' \<longleftrightarrow> x = x' \<and> y = (y'::nat)"
proof
  assume eq: "y * w + x = y' * w + x'"
  have "(y * w + x) div w = y" "(y' * w + x') div w = y'" "(y * w + x) mod w = x" "(y' * w + x') mod w = x'"
    using assms by simp_all
  with eq show "x = x' \<and> y = y'" by metis
qed simp

lemma index_less:
  assumes "x < w" and "y < (h::nat)"
  shows "y * w + x < w * h"
proof -
  have "y * w + x < Suc y * w" using assms(1) by simp
  also have "\<dots> \<le> h * w" using assms(2) by (intro mult_le_mono1) simp
  finally show ?thesis by (simp add: mult.commute)
qed

lemma length_row [simp]: "length (fold (\<lambda>x p. p[y * w + x := f x y]) xs p) = length p"
  by (induction xs arbitrary: p) simp_all

lemma length_fill_rect [simp]: "length (fill_rect w xs ys f p) = length p"
  unfolding fill_rect_def by (induction ys arbitrary: p) simp_all

lemma nth_row:
  assumes "set xs \<subseteq> {..<w}" and "x < w" and "y' * w + x < length p"
  shows "fold (\<lambda>x p. p[y * w + x := f x y]) xs p ! (y' * w + x) =
    (if y' = y \<and> x \<in> set xs then f x y else p ! (y' * w + x))"
  using assms
proof (induction xs arbitrary: p)
  case (Cons a xs)
  then have "a < w" by simp
  with Cons.prems have "p[y * w + a := f a y] ! (y' * w + x) = (if y' = y \<and> x = a then f a y else p ! (y' * w + x))"
    using index_inj [of a w x y y'] by (auto simp: nth_list_update)
  with Cons show ?case by auto
qed simp

lemma nth_fill_rect:
  assumes "set xs \<subseteq> {..<w}" and "x < w" and "y * w + x < length p"
  shows "fill_rect w xs ys f p ! (y * w + x) = (if x \<in> set xs \<and> y \<in> set ys then f x y else p ! (y * w + x))"
  using assms(3) unfolding fill_rect_def
proof (induction ys arbitrary: p)
  case (Cons b ys)
  then show ?case by (auto simp: nth_row [OF assms(1,2)])
qed simp

text \<open>A loop over the whole image computes every pixel from its coordinates.\<close>

lemma fill_rect_all:
  assumes "length p = w * h" and "0 < w"
  shows "fill_rect w [0..<w] [0..<h] f p = map (\<lambda>i. f (i mod w) (i div w)) [0..<w * h]"
proof (rule nth_equalityI)
  fix i assume "i < length (fill_rect w [0..<w] [0..<h] f p)"
  then have i: "i < w * h" using assms(1) by simp
  have "i div w < h" using i by (simp add: less_mult_imp_div_less mult.commute)
  moreover have "i mod w < w" "i div w * w + i mod w = i" using assms(2) by simp_all
  ultimately show "fill_rect w [0..<w] [0..<h] f p ! i = map (\<lambda>i. f (i mod w) (i div w)) [0..<w * h] ! i"
    using nth_fill_rect [of "[0..<w]" w "i mod w" "i div w" p "[0..<h]" f] i assms(1)
    by (simp add: atLeast0LessThan)
qed (simp add: assms)

section \<open>The test pattern\<close>

definition gradient :: "nat \<Rightarrow> nat \<Rightarrow> u8" where
  "gradient w x = of_nat ((x * 255) div (if w > 1 then w - 1 else 1))"

definition diagonal_step :: "nat \<Rightarrow> nat \<Rightarrow> nat \<Rightarrow> u8 list \<Rightarrow> u8 list" where
  "diagonal_step w h t q =
     (let x = (int w - 1) - int t; y = t in
      if x \<ge> 0 \<and> x < int w \<and> y < h then q[y * w + nat x := 20] else q)"

definition image_test_pattern :: "image \<Rightarrow> image" where
  "image_test_pattern img =
     (case pix img of
        None \<Rightarrow> img
      | Some p \<Rightarrow>
          let w = nat (img_w img); h = nat (img_h img);
              p1 = fill_rect w [0..<w] [0..<h] (\<lambda>x y. gradient w x) p;
              bx0 = w div 4; bx1 = w div 2; by0 = h div 4; by1 = (3 * h) div 4;
              p2 = fill_rect w [bx0..<bx1] [by0..<by1] (\<lambda>x y. 230) p1;
              p3 = fold (diagonal_step w h) [0..<(if w < h then w else h)] p2
          in img\<lparr>pix := Some p3\<rparr>)"

text \<open>The colour of a pixel of the pattern, directly.\<close>

definition pattern_at :: "nat \<Rightarrow> nat \<Rightarrow> nat \<Rightarrow> nat \<Rightarrow> u8" where
  "pattern_at w h x y =
     (if x + y = w - 1 then 20
      else if w div 4 \<le> x \<and> x < w div 2 \<and> h div 4 \<le> y \<and> y < (3 * h) div 4 then 230
      else gradient w x)"

lemma diagonal_step_eq: "t < w \<Longrightarrow> t < h \<Longrightarrow> diagonal_step w h t q = q[t * w + (w - 1 - t) := 20]"
  by (simp add: diagonal_step_def Let_def nat_diff_distrib' of_nat_diff flip: of_nat_diff)

lemma length_diagonal [simp]: "length (fold (diagonal_step w h) ts q) = length q"
  by (induction ts arbitrary: q) (simp_all add: diagonal_step_def Let_def)

lemma nth_diagonal:
  assumes "x < w" and "y * w + x < length q" and "k \<le> w" and "k \<le> h"
  shows "fold (diagonal_step w h) [0..<k] q ! (y * w + x) =
    (if x + y = w - 1 \<and> y < k then 20 else q ! (y * w + x))"
  using assms(3,4)
proof (induction k)
  case (Suc k)
  let ?q = "fold (diagonal_step w h) [0..<k] q"
  have "fold (diagonal_step w h) [0..<Suc k] q = ?q[k * w + (w - 1 - k) := 20]"
    using Suc.prems by (simp add: diagonal_step_eq)
  moreover have "w - 1 - k < w" using Suc.prems by simp
  then have "?q[k * w + (w - 1 - k) := 20] ! (y * w + x) =
      (if x = w - 1 - k \<and> y = k then 20 else ?q ! (y * w + x))"
    using assms(1,2) index_inj [of "w - 1 - k" w x k y] by (auto simp: nth_list_update)
  ultimately show ?case using Suc by auto
qed simp

text \<open>
  The three loops of \<^verbatim>\<open>image_test_pattern\<close> draw exactly the gradient, the box over it and the
  diagonal over both, at every pixel and within the buffer.
\<close>

lemma image_test_pattern_pixels:
  assumes "image_ok img" and "x < nat (img_w img)" and "y < nat (img_h img)"
  shows "\<exists>p. pix (image_test_pattern img) = Some p \<and> length p = image_size img \<and>
    p ! (y * nat (img_w img) + x) = pattern_at (nat (img_w img)) (nat (img_h img)) x y"
proof -
  obtain p where p: "pix img = Some p" "length p = image_size img" using assms(1) by (auto simp: image_ok_def)
  let ?w = "nat (img_w img)" and ?h = "nat (img_h img)"
  have idx: "y * ?w + x < length p" using index_less [OF assms(2,3)] p by (simp add: image_size_def)
  have "?w div 2 \<le> ?w" by simp
  then have box: "set [?w div 4..<?w div 2] \<subseteq> {..<?w}" by auto
  let ?k = "if ?w < ?h then ?w else ?h"
  have diag: "x + y = ?w - 1 \<and> y < ?k \<longleftrightarrow> x + y = ?w - 1" using assms(2,3) by auto
  have "(if a < b then a else b) \<le> a" "(if a < b then a else b) \<le> b" for a b :: nat by simp_all
  then have k: "?k \<le> ?w" "?k \<le> ?h" by blast+
  define p1 where "p1 = fill_rect ?w [0..<?w] [0..<?h] (\<lambda>x y. gradient ?w x) p"
  define p2 where "p2 = fill_rect ?w [?w div 4..<?w div 2] [?h div 4..<(3 * ?h) div 4] (\<lambda>x y. 230) p1"
  have "pix (image_test_pattern img) = Some (fold (diagonal_step ?w ?h) [0..<?k] p2)"
    by (simp add: image_test_pattern_def p(1) p1_def p2_def Let_def)
  moreover have "p1 ! (y * ?w + x) = gradient ?w x"
    unfolding p1_def using assms(2,3) idx by (subst nth_fill_rect) auto
  then have "p2 ! (y * ?w + x) = (if x \<in> set [?w div 4..<?w div 2] \<and> y \<in> set [?h div 4..<(3 * ?h) div 4] then 230 else gradient ?w x)"
    unfolding p2_def using nth_fill_rect [OF box assms(2)] idx by (simp add: p1_def)
  moreover have "fold (diagonal_step ?w ?h) [0..<?k] p2 ! (y * ?w + x) =
      (if x + y = ?w - 1 then 20 else p2 ! (y * ?w + x))"
    using nth_diagonal [OF assms(2) _ k, of y p2] idx by (simp only: diag) (simp add: p1_def p2_def)
  ultimately show ?thesis by (simp add: pattern_at_def p(2) p1_def p2_def)
qed

definition sample_image :: image where
  "sample_image = \<lparr>img_w = 3, img_h = 2, pix = Some [10, 20, 30, 40, 50, 60]\<rparr>"

lemma sample_image_ok: "image_ok sample_image"
  by (simp add: sample_image_def image_ok_def image_size_def IMAGE_MAX_PIXELS_def)

end
