(* ===== verification/Convolve.thy ===== *)
theory Convolve
  imports Image Complex_Main "HOL-Library.Signed_Division"
begin

text \<open>
  \<^verbatim>\<open>imaging/convolve.c\<close>: 3x3 filters with clamped borders and the Sobel operator. C's \<^verbatim>\<open>int\<close> is
  the integers here: with 8-bit samples and the kernels of the file every sum stays far below
  \<open>2\<^sup>3\<^sup>1\<close>. \<^verbatim>\<open>lround(sqrt(n))\<close> is computed on integers; that it is the nearest integer to the
  real square root is proved.
\<close>

section \<open>Kernels and samples\<close>

definition K_IDENTITY :: "int list" where
  "K_IDENTITY = [0, 0, 0, 0, 1, 0, 0, 0, 0]"

definition K_BLUR :: "int list" where
  "K_BLUR = [1, 1, 1, 1, 1, 1, 1, 1, 1]"

definition K_SHARPEN :: "int list" where
  "K_SHARPEN = [0, -1, 0, -1, 5, -1, 0, -1, 0]"

definition SOBEL_X :: "int list" where
  "SOBEL_X = [-1, 0, 1, -2, 0, 2, -1, 0, 1]"

definition SOBEL_Y :: "int list" where
  "SOBEL_Y = [-1, -2, -1, 0, 0, 0, 1, 2, 1]"

definition clampi :: "int \<Rightarrow> int \<Rightarrow> int \<Rightarrow> int" where
  "clampi v lo hi = (if v < lo then lo else if v > hi then hi else v)"

text \<open>\<^verbatim>\<open>at\<close>, on an image whose pixels are \<open>p\<close>.\<close>

definition at_px :: "image \<Rightarrow> u8 list \<Rightarrow> int \<Rightarrow> int \<Rightarrow> int" where
  "at_px im p x y =
     (let x = clampi x 0 (img_w im - 1); y = clampi y 0 (img_h im - 1)
      in uint (p ! (nat y * nat (img_w im) + nat x)))"

section \<open>The filters\<close>

text \<open>The \<^verbatim>\<open>dy\<close>/\<^verbatim>\<open>dx\<close> double loop with the running kernel index \<^verbatim>\<open>ki\<close>.\<close>

definition offsets :: "(int \<times> int) list" where
  "offsets = [(dx, dy). dy \<leftarrow> [-1, 0, 1], dx \<leftarrow> [-1, 0, 1]]"

definition conv_acc :: "int list \<Rightarrow> image \<Rightarrow> u8 list \<Rightarrow> int \<Rightarrow> int \<Rightarrow> int" where
  "conv_acc kern im p x y =
     fst (fold (\<lambda>(dx, dy) (acc, ki). (acc + kern ! ki * at_px im p (x + dx) (y + dy), ki + 1)) offsets (0, 0))"

definition conv3x3 :: "image \<Rightarrow> image \<Rightarrow> int list \<Rightarrow> int \<Rightarrow> int \<Rightarrow> int \<times> image" where
  "conv3x3 im out kern dv bias =
     (case (pix im, pix out) of
        (Some p, Some q) \<Rightarrow>
          if img_w im \<noteq> img_w out \<or> img_h im \<noteq> img_h out \<or> dv = 0 then (-1, out)
          else (0, out\<lparr>pix := Some (fill_rect (nat (img_w im)) [0..<nat (img_w im)] [0..<nat (img_h im)]
                  (\<lambda>x y. of_int (clampi (conv_acc kern im p (int x) (int y) sdiv dv + bias) 0 255)) q)\<rparr>)
      | _ \<Rightarrow> (-1, out))"

text \<open>Integer square root, and its rounding to the nearest integer.\<close>

fun isqrt :: "nat \<Rightarrow> nat" where
  "isqrt n = (if n = 0 then 0
     else let r = 2 * isqrt (n div 4) in if (r + 1) * (r + 1) \<le> n then r + 1 else r)"

declare isqrt.simps [simp del]

definition lround_sqrt :: "nat \<Rightarrow> nat" where
  "lround_sqrt n = (let s = isqrt n in if s * s + s < n then s + 1 else s)"

definition sobel_mag :: "image \<Rightarrow> u8 list \<Rightarrow> int \<Rightarrow> int \<Rightarrow> int" where
  "sobel_mag im p x y =
     (let gx = conv_acc SOBEL_X im p x y; gy = conv_acc SOBEL_Y im p x y
      in int (lround_sqrt (nat (gx * gx + gy * gy))))"

definition sobel :: "image \<Rightarrow> image \<Rightarrow> int \<times> image" where
  "sobel im out =
     (case (pix im, pix out) of
        (Some p, Some q) \<Rightarrow>
          if img_w im \<noteq> img_w out \<or> img_h im \<noteq> img_h out then (-1, out)
          else (0, out\<lparr>pix := Some (fill_rect (nat (img_w im)) [0..<nat (img_w im)] [0..<nat (img_h im)]
                  (\<lambda>x y. of_int (clampi (sobel_mag im p (int x) (int y)) 0 255)) q)\<rparr>)
      | _ \<Rightarrow> (-1, out))"

section \<open>Lemmas\<close>

lemma isqrt_bounds: "isqrt n * isqrt n \<le> n \<and> n < (isqrt n + 1) * (isqrt n + 1)"
proof (induction n rule: isqrt.induct)
  case (1 n)
  show ?case
  proof (cases "n = 0")
    case True
    then show ?thesis by (simp add: isqrt.simps [of 0])
  next
    case False
    let ?s = "isqrt (n div 4)"
    have "?s * ?s \<le> n div 4" "n div 4 < (?s + 1) * (?s + 1)" using 1 [OF False] by simp_all
    then have "4 * (?s * ?s) \<le> n" "n < 4 * ((?s + 1) * (?s + 1))" by linarith+
    then have "(2 * ?s) * (2 * ?s) \<le> n" "n < (2 * ?s + 2) * (2 * ?s + 2)" by (simp_all add: algebra_simps)
    then show ?thesis using False by (simp add: isqrt.simps [of n] Let_def)
  qed
qed

lemma lround_sqrt_0 [simp]: "lround_sqrt 0 = 0"
  by (simp add: lround_sqrt_def isqrt.simps [of 0])

lemma lround_sqrt_bounds:
  assumes "n \<noteq> 0"
  shows "lround_sqrt n * lround_sqrt n + 1 \<le> n + lround_sqrt n"
    and "n \<le> lround_sqrt n * lround_sqrt n + lround_sqrt n"
  using isqrt_bounds [of n] assms
  by (auto simp: lround_sqrt_def Let_def algebra_simps) (cases "isqrt n"; simp)

text \<open>\<^verbatim>\<open>lround(sqrt(n))\<close>: half a unit around the result contains the real square root.\<close>

lemma lround_sqrt_real: "\<bar>sqrt (real n) - real (lround_sqrt n)\<bar> < 1 / 2"
proof (cases "n = 0")
  case False
  let ?k = "real (lround_sqrt n)"
  have "?k * ?k + 1 \<le> real n + ?k"
    using lround_sqrt_bounds(1) [OF False] by (metis of_nat_1 of_nat_add of_nat_le_iff of_nat_mult)
  then have "(?k - 1 / 2)\<^sup>2 < real n" by (simp add: power2_eq_square algebra_simps)
  then have low: "?k - 1 / 2 < sqrt (real n)" by (rule real_less_rsqrt)
  have "real n \<le> ?k * ?k + ?k"
    using lround_sqrt_bounds(2) [OF False] by (metis of_nat_add of_nat_le_iff of_nat_mult)
  then have "real n < (?k + 1 / 2)\<^sup>2" by (simp add: power2_eq_square algebra_simps)
  then have "sqrt (real n) < ?k + 1 / 2" by (intro real_less_lsqrt) simp_all
  with low show ?thesis by linarith
qed simp

lemma offsets_eq: "offsets = [(-1, -1), (0, -1), (1, -1), (-1, 0), (0, 0), (1, 0), (-1, 1), (0, 1), (1, 1)]"
  by (simp add: offsets_def)

lemma sum_9: "(\<Sum>i<9. f i) = f 0 + f 1 + f 2 + f 3 + f 4 + f 5 + f 6 + f 7 + (f 8 :: int)" for f :: "nat \<Rightarrow> int"
  by (simp add: eval_nat_numeral)

lemma conv_acc_expand:
  "conv_acc kern im p x y =
     kern ! 0 * at_px im p (x - 1) (y - 1) + kern ! 1 * at_px im p x (y - 1) + kern ! 2 * at_px im p (1 + x) (y - 1) +
     kern ! 3 * at_px im p (x - 1) y + kern ! 4 * at_px im p x y + kern ! 5 * at_px im p (1 + x) y +
     kern ! 6 * at_px im p (x - 1) (1 + y) + kern ! 7 * at_px im p x (1 + y) + kern ! 8 * at_px im p (1 + x) (1 + y)"
  unfolding add.commute [of 1 x] add.commute [of 1 y]
  by (simp add: conv_acc_def offsets_eq eval_nat_numeral)

text \<open>The accumulator as a sum over the nine neighbours.\<close>

lemma conv_acc_sum:
  "conv_acc kern im p x y =
    (\<Sum>i<9. kern ! i * at_px im p (x + int (i mod 3) - 1) (y + int (i div 3) - 1))"
  by (simp add: conv_acc_expand sum_9)

lemma clampi_id: "lo \<le> v \<Longrightarrow> v \<le> hi \<Longrightarrow> clampi v lo hi = v"
  by (simp add: clampi_def)

lemma clampi_bounds: "lo \<le> hi \<Longrightarrow> lo \<le> clampi v lo hi \<and> clampi v lo hi \<le> hi"
  by (simp add: clampi_def)

lemma at_px_in: "0 \<le> x \<Longrightarrow> x < img_w im \<Longrightarrow> 0 \<le> y \<Longrightarrow> y < img_h im \<Longrightarrow>
   at_px im p x y = uint (p ! (nat y * nat (img_w im) + nat x))"
  by (simp add: at_px_def clampi_id)

text \<open>A sample is always a pixel of the image, whatever the coordinates.\<close>

lemma at_px_pixel:
  assumes "0 < img_w im" and "0 < img_h im" and "length p = nat (img_w im) * nat (img_h im)"
  shows "\<exists>v \<in> set p. at_px im p x y = uint v"
proof -
  let ?x = "clampi x 0 (img_w im - 1)" and ?y = "clampi y 0 (img_h im - 1)"
  have "0 \<le> ?x \<and> ?x \<le> img_w im - 1" "0 \<le> ?y \<and> ?y \<le> img_h im - 1"
    using assms by (intro clampi_bounds; simp)+
  then have "nat ?x < nat (img_w im)" "nat ?y < nat (img_h im)" by linarith+
  then have "nat ?y * nat (img_w im) + nat ?x < length p" using index_less assms(3) by simp
  then have "p ! (nat ?y * nat (img_w im) + nat ?x) \<in> set p" by (rule nth_mem)
  then show ?thesis unfolding at_px_def Let_def by blast
qed

lemma image_ok_pix: "image_ok im \<Longrightarrow> \<exists>p. pix im = Some p \<and> length p = nat (img_w im) * nat (img_h im) \<and> 0 < img_w im \<and> 0 < img_h im"
  by (auto simp: image_ok_def image_size_def)

lemma uint_clamp_byte: "uint (of_int (clampi v 0 255) :: u8) = clampi v 0 255"
proof -
  have "0 \<le> clampi v 0 255" "clampi v 0 255 < 256" using clampi_bounds [of 0 255 v] by simp_all
  then show ?thesis by (simp add: uint_word_of_int)
qed

lemma nth_filter:
  assumes "x < nat (img_w im)" and "y < nat (img_h im)" and "length q = nat (img_w im) * nat (img_h im)"
  shows "fill_rect (nat (img_w im)) [0..<nat (img_w im)] [0..<nat (img_h im)] f q ! (y * nat (img_w im) + x) = f x y"
  using assms index_less [OF assms(1,2)] by (subst nth_fill_rect) auto

section \<open>Properties\<close>


lemma at_px_bounds:
  assumes "image_ok im" and "pix im = Some p" and "\<And>v. v \<in> set p \<Longrightarrow> lo \<le> uint v \<and> uint v \<le> hi"
  shows "lo \<le> at_px im p x y" and "at_px im p x y \<le> hi"
  using at_px_pixel [of im p x y] image_ok_pix [OF assms(1)] assms(2,3) by auto

lemma conv_identity_acc: "conv_acc K_IDENTITY im p x y sdiv 1 + 0 = at_px im p x y"
  by (simp add: conv_acc_expand K_IDENTITY_def)

lemma conv_blur_acc:
  assumes "image_ok im" and "pix im = Some p" and "\<And>v. v \<in> set p \<Longrightarrow> lo \<le> uint v \<and> uint v \<le> hi"
  shows "lo \<le> conv_acc K_BLUR im p x y sdiv 9 + 0 \<and> conv_acc K_BLUR im p x y sdiv 9 + 0 \<le> hi"
proof -
  note b = at_px_bounds [OF assms]
  have pos: "0 \<le> at_px im p u v" for u v by (simp add: at_px_def Let_def)
  have "0 \<le> conv_acc K_BLUR im p x y" by (simp add: conv_acc_expand K_BLUR_def pos)
  then have "conv_acc K_BLUR im p x y sdiv 9 = conv_acc K_BLUR im p x y div 9"
    by (cases "conv_acc K_BLUR im p x y = 0") (simp_all add: signed_divide_int_def)
  moreover have "9 * lo \<le> conv_acc K_BLUR im p x y" "conv_acc K_BLUR im p x y \<le> 9 * hi"
    using b [of "x - 1" "y - 1"] b [of x "y - 1"] b [of "1 + x" "y - 1"] b [of "x - 1" y] b [of x y] b [of "1 + x" y]
      b [of "x - 1" "1 + y"] b [of x "1 + y"] b [of "1 + x" "1 + y"]
    by (simp_all add: conv_acc_expand K_BLUR_def)
  ultimately show ?thesis by linarith
qed

lemma uint_byte: "0 \<le> uint (v :: u8) \<and> uint v \<le> 255"
  using uint_bounded [of v] by simp

text \<open>
  The named kernels do what they are for: the identity kernel copies the image, and every
  blurred pixel lies between the smallest and the largest pixel of the input.
\<close>

lemma named_kernels:
  assumes "image_ok im" and "image_ok out" and "img_w im = img_w out" and "img_h im = img_h out"
    and "pix im = Some p" and "\<And>v. v \<in> set p \<Longrightarrow> lo \<le> uint v \<and> uint v \<le> hi"
  shows "conv3x3 im out K_IDENTITY 1 0 = (0, out\<lparr>pix := Some p\<rparr>) \<and>
    (\<exists>q. conv3x3 im out K_BLUR 9 0 = (0, out\<lparr>pix := Some q\<rparr>) \<and> length q = length p \<and>
      (\<forall>v. v \<in> set q \<longrightarrow> lo \<le> uint v \<and> uint v \<le> hi))"
proof -
  let ?w = "nat (img_w im)" and ?h = "nat (img_h im)"
  have p: "length p = ?w * ?h" "0 < ?w" "0 < img_w im" "0 < img_h im"
    using image_ok_pix [OF assms(1)] assms(5) by auto
  obtain q where q: "pix out = Some q" "length q = ?w * ?h"
    using image_ok_pix [OF assms(2)] assms(3,4) by auto
  have conv: "conv3x3 im out kern dv 0 = (0, out\<lparr>pix := Some (map (\<lambda>i. of_int (clampi
      (conv_acc kern im p (int (i mod ?w)) (int (i div ?w)) sdiv dv + 0) 0 255)) [0..<?w * ?h])\<rparr>)"
    if "dv \<noteq> 0" for kern dv
    using that assms(3,4) q p(1,2) fill_rect_all [OF q(2) p(2)] by (simp add: conv3x3_def assms(5) cong: map_cong)
  have "map (\<lambda>i. of_int (clampi (conv_acc K_IDENTITY im p (int (i mod ?w)) (int (i div ?w)) sdiv 1 + 0) 0 255))
      [0..<?w * ?h] = p"
  proof (rule nth_equalityI)
    fix i assume "i < length (map (\<lambda>i. of_int (clampi (conv_acc K_IDENTITY im p (int (i mod ?w)) (int (i div ?w)) sdiv 1 + 0) 0 255) :: u8) [0..<?w * ?h])"
    then have i: "i < ?w * ?h" by simp
    have "int (i div ?w) < img_h im" "int (i mod ?w) < img_w im"
      using less_mult_imp_div_less [of i ?h ?w] mod_less_divisor [OF p(2), of i] i by (simp_all add: mult.commute)
    then have "at_px im p (int (i mod ?w)) (int (i div ?w)) = uint (p ! i)"
      by (simp add: at_px_in)
    then show "map (\<lambda>i. of_int (clampi (conv_acc K_IDENTITY im p (int (i mod ?w)) (int (i div ?w)) sdiv 1 + 0) 0 255)) [0..<?w * ?h] ! i = p ! i"
      using i uint_byte [of "p ! i"] by (simp only: conv_identity_acc nth_map_upt) (simp add: clampi_id)
  qed (simp add: p(1))
  then have ident: "conv3x3 im out K_IDENTITY 1 0 = (0, out\<lparr>pix := Some p\<rparr>)" using conv [of 1] by simp
  let ?b = "map (\<lambda>i. of_int (clampi (conv_acc K_BLUR im p (int (i mod ?w)) (int (i div ?w)) sdiv 9 + 0) 0 255) :: u8) [0..<?w * ?h]"
  have "lo \<le> uint v \<and> uint v \<le> hi"
    if "v \<in> set (map (\<lambda>i. of_int (clampi (conv_acc K_BLUR im p (int (i mod ?w)) (int (i div ?w)) sdiv 9 + 0) 0 255)) [0..<?w * ?h])" for v :: u8
  proof -
    from that obtain x y where v: "v = of_int (clampi (conv_acc K_BLUR im p x y sdiv 9 + 0) 0 255)" by auto
    have "clampi (conv_acc K_BLUR im p x y sdiv 9 + 0) 0 255 = conv_acc K_BLUR im p x y sdiv 9 + 0"
      using conv_blur_acc [OF assms(1,5) uint_byte] by (intro clampi_id) blast+
    then show ?thesis
      unfolding v uint_clamp_byte using conv_blur_acc [OF assms(1,5,6)] by simp
  qed
  moreover have "conv3x3 im out K_BLUR 9 0 = (0, out\<lparr>pix := Some ?b\<rparr>)" by (rule conv) simp
  moreover have "length ?b = length p" by (simp add: p(1))
  ultimately show ?thesis using ident by blast
qed

text \<open>
  C29. \<^verbatim>\<open>sobel\<close> writes at every pixel the integer nearest to the Euclidean norm of the two gradients,
  capped at 255.
\<close>

theorem sobel_pixels:
  assumes "image_ok im" and "image_ok out" and "img_w im = img_w out" and "img_h im = img_h out"
    and "pix im = Some p" and "x < nat (img_w im)" and "y < nat (img_h im)"
  shows "\<exists>q k. sobel im out = (0, out\<lparr>pix := Some q\<rparr>) \<and> length q = image_size im \<and>
    \<bar>sqrt (real_of_int ((conv_acc SOBEL_X im p (int x) (int y))\<^sup>2 + (conv_acc SOBEL_Y im p (int x) (int y))\<^sup>2)) - real k\<bar> < 1 / 2 \<and>
    uint (q ! (y * nat (img_w im) + x)) = min (int k) 255"
proof -
  obtain q where q: "pix out = Some q" "length q = nat (img_w im) * nat (img_h im)"
    using image_ok_pix [OF assms(2)] assms(3,4) by auto
  let ?gx = "conv_acc SOBEL_X im p (int x) (int y)" and ?gy = "conv_acc SOBEL_Y im p (int x) (int y)"
  let ?n = "nat (?gx * ?gx + ?gy * ?gy)"
  have "real ?n = real_of_int (?gx\<^sup>2 + ?gy\<^sup>2)" by (simp add: power2_eq_square)
  then have near: "\<bar>sqrt (real_of_int (?gx\<^sup>2 + ?gy\<^sup>2)) - real (lround_sqrt ?n)\<bar> < 1 / 2"
    using lround_sqrt_real [of ?n] by simp
  let ?q = "fill_rect (nat (img_w im)) [0..<nat (img_w im)] [0..<nat (img_h im)]
    (\<lambda>x y. of_int (clampi (sobel_mag im p (int x) (int y)) 0 255)) q"
  have "uint (?q ! (y * nat (img_w im) + x)) = clampi (int (lround_sqrt ?n)) 0 255"
    using nth_filter [OF assms(6,7) q(2)] by (simp add: uint_clamp_byte sobel_mag_def Let_def)
  then have "uint (?q ! (y * nat (img_w im) + x)) = min (int (lround_sqrt ?n)) 255"
    by (simp add: clampi_def min_def)
  moreover have "sobel im out = (0, out\<lparr>pix := Some ?q\<rparr>)"
    using assms(3,4) q(1) by (simp add: sobel_def assms(5))
  moreover have "length ?q = image_size im" by (simp add: q(2) image_size_def)
  ultimately show ?thesis using near by blast
qed

section \<open>Witnesses\<close>

definition blank_image :: image where
  "blank_image = \<lparr>img_w = 3, img_h = 2, pix = Some [0, 0, 0, 0, 0, 0]\<rparr>"

lemma blank_image_ok: "image_ok blank_image"
  by (simp add: blank_image_def image_ok_def image_size_def IMAGE_MAX_PIXELS_def)

lemma sample_dims:
  "img_w sample_image = 3" "img_h sample_image = 2" "img_w blank_image = 3" "img_h blank_image = 2"
  "pix sample_image = Some [10, 20, 30, 40, 50, 60]" "pix blank_image = Some [0, 0, 0, 0, 0, 0]"
  by (simp_all add: sample_image_def blank_image_def)


theorem sobel_pixels_witness:
  "\<exists>q k. sobel sample_image blank_image = (0, blank_image\<lparr>pix := Some q\<rparr>) \<and> uint (q ! 1) = min (int k) 255"
  using sobel_pixels [OF sample_image_ok blank_image_ok, of "[10, 20, 30, 40, 50, 60]" 1 0]
  by (auto simp: sample_dims)

end
