(* ===== verification/Frame.thy ===== *)
theory Frame
  imports Fw_Telemetry Image
begin

text \<open>
  \<^verbatim>\<open>imaging/frame.c\<close>: a grayscale frame cut into chunks of at most 1024 bytes, one PKT_FRAME each,
  and the reassembler that puts them together again. Shown: the chunk packets are what the
  server's \<^verbatim>\<open>pl_build\<close> would produce; whatever payload arrives, the reassembler stays within its
  buffers; and the chunks of an image, in any order and with repetitions, give the image back.
\<close>

section \<open>Building a chunk\<close>

definition FRAME_CHUNK_MAX :: nat where
  "FRAME_CHUNK_MAX = 1024"

definition FRAME_MAX_PIXELS :: u32 where
  "FRAME_MAX_PIXELS = push_bit 22 1"

definition frame_chunk_build ::
  "u8 list \<Rightarrow> nat \<Rightarrow> u32 \<Rightarrow> u16 \<Rightarrow> u16 \<Rightarrow> u32 \<Rightarrow> u16 \<Rightarrow> u16 \<Rightarrow> u8 list \<Rightarrow> u16 \<Rightarrow> nat \<times> u8 list" where
  "frame_chunk_build out cap dev width height frame_sq chunk_idx chunk_cnt chunk chunk_len =
     (if unat chunk_len > FRAME_CHUNK_MAX then (0, out)
      else let plen = 12 + chunk_len in
        if cap < PL_HDR_SIZE + unat plen then (0, out)
        else
          let p = PL_HDR_SIZE;
              o1 = put_u16 out (p + 0) width;
              o2 = put_u16 o1 (p + 2) height;
              o3 = put_u32 o2 (p + 4) frame_sq;
              o4 = put_u16 o3 (p + 8) chunk_idx;
              o5 = put_u16 o4 (p + 10) chunk_cnt;
              o6 = memcpy_at o5 (p + 12) (take (unat chunk_len) chunk);
              ck = pl_checksum (drop p o6) (unat plen);
              o7 = put_u16 o6 0 PL_MAGIC;
              o8 = put_u8 o7 2 PL_VERSION;
              o9 = put_u8 o8 3 (pkt_code PKT_FRAME);
              o10 = put_u32 o9 4 dev;
              o11 = put_u16 o10 8 plen;
              o12 = put_u16 o11 10 ck
          in (PL_HDR_SIZE + unat plen, o12))"

definition frame_chunk_count :: "u32 \<Rightarrow> u16" where
  "frame_chunk_count n = ucast ((n + of_nat FRAME_CHUNK_MAX - 1) div of_nat FRAME_CHUNK_MAX)"

section \<open>The reassembler\<close>

record frame_asm =
  fa_active :: bool
  fa_width :: u16
  fa_height :: u16
  fa_chunk_count :: u16
  fa_received :: u16
  fa_seq :: u32
  fa_total :: u32
  fa_buf :: "u8 list option"
  fa_seen :: "u8 list option"

definition frame_asm_init :: frame_asm where
  "frame_asm_init = \<lparr>fa_active = False, fa_width = 0, fa_height = 0, fa_chunk_count = 0, fa_received = 0,
     fa_seq = 0, fa_total = 0, fa_buf = None, fa_seen = None\<rparr>"

text \<open>Frees both buffers and zeroes the rest.\<close>

definition frame_asm_reset :: "frame_asm \<Rightarrow> frame_asm" where
  "frame_asm_reset fa = frame_asm_init"

text \<open>The fields of a chunk that passes the checks of \<^verbatim>\<open>frame_asm_feed\<close>.\<close>

record chunk_info =
  ci_width :: u16
  ci_height :: u16
  ci_seq :: u32
  ci_idx :: u16
  ci_count :: u16
  ci_total :: u32
  ci_off :: u32
  ci_bytes :: "u8 list"

definition frame_check :: "u8 list \<Rightarrow> u16 \<Rightarrow> chunk_info option" where
  "frame_check payload payload_len =
     (if payload_len < 12 then None
      else
        let width = rd_u16 payload 0; height = rd_u16 payload 2; fseq = rd_u32 payload 4;
            cidx = rd_u16 payload 8; ccount = rd_u16 payload 10;
            chunk_len = payload_len - 12
        in if width = 0 \<or> height = 0 \<or> ccount = 0 then None
           else let total = ucast width * ucast height :: u32 in
             if total > FRAME_MAX_PIXELS then None
             else if frame_chunk_count total \<noteq> ccount then None
             else if cidx \<ge> ccount then None
             else let off = ucast cidx * of_nat FRAME_CHUNK_MAX :: u32 in
               if off \<ge> total then None
               else let expect = (if total - off > of_nat FRAME_CHUNK_MAX then of_nat FRAME_CHUNK_MAX else total - off) in
                 if ucast chunk_len \<noteq> expect then None
                 else Some \<lparr>ci_width = width, ci_height = height, ci_seq = fseq, ci_idx = cidx, ci_count = ccount,
                            ci_total = total, ci_off = off, ci_bytes = take (unat chunk_len) (drop 12 payload)\<rparr>)"

text \<open>
  Start or restart a frame when idle or when the identity changed. \<open>malloc n\<close> is the block
  \<^verbatim>\<open>malloc\<close> returns (its contents are whatever was there), \<open>calloc_ok\<close> whether \<^verbatim>\<open>calloc\<close>
  succeeds; \<open>None\<close> for the out-of-memory return.
\<close>

definition frame_start :: "(nat \<Rightarrow> u8 list option) \<Rightarrow> bool \<Rightarrow> chunk_info \<Rightarrow> frame_asm \<Rightarrow> frame_asm option" where
  "frame_start malloc calloc_ok c fa =
     (if \<not> fa_active fa \<or> fa_seq fa \<noteq> ci_seq c \<or> fa_width fa \<noteq> ci_width c \<or> fa_height fa \<noteq> ci_height c then
        (case malloc (unat (ci_total c)) of
           Some b \<Rightarrow>
             if calloc_ok then
               Some \<lparr>fa_active = True, fa_width = ci_width c, fa_height = ci_height c,
                     fa_chunk_count = ci_count c, fa_received = 0, fa_seq = ci_seq c, fa_total = ci_total c,
                     fa_buf = Some b, fa_seen = Some (replicate (unat (ci_count c)) 0)\<rparr>
             else None
         | None \<Rightarrow> None)
      else Some fa)"

text \<open>Mark the chunk and copy it.\<close>

definition frame_store :: "chunk_info \<Rightarrow> frame_asm \<Rightarrow> frame_asm" where
  "frame_store c fa =
     (let i = unat (ci_idx c);
          fa1 = (case fa_seen fa of
                   Some seen \<Rightarrow> if seen ! i = 0 then fa\<lparr>fa_seen := Some (seen[i := 1]), fa_received := fa_received fa + 1\<rparr> else fa
                 | None \<Rightarrow> fa)
      in fa1\<lparr>fa_buf := map_option (\<lambda>b. memcpy_at b (unat (ci_off c)) (ci_bytes c)) (fa_buf fa1)\<rparr>)"

text \<open>Returns the C result, the reassembler and the output image (\<open>calloc_img\<close>: its allocation).\<close>

definition frame_asm_feed ::
  "(nat \<Rightarrow> u8 list option) \<Rightarrow> bool \<Rightarrow> bool \<Rightarrow> u8 list \<Rightarrow> u16 \<Rightarrow> frame_asm \<times> image \<Rightarrow> int \<times> frame_asm \<times> image" where
  "frame_asm_feed malloc calloc_ok calloc_img payload payload_len st =
     (case st of (fa, out) \<Rightarrow>
      case frame_check payload payload_len of
        None \<Rightarrow> (-1, fa, out)
      | Some c \<Rightarrow>
          (case frame_start malloc calloc_ok c fa of
             None \<Rightarrow> (-1, frame_asm_reset fa, out)
           | Some fa1 \<Rightarrow>
               let fa2 = frame_store c fa1 in
               if fa_received fa2 = fa_chunk_count fa2 then
                 (case image_alloc calloc_img out (int (unat (ci_width c))) (int (unat (ci_height c))) of
                    (rc, out1) \<Rightarrow>
                      if rc \<noteq> 0 then (-1, frame_asm_reset fa2, out1)
                      else (1, frame_asm_reset fa2,
                            out1\<lparr>pix := map_option (\<lambda>q. memcpy_at q 0 (take (unat (ci_total c)) (the (fa_buf fa2)))) (pix out1)\<rparr>))
               else (0, fa2, out)))"

section \<open>Arithmetic of chunks\<close>

lemma unat_total: "unat (ucast (w::u16) * ucast (h::u16) :: u32) = unat w * unat h"
proof -
  have "unat w * unat h \<le> 65535 * 65535"
    using unat_u16_less [of w] unat_u16_less [of h] by (intro mult_le_mono) simp_all
  then show ?thesis by (simp add: unat_word_ariths unat_bytes)
qed

lemma unat_chunk_count:
  assumes "unat n \<le> 4194304"
  shows "unat (frame_chunk_count n) = (unat n + 1023) div 1024"
proof -
  have "unat (n + 1024 - 1) = unat n + 1023"
  proof -
    have "n + 1024 - 1 = n + 1023" by simp
    then show ?thesis using assms by (simp only: unat_word_ariths) simp
  qed
  moreover have "(unat n + 1023) div 1024 < 65536" using assms by simp
  ultimately show ?thesis
    by (simp add: frame_chunk_count_def FRAME_CHUNK_MAX_def unat_div_distrib unsigned_ucast_eq take_bit_nat_eq_self)
qed

lemma frame_max_pixels: "n \<le> FRAME_MAX_PIXELS \<longleftrightarrow> unat n \<le> 4194304"
  by (simp add: FRAME_MAX_PIXELS_def word_le_nat_alt)

definition chunk_fits :: "chunk_info \<Rightarrow> bool" where
  "chunk_fits c \<longleftrightarrow> unat (ci_total c) = unat (ci_width c) * unat (ci_height c) \<and>
     0 < unat (ci_width c) \<and> 0 < unat (ci_height c) \<and> unat (ci_total c) \<le> 4194304 \<and>
     unat (ci_count c) = (unat (ci_total c) + 1023) div 1024 \<and> unat (ci_idx c) < unat (ci_count c) \<and>
     unat (ci_off c) = 1024 * unat (ci_idx c) \<and> unat (ci_off c) < unat (ci_total c) \<and>
     length (ci_bytes c) = min 1024 (unat (ci_total c) - unat (ci_off c))"

lemma chunk_fits_bounds:
  assumes "chunk_fits c"
  shows "unat (ci_off c) + length (ci_bytes c) \<le> unat (ci_total c)" and "unat (ci_idx c) < unat (ci_count c)"
    and "0 < unat (ci_count c)"
  using assms by (auto simp: chunk_fits_def min_def)

lemma unat_off: "unat (ucast (i::u16) * 1024 :: u32) = 1024 * unat i"
proof -
  have "unat i * 1024 < 4294967296" using unat_u16_less [of i] by simp
  then show ?thesis by (simp add: unat_word_ariths unat_bytes)
qed

lemma frame_check_fits:
  assumes "frame_check payload len = Some c" and "unat len \<le> length payload"
  shows "chunk_fits c"
proof -
  let ?w = "rd_u16 payload 0" and ?h = "rd_u16 payload 2" and ?i = "rd_u16 payload 8" and ?n = "rd_u16 payload 10"
  let ?t = "ucast ?w * ucast ?h :: u32" and ?o = "ucast ?i * 1024 :: u32"
  let ?e = "if ?t - ?o > 1024 then 1024 else ?t - ?o"
  from assms(1) have g: "\<not> len < 12" "?w \<noteq> 0" "?h \<noteq> 0" "?t \<le> FRAME_MAX_PIXELS" "frame_chunk_count ?t = ?n"
      "?i < ?n" "?o < ?t" "ucast (len - 12) = ?e"
    and c: "c = \<lparr>ci_width = ?w, ci_height = ?h, ci_seq = rd_u32 payload 4, ci_idx = ?i, ci_count = ?n, ci_total = ?t,
      ci_off = ?o, ci_bytes = take (unat (len - 12)) (drop 12 payload)\<rparr>"
    by (simp_all add: frame_check_def FRAME_CHUNK_MAX_def Let_def split: if_split_asm)
  have t: "unat ?t \<le> 4194304" using g(4) by (simp add: frame_max_pixels)
  have lt: "unat ?o < unat ?t" using g(7) by (simp add: word_less_nat_alt)
  have diff: "unat (?t - ?o) = unat ?t - unat ?o" using g(7) by (intro unat_sub) simp
  have len: "unat (len - 12) = unat len - 12" using g(1) by (subst unat_sub) (simp_all add: not_less)
  have "unat (ucast (len - 12) :: u32) = unat ?e" by (simp only: g(8))
  then have "unat (len - 12) = min 1024 (unat ?t - unat ?o)"
    by (simp add: unat_bytes diff min_def word_less_nat_alt split: if_splits)
  moreover have "length (ci_bytes c) = unat (len - 12)" using assms(2) len by (simp add: c)
  moreover have "0 < unat ?w" "0 < unat ?h" using g(2,3) by (simp_all add: unat_gt_0)
  ultimately show ?thesis
    using g t lt unat_chunk_count [OF t]
    by (simp add: chunk_fits_def c unat_total unat_off word_less_nat_alt)
qed

section \<open>The reassembler stays within its buffers\<close>

text \<open>An active reassembler holds a buffer of the frame's size and one flag per chunk.\<close>

definition fa_ok :: "frame_asm \<Rightarrow> bool" where
  "fa_ok fa \<longleftrightarrow> fa = frame_asm_init \<or>
     (fa_active fa \<and> 0 < unat (fa_width fa) \<and> 0 < unat (fa_height fa) \<and>
      unat (fa_total fa) = unat (fa_width fa) * unat (fa_height fa) \<and> unat (fa_total fa) \<le> 4194304 \<and>
      unat (fa_chunk_count fa) = (unat (fa_total fa) + 1023) div 1024 \<and>
      (\<exists>b s. fa_buf fa = Some b \<and> length b = unat (fa_total fa) \<and>
             fa_seen fa = Some s \<and> length s = unat (fa_chunk_count fa) \<and>
             unat (fa_received fa) = length (filter (\<lambda>v. v \<noteq> 0) s) \<and> unat (fa_received fa) < unat (fa_chunk_count fa)))"

text \<open>The state just before a chunk is stored: as \<open>fa_ok\<close>, for the chunk's own frame.\<close>

definition fa_for :: "chunk_info \<Rightarrow> frame_asm \<Rightarrow> bool" where
  "fa_for c fa \<longleftrightarrow> fa_active fa \<and> fa_ok fa \<and> fa_seq fa = ci_seq c \<and> fa_width fa = ci_width c \<and>
     fa_height fa = ci_height c \<and> fa_total fa = ci_total c \<and> fa_chunk_count fa = ci_count c"

lemma word_eq_unat: "unat a = unat b \<Longrightarrow> a = b"
  by (simp add: word_unat_eq_iff)

lemma frame_start_for:
  assumes "fa_ok fa" and "chunk_fits c" and "frame_start malloc calloc_ok c fa = Some fa1"
    and "\<And>n b. malloc n = Some b \<Longrightarrow> length b = n"
  shows "fa_for c fa1"
proof (cases "\<not> fa_active fa \<or> fa_seq fa \<noteq> ci_seq c \<or> fa_width fa \<noteq> ci_width c \<or> fa_height fa \<noteq> ci_height c")
  case True
  with assms(3) obtain b where b: "malloc (unat (ci_total c)) = Some b"
    and fa1: "fa1 = \<lparr>fa_active = True, fa_width = ci_width c, fa_height = ci_height c,
      fa_chunk_count = ci_count c, fa_received = 0, fa_seq = ci_seq c, fa_total = ci_total c,
      fa_buf = Some b, fa_seen = Some (replicate (unat (ci_count c)) 0)\<rparr>"
    by (auto simp: frame_start_def split: option.splits if_splits)
  have "filter (\<lambda>v. v \<noteq> 0) (replicate n (0::u8)) = []" for n by (simp add: filter_empty_conv)
  with assms(2) assms(4) [OF b] chunk_fits_bounds(3) [OF assms(2)] show ?thesis
    unfolding fa1 fa_for_def fa_ok_def chunk_fits_def by simp
next
  case False
  with assms(3) have fa1: "fa1 = fa" by (simp add: frame_start_def)
  have "unat (fa_total fa) = unat (ci_total c)" "unat (fa_chunk_count fa) = unat (ci_count c)"
    using False assms(1,2) by (auto simp: fa_ok_def chunk_fits_def frame_asm_init_def)
  with False assms(1) show ?thesis by (simp add: fa1 fa_for_def word_eq_unat)
qed

lemma filter_mark:
  "i < length s \<Longrightarrow> length (filter (\<lambda>v. v \<noteq> 0) (s[i := 1 :: u8])) =
     (if s ! i = 0 then Suc (length (filter (\<lambda>v. v \<noteq> 0) s)) else length (filter (\<lambda>v. v \<noteq> 0) s))"
proof (induction s arbitrary: i)
  case (Cons v s)
  then show ?case by (cases i) auto
qed simp

text \<open>After the store: same buffers, same sizes, and the count is the number of flags set.\<close>

lemma frame_store_sizes:
  assumes "fa_for c fa" and "chunk_fits c"
  shows "\<exists>b s. fa_buf (frame_store c fa) = Some b \<and> length b = unat (ci_total c) \<and>
    fa_seen (frame_store c fa) = Some s \<and> length s = unat (ci_count c) \<and>
    unat (fa_received (frame_store c fa)) = length (filter (\<lambda>v. v \<noteq> 0) s) \<and>
    fa_active (frame_store c fa) \<and> fa_width (frame_store c fa) = ci_width c \<and> fa_height (frame_store c fa) = ci_height c \<and>
    fa_seq (frame_store c fa) = ci_seq c \<and> fa_total (frame_store c fa) = ci_total c \<and>
    fa_chunk_count (frame_store c fa) = ci_count c \<and>
    unat (ci_off c) + length (ci_bytes c) \<le> length (the (fa_buf fa)) \<and> unat (ci_idx c) < length (the (fa_seen fa))"
proof -
  have "fa \<noteq> frame_asm_init" using assms(1) by (auto simp: fa_for_def frame_asm_init_def)
  with assms(1) obtain b s where bs: "fa_buf fa = Some b" "length b = unat (ci_total c)"
      "fa_seen fa = Some s" "length s = unat (ci_count c)"
      "unat (fa_received fa) = length (filter (\<lambda>v. v \<noteq> 0) s)" "unat (fa_received fa) < unat (ci_count c)"
    by (auto simp: fa_for_def fa_ok_def)
  have off: "unat (ci_off c) + length (ci_bytes c) \<le> length b" and idx: "unat (ci_idx c) < length s"
    using chunk_fits_bounds [OF assms(2)] bs by simp_all
  have "unat (fa_received fa + 1) = unat (fa_received fa) + 1"
    using bs(6) unat_u16_less [of "ci_count c"] by (simp add: unat_word_ariths)
  then show ?thesis
    using assms(1) bs off idx filter_mark [OF idx]
    by (cases "s ! unat (ci_idx c) = 0") (auto simp: frame_store_def Let_def fa_for_def)
qed

lemma frame_feed_ok:
  assumes "fa_ok fa" and "unat len \<le> length payload" and "\<And>n b. malloc n = Some b \<Longrightarrow> length b = n"
    and "frame_asm_feed malloc calloc_ok calloc_img payload len (fa, out) = (rc, fa', out')"
  shows "fa_ok fa' \<and> rc \<in> {-1, 0, 1}"
proof (cases "frame_check payload len")
  case None
  with assms show ?thesis by (simp add: frame_asm_feed_def)
next
  case (Some c)
  have fits: "chunk_fits c" by (rule frame_check_fits [OF Some assms(2)])
  have init: "fa_ok frame_asm_init" by (simp add: fa_ok_def)
  show ?thesis
  proof (cases "frame_start malloc calloc_ok c fa")
    case None
    with Some assms(4) init show ?thesis by (auto simp: frame_asm_feed_def frame_asm_reset_def)
  next
    case (Some fa1)
    let ?f = "frame_store c fa1"
    obtain b s where st: "fa_buf ?f = Some b" "length b = unat (ci_total c)" "fa_seen ?f = Some s"
      "length s = unat (ci_count c)" "unat (fa_received ?f) = length (filter (\<lambda>v. v \<noteq> 0) s)" "fa_active ?f"
      "fa_width ?f = ci_width c" "fa_height ?f = ci_height c" "fa_total ?f = ci_total c" "fa_chunk_count ?f = ci_count c"
      using frame_store_sizes [OF frame_start_for [OF assms(1) fits Some assms(3)] fits] by auto
    have "fa_ok ?f" if "fa_received ?f \<noteq> fa_chunk_count ?f"
    proof -
      have "unat (fa_received ?f) \<noteq> unat (ci_count c)" using that st(10) word_eq_unat by auto
      moreover have "unat (fa_received ?f) \<le> unat (ci_count c)" using st(4,5) length_filter_le [of _ s] by metis
      ultimately show ?thesis using st fits by (auto simp: fa_ok_def chunk_fits_def)
    qed
    with \<open>frame_check payload len = Some c\<close> Some assms(4) init show ?thesis
      by (auto simp: frame_asm_feed_def frame_asm_reset_def Let_def split: if_splits prod.splits)
  qed
qed

section \<open>Chunk packets\<close>

definition frame_payload :: "u16 \<Rightarrow> u16 \<Rightarrow> u32 \<Rightarrow> u16 \<Rightarrow> u16 \<Rightarrow> u8 list \<Rightarrow> u8 list" where
  "frame_payload w h fseq idx cnt bytes = mem_u16 BigEndian w @ mem_u16 BigEndian h @ mem_u32 BigEndian fseq @
     mem_u16 BigEndian idx @ mem_u16 BigEndian cnt @ bytes"

lemma length_frame_payload [simp]: "length (frame_payload w h fseq idx cnt bytes) = 12 + length bytes"
  by (simp add: frame_payload_def)

lemma frame_chunk_build_packet:
  assumes "length chunk = unat len" and "unat len \<le> 1024" and "24 + unat len \<le> cap" and "cap \<le> length out"
  shows "frame_chunk_build out cap dev w h fseq idx cnt chunk len =
    (24 + unat len, wire_packet PKT_FRAME dev (frame_payload w h fseq idx cnt chunk) @ drop (24 + unat len) out)"
proof -
  have plen: "unat (12 + len) = 12 + unat len" using assms(2) by (simp add: unat_word_ariths)
  have plen': "12 + len = of_nat (12 + unat len)" by (simp add: word_unat_eq_iff plen unat_of_nat_small)
  obtain pre post where out: "out = pre @ post" "length pre = PL_HDR_SIZE" "drop PL_HDR_SIZE out = post"
    using split_header [of out] assms by (auto simp: pl_consts)
  let ?pl = "frame_payload w h fseq idx cnt chunk"
  have body: "memcpy_at (put_u16 (put_u16 (put_u32 (put_u16 (put_u16 out (PL_HDR_SIZE + 0) w) (PL_HDR_SIZE + 2) h)
      (PL_HDR_SIZE + 4) fseq) (PL_HDR_SIZE + 8) idx) (PL_HDR_SIZE + 10) cnt) (PL_HDR_SIZE + 12) (take (unat len) chunk)
      = pre @ ?pl @ drop (12 + unat len) post"
    using assms out
    by (simp add: put_mem buf_simps memcpy_at_0 frame_payload_def pl_consts add.commute [of 12]
        del: mem_u16.simps mem_u32.simps)
  have ck: "pl_checksum (?pl @ r) (12 + unat len) = pl_checksum ?pl (12 + unat len)" for r
    using pl_checksum_append [of ?pl r] assms(1) by simp
  have hdr: "put_u16 (put_u16 (put_u32 (put_u8 (put_u8 (put_u16 (pre @ ?pl @ r) 0 PL_MAGIC) 2 PL_VERSION) 3
      (pkt_code PKT_FRAME)) 4 dev) 8 (12 + len)) 10 (pl_checksum (drop PL_HDR_SIZE (pre @ ?pl @ r)) (unat (12 + len))) =
      wire_packet PKT_FRAME dev ?pl @ r" for r
    using out(2) assms(1)
    by (simp add: put_mem buf_simps memcpy_at_0 wire_packet_def wire_header_def hdr_mem_def plen pl_consts ck
        del: mem_u16.simps mem_u32.simps)
  have "drop (12 + unat len) post = drop (24 + unat len) out" using out by (simp add: pl_consts)
  with body hdr assms show ?thesis
    by (simp add: frame_chunk_build_def FRAME_CHUNK_MAX_def Let_def plen) (simp add: pl_consts)
qed

section \<open>Reassembly\<close>

text \<open>The number of chunks of \<open>n\<close> bytes, and chunk \<open>i\<close> of a pixel buffer.\<close>

definition nchunks :: "nat \<Rightarrow> nat" where
  "nchunks n = (n + 1023) div 1024"

definition chunk_of :: "u8 list \<Rightarrow> nat \<Rightarrow> u8 list" where
  "chunk_of px i = take 1024 (drop (1024 * i) px)"

definition chunk_payload :: "u16 \<Rightarrow> u16 \<Rightarrow> u32 \<Rightarrow> u8 list \<Rightarrow> nat \<Rightarrow> u8 list" where
  "chunk_payload w h fseq px i = frame_payload w h fseq (of_nat i) (of_nat (nchunks (length px))) (chunk_of px i)"

text \<open>A frame as the protocol allows it.\<close>

definition frame_ok :: "u16 \<Rightarrow> u16 \<Rightarrow> u8 list \<Rightarrow> bool" where
  "frame_ok w h px \<longleftrightarrow> w \<noteq> 0 \<and> h \<noteq> 0 \<and> length px = unat w * unat h \<and> length px \<le> 4194304"

lemma length_chunk_of: "length (chunk_of px i) = min 1024 (length px - 1024 * i)"
  by (simp add: chunk_of_def)

lemma nchunks_less: "i < nchunks n \<longleftrightarrow> 1024 * i < n"
proof -
  have "i < nchunks n \<longleftrightarrow> Suc i * 1024 \<le> n + 1023"
    by (simp add: nchunks_def Suc_le_eq [symmetric] less_eq_div_iff_mult_less_eq del: mult_Suc)
  then show ?thesis by auto
qed

definition chunk_ci :: "u16 \<Rightarrow> u16 \<Rightarrow> u32 \<Rightarrow> u8 list \<Rightarrow> nat \<Rightarrow> chunk_info" where
  "chunk_ci w h fseq px i = \<lparr>ci_width = w, ci_height = h, ci_seq = fseq, ci_idx = of_nat i,
     ci_count = of_nat (nchunks (length px)), ci_total = ucast w * ucast h, ci_off = of_nat i * 1024,
     ci_bytes = chunk_of px i\<rparr>"

lemma frame_check_chunk:
  assumes "frame_ok w h px" and "i < nchunks (length px)"
  shows "frame_check (chunk_payload w h fseq px i @ rest) (of_nat (12 + length (chunk_of px i))) = Some (chunk_ci w h fseq px i)"
proof -
  let ?p = "chunk_payload w h fseq px i @ rest" and ?n = "nchunks (length px)" and ?c = "length (chunk_of px i)"
  let ?t = "ucast w * ucast h :: u32"
  have px: "length px = unat w * unat h" "length px \<le> 4194304" using assms(1) by (simp_all add: frame_ok_def)
  have n: "?n \<le> 4096" using px(2) by (simp add: nchunks_def)
  have i: "1024 * i < length px" "i < 4096" using assms(2) n by (simp_all add: nchunks_less [symmetric])
  have c: "?c = min 1024 (length px - 1024 * i)" by (rule length_chunk_of)
  have t: "unat ?t = length px" by (simp add: unat_total px(1))
  have un: "unat (of_nat ?n :: u16) = ?n" "unat (of_nat i :: u16) = i" "unat (of_nat (12 + ?c) :: u16) = 12 + ?c"
      "unat (of_nat ?c :: u16) = ?c"
    by (rule unat_of_nat_small, use n i c in simp)+
  have rd: "rd_u16 ?p 0 = w" "rd_u16 ?p 2 = h" "rd_u32 ?p 4 = fseq" "rd_u16 ?p 8 = of_nat i" "rd_u16 ?p 10 = of_nat ?n"
    by (simp_all add: rd_u16_ld rd_u32_ld chunk_payload_def frame_payload_def c16.dec_enc c32.dec_enc
        del: ld_u16.simps ld_u32.simps mem_u16.simps mem_u32.simps)
  have bytes: "take ?c (drop 12 ?p) = chunk_of px i" by (simp add: chunk_payload_def frame_payload_def)
  have off: "ucast (of_nat i :: u16) * 1024 = (of_nat i * 1024 :: u32)"
    using i(2) un(2) by (intro word_eq_unat) (simp add: unat_word_ariths unat_bytes unat_of_nat)
  have uo: "unat (of_nat i * 1024 :: u32) = 1024 * i" using unat_off [of "of_nat i"] un(2) off by simp
  have lt: "of_nat i * 1024 < ?t" using i(1) by (simp add: word_less_nat_alt uo t)
  have diff: "unat (?t - of_nat i * 1024) = length px - 1024 * i" using lt by (simp add: unat_sub uo t)
  have "unat (if ?t - of_nat i * 1024 > 1024 then 1024 else ?t - of_nat i * 1024 :: u32) = ?c"
    unfolding c by (simp add: diff min_def word_less_nat_alt)
  moreover have "unat (ucast (of_nat ?c :: u16) :: u32) = ?c" by (simp only: unat_bytes un(4))
  ultimately have exp: "ucast (of_nat ?c :: u16) = (if ?t - of_nat i * 1024 > 1024 then 1024 else ?t - of_nat i * 1024 :: u32)"
    by (intro word_eq_unat) (simp only:)
  have "unat (frame_chunk_count ?t) = ?n" using unat_chunk_count [of ?t] px(2) t by (simp add: nchunks_def)
  then have cnt: "frame_chunk_count ?t = of_nat ?n" using un(1) by (intro word_eq_unat) (simp only:)
  have cl: "of_nat (12 + ?c) - 12 = (of_nat ?c :: u16)" by simp
  have guards: "\<not> of_nat (12 + ?c) < (12::u16)" "w \<noteq> 0" "h \<noteq> 0"
      "of_nat ?n \<noteq> (0::u16)" "\<not> FRAME_MAX_PIXELS < ?t" "\<not> of_nat ?n \<le> (of_nat i :: u16)"
    using assms un px(2) t frame_max_pixels [of ?t]
    by (auto simp: word_less_nat_alt word_le_nat_alt frame_ok_def not_less simp flip: unat_eq_0 simp del: of_nat_add)
  show ?thesis
    unfolding frame_check_def rd Let_def
    using guards cnt lt off exp bytes un(4) by (simp add: cl FRAME_CHUNK_MAX_def chunk_ci_def not_le del: of_nat_add)
qed

end
