(* ===== verification/Frame_Asm.thy ===== *)
theory Frame_Asm
  imports Frame
begin

text \<open>
  Correctness of the frame reassembler of \<^verbatim>\<open>imaging/frame.c\<close>: a state \<open>represents\<close> a set of
  chunks of an image when exactly their flags are set and their bytes are in place; feeding a
  chunk adds it to the set, whatever the order and however often it comes, and the last missing
  chunk delivers the image.
\<close>

section \<open>Representation\<close>

definition represents :: "u16 \<Rightarrow> u16 \<Rightarrow> u32 \<Rightarrow> u8 list \<Rightarrow> nat set \<Rightarrow> frame_asm \<Rightarrow> bool" where
  "represents w h fseq px S fa \<longleftrightarrow> fa_active fa \<and> fa_width fa = w \<and> fa_height fa = h \<and> fa_seq fa = fseq \<and>
     unat (fa_chunk_count fa) = nchunks (length px) \<and> unat (fa_received fa) = card S \<and>
     (\<exists>b s. fa_buf fa = Some b \<and> length b = length px \<and> fa_seen fa = Some s \<and> length s = nchunks (length px) \<and>
        (\<forall>j < nchunks (length px). s ! j \<noteq> 0 \<longleftrightarrow> j \<in> S) \<and>
        (\<forall>k < length px. k div 1024 \<in> S \<longrightarrow> b ! k = px ! k))"

text \<open>Idle, or part-way through this frame.\<close>

definition collecting :: "u16 \<Rightarrow> u16 \<Rightarrow> u32 \<Rightarrow> u8 list \<Rightarrow> nat set \<Rightarrow> frame_asm \<Rightarrow> bool" where
  "collecting w h fseq px S fa \<longleftrightarrow> (S = {} \<and> \<not> fa_active fa) \<or> represents w h fseq px S fa"

lemma chunk_ci_unat:
  assumes "frame_ok w h px" and "i < nchunks (length px)"
  shows "unat (ci_idx (chunk_ci w h fseq px i)) = i" and "unat (ci_off (chunk_ci w h fseq px i)) = 1024 * i"
    and "unat (ci_count (chunk_ci w h fseq px i)) = nchunks (length px)"
    and "unat (ci_total (chunk_ci w h fseq px i)) = length px"
proof -
  have px: "length px = unat w * unat h" "length px \<le> 4194304" using assms(1) by (simp_all add: frame_ok_def)
  then have n: "nchunks (length px) \<le> 4096" by (simp add: nchunks_def)
  then have i: "i < 4096" using assms(2) by simp
  show idx: "unat (ci_idx (chunk_ci w h fseq px i)) = i"
    unfolding chunk_ci_def using i by (simp add: unat_of_nat_small)
  show "unat (ci_off (chunk_ci w h fseq px i)) = 1024 * i"
    using i by (simp add: chunk_ci_def unat_word_ariths unat_of_nat)
  show "unat (ci_count (chunk_ci w h fseq px i)) = nchunks (length px)"
    unfolding chunk_ci_def using n by (simp add: unat_of_nat_small)
  show "unat (ci_total (chunk_ci w h fseq px i)) = length px" by (simp add: chunk_ci_def unat_total px(1))
qed

lemma collecting_start:
  assumes "frame_ok w h px" and "i < nchunks (length px)" and "collecting w h fseq px S fa"
    and "malloc (length px) = Some blk" and "length blk = length px"
  shows "\<exists>fa1. frame_start malloc True (chunk_ci w h fseq px i) fa = Some fa1 \<and> represents w h fseq px S fa1"
proof (cases "fa_active fa")
  case True
  with assms(3) have rep: "represents w h fseq px S fa" by (simp add: collecting_def)
  then have "fa_width fa = w" "fa_height fa = h" "fa_seq fa = fseq" by (simp_all only: represents_def)
  with True have "frame_start malloc True (chunk_ci w h fseq px i) fa = Some fa"
    by (simp add: frame_start_def chunk_ci_def)
  with rep show ?thesis by blast
next
  case False
  then have S: "S = {}" using assms(3) unfolding collecting_def represents_def by blast
  let ?c = "chunk_ci w h fseq px i"
  note u = chunk_ci_unat [OF assms(1,2), of fseq]
  let ?fa = "\<lparr>fa_active = True, fa_width = ci_width ?c, fa_height = ci_height ?c, fa_chunk_count = ci_count ?c,
    fa_received = 0, fa_seq = ci_seq ?c, fa_total = ci_total ?c, fa_buf = Some blk,
    fa_seen = Some (replicate (unat (ci_count ?c)) 0)\<rparr>"
  have "frame_start malloc True ?c fa = Some ?fa" using False assms(4) by (simp add: frame_start_def u(4))
  moreover have "represents w h fseq px S ?fa"
    unfolding represents_def u(3) S
    by (intro conjI exI [of _ blk] exI [of _ "replicate (nchunks (length px)) 0"])
      (simp_all add: assms(5) u(3), simp_all add: chunk_ci_def)
  ultimately show ?thesis by blast
qed

lemma div_1024_chunk: "1024 * i \<le> k \<and> k < 1024 * i + min 1024 (n - 1024 * i) \<longleftrightarrow> k div 1024 = i" if "k < n" for k n i :: nat
  using that by (auto simp: div_nat_eqI)

lemma represents_store:
  assumes "frame_ok w h px" and "i < nchunks (length px)" and "represents w h fseq px S fa"
    and "S \<subseteq> {..<nchunks (length px)}"
  shows "represents w h fseq px (insert i S) (frame_store (chunk_ci w h fseq px i) fa)"
proof -
  let ?c = "chunk_ci w h fseq px i" and ?n = "nchunks (length px)"
  note u = chunk_ci_unat [OF assms(1,2), of fseq]
  from assms(3) obtain b s where bs: "fa_buf fa = Some b" "length b = length px" "fa_seen fa = Some s" "length s = ?n"
      "\<forall>j < ?n. s ! j \<noteq> 0 \<longleftrightarrow> j \<in> S" "\<forall>k < length px. k div 1024 \<in> S \<longrightarrow> b ! k = px ! k"
    and fa: "fa_active fa" "fa_width fa = w" "fa_height fa = h" "fa_seq fa = fseq"
      "unat (fa_chunk_count fa) = ?n" "unat (fa_received fa) = card S"
    by (auto simp: represents_def)
  define b' where "b' = memcpy_at b (1024 * i) (chunk_of px i)"
  define s' where "s' = (if s ! i = 0 then s[i := 1] else s)"
  have fit: "1024 * i + length (chunk_of px i) \<le> length b"
    using assms(2) bs(2) by (simp add: length_chunk_of nchunks_less)
  have buf: "b' ! k = px ! k" if "k < length px" "k div 1024 \<in> insert i S" for k
  proof -
    have "chunk_of px i ! (k - 1024 * i) = px ! k" if "k div 1024 = i"
      using \<open>k < length px\<close> that by (auto simp: chunk_of_def nth_take)
    then show ?thesis
      using that bs(2,6) fit div_1024_chunk [OF that(1), of i]
      by (auto simp: b'_def nth_memcpy_at length_chunk_of)
  qed
  have seen: "s' ! j \<noteq> 0 \<longleftrightarrow> j \<in> insert i S" if "j < ?n" for j
    using that bs(4,5) assms(2) by (auto simp: s'_def nth_list_update)
  have fin: "finite S" and "card S \<le> ?n"
    using assms(4) finite_subset card_mono [of "{..<?n}" S] by auto
  moreover have "?n \<le> 4096" using assms(1) by (auto simp: frame_ok_def nchunks_def)
  ultimately have "unat (fa_received fa + 1) = card S + 1" using fa(6) by (simp add: unat_word_ariths)
  moreover have "i \<in> S \<longleftrightarrow> s ! i \<noteq> 0" using bs(5) assms(2) by blast
  ultimately have rec: "unat (if s ! i = 0 then fa_received fa + 1 else fa_received fa) = card (insert i S)"
    using fa(6) fin by (auto simp: insert_absorb)
  have store: "frame_store ?c fa = (if s ! i = 0 then fa\<lparr>fa_seen := Some s', fa_received := fa_received fa + 1, fa_buf := Some b'\<rparr>
      else fa\<lparr>fa_buf := Some b'\<rparr>)"
    unfolding frame_store_def Let_def u by (simp add: bs b'_def s'_def chunk_ci_def)
  have "length b' = length px" "length s' = ?n" using fit bs(2,4) by (simp_all add: b'_def s'_def)
  with buf seen rec fa bs(3) show ?thesis
    unfolding represents_def store by (cases "s ! i = 0") (simp_all add: s'_def)
qed

section \<open>Feeding chunks\<close>

text \<open>A reassembler fed a list of payloads: the results and the final state.\<close>

fun feed_all :: "(nat \<Rightarrow> u8 list option) \<Rightarrow> u8 list list \<Rightarrow> frame_asm \<times> image \<Rightarrow> int list \<times> frame_asm \<times> image" where
  "feed_all malloc [] st = ([], st)"
| "feed_all malloc (p # ps) st =
     (case frame_asm_feed malloc True True p (of_nat (length p)) st of
        (rc, st1) \<Rightarrow> (case feed_all malloc ps st1 of (rcs, st2) \<Rightarrow> (rc # rcs, st2)))"

lemma length_chunk_payload: "length (chunk_payload w h fseq px i) = 12 + length (chunk_of px i)"
  by (simp add: chunk_payload_def)

lemma represents_complete:
  assumes "represents w h fseq px {..<nchunks (length px)} fa"
  shows "fa_buf fa = Some px"
proof -
  obtain b where b: "fa_buf fa = Some b" "length b = length px"
    "\<forall>k < length px. k div 1024 \<in> {..<nchunks (length px)} \<longrightarrow> b ! k = px ! k"
    using assms by (auto simp: represents_def)
  have "k div 1024 < nchunks (length px)" if "k < length px" for k
  proof -
    have "1024 * (k div 1024) \<le> k" by simp
    with that show ?thesis unfolding nchunks_less by linarith
  qed
  with b have "b = px" by (intro nth_equalityI) simp_all
  with b(1) show ?thesis by simp
qed

lemma feed_chunk:
  assumes "frame_ok w h px" and "i < nchunks (length px)" and "collecting w h fseq px S fa"
    and "S \<subseteq> {..<nchunks (length px)}" and "malloc (length px) = Some blk" and "length blk = length px"
  shows "case frame_asm_feed malloc True True (chunk_payload w h fseq px i)
        (of_nat (length (chunk_payload w h fseq px i))) (fa, out) of (rc, fa', out') \<Rightarrow>
    if insert i S = {..<nchunks (length px)}
    then rc = 1 \<and> fa' = frame_asm_init \<and>
         out' = out\<lparr>img_w := int (unat w), img_h := int (unat h), pix := Some px\<rparr>
    else rc = 0 \<and> out' = out \<and> collecting w h fseq px (insert i S) fa'"
proof -
  let ?c = "chunk_ci w h fseq px i" and ?n = "nchunks (length px)"
  have px: "length px = unat w * unat h" "length px \<le> 4194304" "w \<noteq> 0" "h \<noteq> 0"
    using assms(1) by (simp_all add: frame_ok_def)
  obtain fa1 where start: "frame_start malloc True ?c fa = Some fa1" and rep: "represents w h fseq px S fa1"
    using collecting_start [where malloc = malloc, OF assms(1-3,5,6)] by auto
  let ?f = "frame_store ?c fa1"
  have rep': "represents w h fseq px (insert i S) ?f" by (rule represents_store [OF assms(1,2) rep assms(4)])
  have check: "frame_check (chunk_payload w h fseq px i) (of_nat (length (chunk_payload w h fseq px i))) = Some ?c"
    using frame_check_chunk [OF assms(1,2), of fseq "[]"] by (simp add: length_chunk_payload)
  have "insert i S \<subseteq> {..<?n}" using assms(2,4) by simp
  then have "card (insert i S) = ?n \<longleftrightarrow> insert i S = {..<?n}"
    using card_subset_eq [of "{..<?n}" "insert i S"] by fastforce
  have full: "fa_received ?f = fa_chunk_count ?f \<longleftrightarrow> insert i S = {..<?n}"
  proof -
    have "unat (fa_received ?f) = card (insert i S)" "unat (fa_chunk_count ?f) = ?n"
      using rep' unfolding represents_def by blast+
    with \<open>card (insert i S) = ?n \<longleftrightarrow> insert i S = {..<?n}\<close> show ?thesis by (simp only: word_unat_eq_iff)
  qed
  show ?thesis
  proof (cases "insert i S = {..<?n}")
    case True
    then have "fa_buf ?f = Some px" using rep' represents_complete by simp
    moreover have "image_alloc True out (int (unat w)) (int (unat h)) =
        (0, out\<lparr>img_w := int (unat w), img_h := int (unat h), pix := Some (replicate (length px) 0)\<rparr>)"
      unfolding px(1) using px by (intro image_alloc_ok) (simp_all add: unat_gt_0)
    moreover have "ci_width ?c = w" "ci_height ?c = h" by (simp_all add: chunk_ci_def)
    ultimately show ?thesis
      using True full check start chunk_ci_unat(4) [OF assms(1,2), of fseq]
      by (simp add: frame_asm_feed_def Let_def frame_asm_reset_def memcpy_at_0)
  next
    case False
    with full check start rep' show ?thesis by (simp add: frame_asm_feed_def Let_def collecting_def)
  qed
qed

lemma feed_some_chunks:
  assumes "frame_ok w h px" and "malloc (length px) = Some blk" and "length blk = length px"
  shows "set idxs \<subseteq> {..<nchunks (length px)} \<Longrightarrow> S \<subseteq> {..<nchunks (length px)} \<Longrightarrow>
    S \<union> set idxs \<noteq> {..<nchunks (length px)} \<Longrightarrow> collecting w h fseq px S fa \<Longrightarrow>
    \<exists>fa'. feed_all malloc (map (chunk_payload w h fseq px) idxs) (fa, out) = (replicate (length idxs) 0, fa', out) \<and>
      collecting w h fseq px (S \<union> set idxs) fa'"
proof (induction idxs arbitrary: S fa)
  case (Cons i idxs)
  have "insert i S \<noteq> {..<nchunks (length px)}" using Cons.prems by auto
  with feed_chunk [where malloc = malloc, OF assms(1) _ Cons.prems(4,2) assms(2,3), of i out] Cons.prems(1)
  obtain fa1 where feed: "frame_asm_feed malloc True True (chunk_payload w h fseq px i)
        (of_nat (length (chunk_payload w h fseq px i))) (fa, out) = (0, fa1, out)"
    and coll: "collecting w h fseq px (insert i S) fa1"
    by (auto split: prod.splits)
  have "\<exists>fa'. feed_all malloc (map (chunk_payload w h fseq px) idxs) (fa1, out) = (replicate (length idxs) 0, fa', out) \<and>
      collecting w h fseq px (insert i S \<union> set idxs) fa'"
    by (rule Cons.IH [OF _ _ _ coll]) (use Cons.prems in auto)
  with feed show ?case by auto
qed simp

lemma feed_all_append:
  "feed_all malloc (ps @ qs) st = (case feed_all malloc ps st of (rs, st1) \<Rightarrow>
     (case feed_all malloc qs st1 of (ss, st2) \<Rightarrow> (rs @ ss, st2)))"
  by (induction ps arbitrary: st) (simp_all split: prod.split)

text \<open>What follows the chunk in the buffer does not matter.\<close>

lemma feed_trailing:
  assumes "frame_ok w h px" and "i < nchunks (length px)"
  shows "frame_asm_feed malloc c1 c2 (chunk_payload w h fseq px i @ rest) (of_nat (12 + length (chunk_of px i))) st =
    frame_asm_feed malloc c1 c2 (chunk_payload w h fseq px i) (of_nat (length (chunk_payload w h fseq px i))) st"
  using frame_check_chunk [OF assms, of fseq rest] frame_check_chunk [OF assms, of fseq "[]"]
  by (simp add: frame_asm_feed_def length_chunk_payload)

lemma feed_all_chunks:
  assumes "frame_ok w h px" and "malloc (length px) = Some blk" and "length blk = length px"
    and "k \<notin> set idxs" and "insert k (set idxs) = {..<nchunks (length px)}"
  shows "feed_all malloc (map (chunk_payload w h fseq px) (idxs @ [k])) (frame_asm_init, out) =
    (replicate (length idxs) 0 @ [1], frame_asm_init,
     out\<lparr>img_w := int (unat w), img_h := int (unat h), pix := Some px\<rparr>)"
proof -
  let ?n = "nchunks (length px)"
  have sub: "set idxs \<subseteq> {..<?n}" "k < ?n" using assms(5) by auto
  have ne: "{} \<union> set idxs \<noteq> {..<?n}" using assms(4) sub by auto
  have "collecting w h fseq px {} frame_asm_init" by (simp add: collecting_def frame_asm_init_def)
  from feed_some_chunks [where malloc = malloc, OF assms(1-3) sub(1) _ ne this]
  obtain fa' where feed: "feed_all malloc (map (chunk_payload w h fseq px) idxs) (frame_asm_init, out) =
      (replicate (length idxs) 0, fa', out)" and coll: "collecting w h fseq px (set idxs) fa'" by auto
  have "frame_asm_feed malloc True True (chunk_payload w h fseq px k)
      (of_nat (length (chunk_payload w h fseq px k))) (fa', out) =
      (1, frame_asm_init, out\<lparr>img_w := int (unat w), img_h := int (unat h), pix := Some px\<rparr>)"
    using feed_chunk [where malloc = malloc, OF assms(1) sub(2) coll sub(1) assms(2,3), of out] assms(5)
    by (auto split: prod.splits)
  with feed show ?thesis by (simp add: feed_all_append)
qed

section \<open>Properties\<close>

text \<open>
  C6. Reassembly: feed the chunks of an image in any order, each any number of times; every
  feed before the last missing chunk asks for more, the one that brings it returns the image, pixel
  for pixel, and the reassembler is idle again.
\<close>

theorem frame_reassembly:
  assumes "frame_ok w h px" and "malloc (length px) = Some blk" and "length blk = length px"
    and "k \<notin> set idxs" and "insert k (set idxs) = {..<nchunks (length px)}"
  shows "feed_all malloc (map (chunk_payload w h fseq px) (idxs @ [k])) (frame_asm_init, out) =
    (replicate (length idxs) 0 @ [1], frame_asm_init,
     out\<lparr>img_w := int (unat w), img_h := int (unat h), pix := Some px\<rparr>)"
  using assms by (rule feed_all_chunks)

theorem frame_reassembly_witness:
  "frame_ok 50 41 (replicate 2050 7) \<and>
   feed_all (\<lambda>n. Some (replicate n 0xCC)) (map (chunk_payload 50 41 9 (replicate 2050 7)) ([2, 0, 2] @ [1]))
     (frame_asm_init, \<lparr>img_w = 0, img_h = 0, pix = None\<rparr>) =
   ([0, 0, 0, 1], frame_asm_init, \<lparr>img_w = 50, img_h = 41, pix = Some (replicate 2050 7)\<rparr>)"
proof -
  have ok: "frame_ok 50 41 (replicate 2050 7)" by (simp add: frame_ok_def)
  have "insert 1 (set [2, 0, 2]) = {..<nchunks (length (replicate 2050 (7::u8)))}"
    by (auto simp: nchunks_def)
  from frame_reassembly [where malloc = "\<lambda>n. Some (replicate n 0xCC)" and fseq = 9
      and out = "\<lparr>img_w = 0, img_h = 0, pix = None\<rparr>", OF ok _ _ _ this]
  show ?thesis by (simp add: ok numeral_3_eq_3 del: feed_all.simps)
qed

text \<open>
  C24. Whatever payload a peer sends, the reassembler keeps its invariant and answers -1, 0
  or 1; when the payload passes the checks, the copy stays inside the frame buffer and the flag
  inside the flag array, however the fields were chosen.
\<close>

theorem frame_feed_in_bounds:
  assumes "fa_ok fa" and "unat len \<le> length payload" and "\<And>n b. malloc n = Some b \<Longrightarrow> length b = n"
  shows "case frame_asm_feed malloc calloc_ok calloc_img payload len (fa, out) of (rc, fa', out') \<Rightarrow>
    fa_ok fa' \<and> rc \<in> {-1, 0, 1} \<and>
    (\<forall>c fa1. frame_check payload len = Some c \<and> frame_start malloc calloc_ok c fa = Some fa1 \<longrightarrow>
      unat (ci_off c) + length (ci_bytes c) \<le> length (the (fa_buf fa1)) \<and>
      unat (ci_idx c) < length (the (fa_seen fa1)))"
proof -
  have "unat (ci_off c) + length (ci_bytes c) \<le> length (the (fa_buf fa1)) \<and> unat (ci_idx c) < length (the (fa_seen fa1))"
    if "frame_check payload len = Some c" "frame_start malloc calloc_ok c fa = Some fa1" for c fa1
  proof -
    have fits: "chunk_fits c" by (rule frame_check_fits [OF that(1) assms(2)])
    from frame_store_sizes [OF frame_start_for [where malloc = malloc, OF assms(1) fits that(2) assms(3)] fits]
    show ?thesis by blast
  qed
  moreover obtain rc fa' out' where "frame_asm_feed malloc calloc_ok calloc_img payload len (fa, out) = (rc, fa', out')"
    using prod_cases3 by blast
  ultimately show ?thesis
    using frame_feed_ok [where malloc = malloc, OF assms] by simp
qed

theorem frame_feed_in_bounds_witness:
  "fa_ok frame_asm_init \<and> fst (frame_asm_feed (\<lambda>n. Some (replicate n 0)) True True (replicate 12 0xFF) 12
     (frame_asm_init, \<lparr>img_w = 0, img_h = 0, pix = None\<rparr>)) \<in> {-1, 0, 1}"
proof -
  have "fa_ok frame_asm_init" by (simp add: fa_ok_def)
  from frame_feed_in_bounds [OF this, where malloc = "\<lambda>n. Some (replicate n 0)" and payload = "replicate 12 0xFF"
      and len = 12 and calloc_ok = True and calloc_img = True and out = "\<lparr>img_w = 0, img_h = 0, pix = None\<rparr>"] this
  show ?thesis by (auto split: prod.splits)
qed

text \<open>
  The hand-written chunk builder produces the packet the general builder produces for the
  frame header followed by the chunk, on any host, and refuses chunks over 1024 bytes.
\<close>

lemma frame_chunk_build_matches_pl_build:
  assumes "length out = cap" and "length chunk = unat len"
  shows "frame_chunk_build out cap dev w h fseq idx cnt chunk len =
    (if unat len \<le> 1024 then pl_build host out cap PKT_FRAME dev (Some (frame_payload w h fseq idx cnt chunk)) (12 + len)
     else (0, out))"
proof (cases "unat len \<le> 1024")
  case True
  have plen: "unat (12 + len) = 12 + unat len" using True by (simp add: unat_word_ariths)
  have plen': "12 + len = of_nat (12 + unat len)" by simp
  show ?thesis
  proof (cases "24 + unat len \<le> cap")
    case fits: True
    have "pl_build host out cap PKT_FRAME dev (Some (frame_payload w h fseq idx cnt chunk)) (of_nat (12 + unat len)) =
        (24 + unat len, wire_packet PKT_FRAME dev (frame_payload w h fseq idx cnt chunk) @ drop (24 + unat len) out)"
      using pl_build_wire_packet [of "frame_payload w h fseq idx cnt chunk" cap out host PKT_FRAME dev] fits True assms
      by (simp add: pl_consts)
    with frame_chunk_build_packet [OF assms(2) True fits] assms(1) True plen' show ?thesis by simp
  next
    case False
    with True plen show ?thesis
      by (simp add: frame_chunk_build_def FRAME_CHUNK_MAX_def Let_def pl_build_too_small pl_consts)
  qed
next
  case False
  then show ?thesis by (simp add: frame_chunk_build_def FRAME_CHUNK_MAX_def)
qed

end
