(* ===== verification/Bmp.thy ===== *)
theory Bmp
  imports Codec Image
begin

text \<open>
  \<^verbatim>\<open>imaging/bmp.c\<close>: 8-bit grayscale BMP files. A file is a list of bytes. The output stream has
  the space left on the disk and the size of the buffer of stdio as parameters: \<^verbatim>\<open>fwrite\<close>
  accepts what fits into both, and the flush in \<^verbatim>\<open>fclose\<close>, whose result the code ignores,
  writes what the disk can hold. Reading back a file that was written completely gives the
  image; reading an arbitrary file either fails, leaving no half-read image behind, or gives a
  well-formed image.
\<close>

section \<open>Little-endian stores and loads\<close>

definition put_le16 :: "u8 list \<Rightarrow> nat \<Rightarrow> u16 \<Rightarrow> u8 list" where
  "put_le16 p k v = memcpy_at p k [ucast v, ucast (drop_bit 8 v)]"

definition put_le32 :: "u8 list \<Rightarrow> nat \<Rightarrow> u32 \<Rightarrow> u8 list" where
  "put_le32 p k v = memcpy_at p k [ucast v, ucast (drop_bit 8 v), ucast (drop_bit 16 v), ucast (drop_bit 24 v)]"

definition get_le16 :: "u8 list \<Rightarrow> nat \<Rightarrow> u16" where
  "get_le16 p k = ucast (p ! k) OR push_bit 8 (ucast (p ! (k + 1)))"

definition get_le32 :: "u8 list \<Rightarrow> nat \<Rightarrow> u32" where
  "get_le32 p k = ucast (p ! k) OR push_bit 8 (ucast (p ! (k + 1))) OR
     push_bit 16 (ucast (p ! (k + 2))) OR push_bit 24 (ucast (p ! (k + 3)))"

lemma get_le16_ld: "k + 1 < length p \<Longrightarrow> get_le16 p k = ld_u16 LittleEndian (drop k p)"
  by (simp add: get_le16_def join_u16_def or.commute)

lemma get_le32_ld: "k + 3 < length p \<Longrightarrow> get_le32 p k = ld_u32 LittleEndian (drop k p)"
  by (simp add: get_le32_def join_u32_def ac_simps)

lemma put_le_mem:
  "put_le16 p k v = memcpy_at p k (mem_u16 LittleEndian v)"
  "put_le32 p k w = memcpy_at p k (mem_u32 LittleEndian w)"
  by (simp_all add: put_le16_def put_le32_def)

section \<open>Files\<close>

definition FILE_HDR :: nat where "FILE_HDR = 14"
definition DIB_HDR :: nat where "DIB_HDR = 40"
definition PALETTE :: nat where "PALETTE = 256 * 4"
definition PIX_OFFSET :: nat where "PIX_OFFSET = FILE_HDR + DIB_HDR + PALETTE"

text \<open>An output stream: the bytes accepted so far, the room on the disk and the stdio buffer.\<close>

record ostream =
  os_data :: "u8 list"
  os_disk :: nat
  os_buf :: nat

definition fwrite :: "u8 list \<Rightarrow> ostream \<Rightarrow> nat \<times> ostream" where
  "fwrite bs f = (let n = min (length bs) (os_disk f + os_buf f - length (os_data f)) in
     (n, f\<lparr>os_data := os_data f @ take n bs\<rparr>))"

text \<open>The contents of the file after \<^verbatim>\<open>fclose\<close>.\<close>

definition fclose_file :: "ostream \<Rightarrow> u8 list" where
  "fclose_file f = take (os_disk f) (os_data f)"

text \<open>\<^verbatim>\<open>fread\<close>: the bytes read and the new position.\<close>

definition fread :: "u8 list \<Rightarrow> nat \<Rightarrow> nat \<Rightarrow> u8 list \<times> nat" where
  "fread file pos n = (let bs = take n (drop pos file) in (bs, pos + length bs))"

section \<open>Writing\<close>

definition row_stride :: "int \<Rightarrow> u32" where
  "row_stride w = (of_int w + 3) AND NOT 3"

definition palette_entry :: "nat \<Rightarrow> u8 list \<Rightarrow> u8 list" where
  "palette_entry i hdr = memcpy_at hdr (FILE_HDR + DIB_HDR + i * 4) [of_nat i, of_nat i, of_nat i]"

definition bmp_header :: "int \<Rightarrow> int \<Rightarrow> u8 list" where
  "bmp_header w h =
     (let stride = row_stride w;
          pixsz = stride * of_int h;
          fsize = of_nat PIX_OFFSET + pixsz;
          hdr = replicate PIX_OFFSET 0;
          hdr = memcpy_at hdr 0 [of_char CHR ''B'', of_char CHR ''M''];
          hdr = put_le32 hdr 2 fsize;
          hdr = put_le32 hdr 10 (of_nat PIX_OFFSET);
          hdr = put_le32 hdr 14 (of_nat DIB_HDR);
          hdr = put_le32 hdr 18 (of_int w);
          hdr = put_le32 hdr 22 (of_int h);
          hdr = put_le16 hdr 26 1;
          hdr = put_le16 hdr 28 8;
          hdr = put_le32 hdr 30 0;
          hdr = put_le32 hdr 34 pixsz;
          hdr = put_le32 hdr 46 256
      in fold palette_entry [0..<256] hdr)"

text \<open>The row loop, from the given rows in the order they are written; \<open>False\<close> is \<^verbatim>\<open>goto done\<close>.\<close>

fun write_rows :: "u8 list \<Rightarrow> nat \<Rightarrow> nat \<Rightarrow> nat list \<Rightarrow> ostream \<Rightarrow> bool \<times> ostream" where
  "write_rows p w padlen [] f = (True, f)"
| "write_rows p w padlen (y # ys) f =
     (let (n, f1) = fwrite (take w (drop (y * w) p)) f in
      if n \<noteq> w then (False, f1)
      else if padlen \<noteq> 0 then
        (let (m, f2) = fwrite (replicate padlen 0) f1 in
         if m \<noteq> padlen then (False, f2) else write_rows p w padlen ys f2)
      else write_rows p w padlen ys f1)"

text \<open>
  \<open>fopened\<close> is the result of \<^verbatim>\<open>fopen\<close>, with the disk and buffer of the stream. The result is the
  return value and the contents of the file, if one was opened.
\<close>

definition bmp_write :: "image \<Rightarrow> (nat \<times> nat) option \<Rightarrow> int \<times> u8 list option" where
  "bmp_write img fopened =
     (case pix img of
        None \<Rightarrow> (-1, None)
      | Some p \<Rightarrow>
          if img_w img \<le> 0 \<or> img_h img \<le> 0 then (-1, None)
          else let w = img_w img; h = img_h img; hdr = bmp_header w h in
            (case fopened of
               None \<Rightarrow> (-1, None)
             | Some (disk, buf) \<Rightarrow>
                 let (n, f1) = fwrite hdr \<lparr>os_data = [], os_disk = disk, os_buf = buf\<rparr> in
                 if n \<noteq> length hdr then (-1, Some (fclose_file f1))
                 else let padlen = unat (row_stride w - of_int w);
                          (ok, f2) = write_rows p (nat w) padlen (rev [0..<nat h]) f1
                      in (if ok then 0 else -1, Some (fclose_file f2))))"

section \<open>Reading\<close>

text \<open>The row loop of the reader: \<open>None\<close> when a row or its padding is cut short.\<close>

fun read_rows :: "u8 list \<Rightarrow> nat \<Rightarrow> nat \<Rightarrow> nat list \<Rightarrow> nat \<Rightarrow> u8 list \<Rightarrow> u8 list option" where
  "read_rows file w padlen [] pos p = Some p"
| "read_rows file w padlen (y # ys) pos p =
     (let (row, pos1) = fread file pos w; p1 = memcpy_at p (y * w) row in
      if length row \<noteq> w then None
      else if padlen \<noteq> 0 then
        (let (pad, pos2) = fread file pos1 padlen in
         if length pad \<noteq> padlen then None else read_rows file w padlen ys pos2 p1)
      else read_rows file w padlen ys pos1 p1)"

text \<open>\<open>file = None\<close> when \<^verbatim>\<open>fopen\<close> fails; \<open>calloc_ok\<close> and \<open>seek_ok\<close> are the outcomes of those calls.\<close>

definition bmp_read :: "bool \<Rightarrow> bool \<Rightarrow> u8 list option \<Rightarrow> image \<Rightarrow> int \<times> image" where
  "bmp_read calloc_ok seek_ok file img =
     (case file of
        None \<Rightarrow> (-1, img)
      | Some file \<Rightarrow>
          let (fh, pos) = fread file 0 (FILE_HDR + DIB_HDR) in
          if length fh \<noteq> FILE_HDR + DIB_HDR then (-1, img)
          else if fh ! 0 \<noteq> of_char CHR ''B'' \<or> fh ! 1 \<noteq> of_char CHR ''M'' then (-1, img)
          else let offset = get_le32 fh 10; w = sint (get_le32 fh 18); h = sint (get_le32 fh 22); bpp = get_le16 fh 28 in
            if bpp \<noteq> 8 \<or> w \<le> 0 \<or> h \<le> 0 then (-1, img)
            else let (r, img1) = image_alloc calloc_ok img w h in
              if r \<noteq> 0 then (-1, img1)
              else if \<not> seek_ok then (-1, image_free img1)
              else let padlen = unat (row_stride w - of_int w) in
                (case read_rows file (nat w) padlen (rev [0..<nat h]) (unat offset) (the (pix img1)) of
                   None \<Rightarrow> (-1, image_free img1)
                 | Some p \<Rightarrow> (0, img1\<lparr>pix := Some p\<rparr>)))"

section \<open>The bytes of a file\<close>

text \<open>The rows of an image as the format lays them out: bottom row first, each padded.\<close>

definition bmp_rows :: "u8 list \<Rightarrow> nat \<Rightarrow> nat \<Rightarrow> nat list \<Rightarrow> u8 list" where
  "bmp_rows p w padlen ys = concat (map (\<lambda>y. take w (drop (y * w) p) @ replicate padlen 0) ys)"

definition bmp_bytes :: "image \<Rightarrow> u8 list" where
  "bmp_bytes img = bmp_header (img_w img) (img_h img) @
     bmp_rows (the (pix img)) (nat (img_w img)) (unat (row_stride (img_w img) - of_int (img_w img)))
       (rev [0..<nat (img_h img)])"

text \<open>A stream never holds more than the disk and the buffer; a refused byte means it is full.\<close>

abbreviation os_cap :: "ostream \<Rightarrow> nat" where
  "os_cap f \<equiv> os_disk f + os_buf f"

definition os_ok :: "ostream \<Rightarrow> bool" where
  "os_ok f \<longleftrightarrow> length (os_data f) \<le> os_cap f"

lemma fwrite_cap:
  assumes "fwrite bs f = (n, f')" and "os_ok f"
  shows "os_ok f'" "os_disk f' = os_disk f" "os_buf f' = os_buf f"
    "os_data f' = take (os_cap f) (os_data f @ bs)"
    "n = length bs \<longleftrightarrow> length (os_data f @ bs) \<le> os_cap f"
  using assms by (auto simp: fwrite_def os_ok_def Let_def min_def split: if_splits)

text \<open>What a run of writes leaves behind does not depend on where it stopped.\<close>

lemma write_rows_cap:
  assumes "write_rows p w padlen ys f = (ok, f')" and "os_ok f" and "\<forall>y\<in>set ys. y * w + w \<le> length p"
  shows "os_disk f' = os_disk f \<and> os_data f' = take (os_cap f) (os_data f @ bmp_rows p w padlen ys) \<and>
    (ok \<longleftrightarrow> length (os_data f @ bmp_rows p w padlen ys) \<le> os_cap f)"
  using assms
proof (induction ys arbitrary: f)
  case Nil then show ?case by (auto simp: bmp_rows_def os_ok_def)
next
  case (Cons y ys)
  define row where "row = take w (drop (y * w) p)"
  have "y * w + w \<le> length p" using Cons.prems(3) by simp
  then have "w \<le> length p - y * w" by linarith
  then have row: "length row = w" unfolding row_def by simp
  obtain n f1 where n: "fwrite row f = (n, f1)" by (cases "fwrite row f")
  note f1 = fwrite_cap [OF n Cons.prems(2)]
  obtain m f2 where m: "fwrite (replicate padlen 0) f1 = (m, f2)" by (cases "fwrite (replicate padlen 0) f1")
  note f2 = fwrite_cap [OF m f1(1)]
  have rows: "bmp_rows p w padlen (y # ys) = row @ replicate padlen 0 @ bmp_rows p w padlen ys"
    by (simp add: bmp_rows_def row_def)
  have step: "(if n \<noteq> w then (False, f1) else
      if padlen \<noteq> 0 then if m \<noteq> padlen then (False, f2) else write_rows p w padlen ys f2
      else write_rows p w padlen ys f1) = (ok, f')"
    using Cons.prems(1) unfolding write_rows.simps(2) by (simp only: n m prod.case Let_def flip: row_def)
  have rest: "\<forall>y\<in>set ys. y * w + w \<le> length p" using Cons.prems(3) by simp
  consider "n \<noteq> w" | "n = w" "padlen \<noteq> 0" "m \<noteq> padlen" | "n = w" "padlen \<noteq> 0" "m = padlen" | "n = w" "padlen = 0" by blast
  then show ?case
  proof cases
    case 1
    with step f1 row show ?thesis unfolding rows by simp
  next
    case 2
    with step f1 f2 row show ?thesis unfolding rows by simp
  next
    case 3
    with step have w: "write_rows p w padlen ys f2 = (ok, f')" by simp
    have "os_data f2 = os_data f @ row @ replicate padlen 0" using 3 f1 f2 row by simp
    with Cons.IH [OF w f2(1) rest] f1(2,3) f2(2,3) show ?thesis unfolding rows by simp
  next
    case 4
    with step have w: "write_rows p w padlen ys f1 = (ok, f')" by simp
    have "os_data f1 = os_data f @ row" using 4 f1 row by simp
    with Cons.IH [OF w f1(1) rest] f1(2,3) 4(2) show ?thesis unfolding rows by simp
  qed
qed

lemma palette_entry_simps:
  "57 + i * 4 \<le> length hdr \<Longrightarrow> length (palette_entry i hdr) = length hdr"
  "57 + i * 4 \<le> length hdr \<Longrightarrow> take 54 (palette_entry i hdr) = take 54 hdr"
  by (simp_all add: palette_entry_def FILE_HDR_def DIB_HDR_def memcpy_at_def)

lemma palette_keeps_header:
  "\<forall>i\<in>set is. 57 + i * 4 \<le> length hdr \<Longrightarrow>
   length (fold palette_entry is hdr) = length hdr \<and> take 54 (fold palette_entry is hdr) = take 54 hdr"
  by (induction "is" arbitrary: hdr) (simp_all add: palette_entry_simps)

lemma put_le_length:
  "k + 2 \<le> length p \<Longrightarrow> length (put_le16 p k v) = length p"
  "k + 4 \<le> length p \<Longrightarrow> length (put_le32 p k w) = length p"
  by (simp_all add: put_le16_def put_le32_def)

text \<open>The same on a buffer of the size of the header, where a nest of stores needs one pass.\<close>

lemma put_le_length_hdr:
  "length p = 1078 \<Longrightarrow> k \<le> 1074 \<Longrightarrow> length (put_le16 p k v) = 1078"
  "length p = 1078 \<Longrightarrow> k \<le> 1074 \<Longrightarrow> length (put_le32 p k w) = 1078"
  by (simp_all add: put_le_length)

lemma hdr_length: "PIX_OFFSET = 1078"
  by (simp add: PIX_OFFSET_def FILE_HDR_def DIB_HDR_def PALETTE_def)

lemma length_bmp_header [simp]: "length (bmp_header w h) = PIX_OFFSET"
  unfolding bmp_header_def Let_def hdr_length
  by (simp add: palette_keeps_header put_le_length_hdr)

text \<open>A complete write is exactly the bytes of the image; an incomplete one leaves a prefix.\<close>

lemma bmp_write_file:
  assumes "image_ok img"
  shows "bmp_write img (Some (disk, buf)) =
    (if length (bmp_bytes img) \<le> disk + buf then 0 else -1, Some (take disk (bmp_bytes img)))"
proof -
  from assms obtain p where p: "pix img = Some p" "0 < img_w img" "0 < img_h img"
    "length p = nat (img_w img) * nat (img_h img)" by (auto simp: image_ok_def image_size_def)
  let ?f0 = "\<lparr>os_data = [], os_disk = disk, os_buf = buf\<rparr>"
  let ?hdr = "bmp_header (img_w img) (img_h img)"
  let ?pad = "unat (row_stride (img_w img) - of_int (img_w img))"
  obtain n f1 where n: "fwrite ?hdr ?f0 = (n, f1)" by (cases "fwrite ?hdr ?f0")
  note f1 = fwrite_cap [OF n, simplified os_ok_def, simplified]
  obtain ok f2 where r: "write_rows p (nat (img_w img)) ?pad (rev [0..<nat (img_h img)]) f1 = (ok, f2)"
    by (cases "write_rows p (nat (img_w img)) ?pad (rev [0..<nat (img_h img)]) f1")
  have "\<forall>y\<in>set (rev [0..<nat (img_h img)]). y * nat (img_w img) + nat (img_w img) \<le> length p"
  proof
    fix y assume "y \<in> set (rev [0..<nat (img_h img)])"
    then have "Suc y * nat (img_w img) \<le> nat (img_h img) * nat (img_w img)" by (intro mult_le_mono1) simp
    then show "y * nat (img_w img) + nat (img_w img) \<le> length p" using p by (simp add: mult.commute)
  qed
  from write_rows_cap [OF r _ this] f1
  have f2: "os_disk f2 = disk" "os_data f2 = take (disk + buf) (os_data f1 @ bmp_rows p (nat (img_w img)) ?pad (rev [0..<nat (img_h img)]))"
    "ok \<longleftrightarrow> length (os_data f1 @ bmp_rows p (nat (img_w img)) ?pad (rev [0..<nat (img_h img)])) \<le> disk + buf"
    by (simp_all add: os_ok_def)
  have bytes: "bmp_bytes img = ?hdr @ bmp_rows p (nat (img_w img)) ?pad (rev [0..<nat (img_h img)])"
    by (simp add: bmp_bytes_def p)
  show ?thesis
  proof (cases "n = PIX_OFFSET")
    case True
    with f1 have "PIX_OFFSET \<le> disk + buf" by simp
    with True f1 f2 p n r show ?thesis
      by (simp add: bmp_write_def Let_def fclose_file_def bytes)
  next
    case False
    with f1 have "disk + buf < PIX_OFFSET" by simp
    with False f1 p n show ?thesis
      by (simp add: bmp_write_def Let_def fclose_file_def bytes)
  qed
qed

section \<open>Strides and fields\<close>

lemma len32: "LENGTH(32) = 32"
  by simp

lemma and_not_mask: "(x::'a::len word) AND NOT (mask n) = push_bit n (drop_bit n x)"
  by (rule bit_eqI) (auto simp: bit_simps)

lemma unat_row_stride:
  assumes "0 \<le> w" and "w \<le> 2 ^ 22"
  shows "unat (row_stride w) = 4 * ((nat w + 3) div 4)"
proof -
  define n where "n = nat w"
  have n: "w = int n" "n \<le> 4194304" using assms by (simp_all add: n_def)
  have u: "unat (of_int w + 3 :: u32) = n + 3"
  proof -
    have "(of_int w + 3 :: u32) = of_nat (n + 3)" by (simp add: n)
    moreover have "unat (of_nat (n + 3) :: u32) = n + 3" using n(2) by (intro unat_of_nat_small) simp
    ultimately show ?thesis by simp
  qed
  have "row_stride w = push_bit 2 (drop_bit 2 (of_int w + 3))"
    using and_not_mask [of "of_int w + 3 :: u32" 2] by (simp add: row_stride_def mask_eq_exp_minus_1)
  moreover have "unat (push_bit 2 (drop_bit 2 (of_int w + 3 :: u32))) =
      take_bit LENGTH(32) (push_bit 2 (unat (drop_bit 2 (of_int w + 3 :: u32))))" by (rule unsigned_push_bit_eq)
  ultimately have "unat (row_stride w) = take_bit 32 (push_bit 2 ((n + 3) div 2 ^ 2))"
    by (simp only: unat_drop_bit_div u len32)
  then have "unat (row_stride w) = take_bit 32 (4 * ((n + 3) div 4))"
    by (simp add: push_bit_eq_mult mult.commute)
  also have "\<dots> = 4 * ((n + 3) div 4)"
  proof (rule take_bit_nat_eq_self)
    have "4 * ((n + 3) div 4) \<le> n + 3" by simp
    also have "\<dots> < 2 ^ 32" using n(2) by simp
    finally show "4 * ((n + 3) div 4) < 2 ^ 32" .
  qed
  finally show ?thesis by (simp add: n_def)
qed

lemma padlen_eq:
  assumes "0 \<le> w" and "w \<le> 2 ^ 22"
  shows "nat w + unat (row_stride w - of_int w) = 4 * ((nat w + 3) div 4)"
proof -
  define n where "n = nat w"
  have n: "w = int n" "n \<le> 4194304" using assms by (simp_all add: n_def)
  have w: "unat (of_int w :: u32) = n"
    using unat_of_nat_small [of n, where 'a = 32] n(2) by (simp add: n(1))
  have "n \<le> 4 * ((n + 3) div 4)" by linarith
  then have le: "(of_int w :: u32) \<le> row_stride w"
    using unat_row_stride [OF assms] w by (simp add: word_le_nat_alt n_def)
  have "unat (row_stride w - of_int w) = unat (row_stride w) - n"
    using unat_sub [OF le] w by simp
  with le w show ?thesis using unat_row_stride [OF assms] by (simp add: word_le_nat_alt n_def)
qed

lemma get_put_le:
  "k + 4 \<le> length p \<Longrightarrow> get_le32 (put_le32 p k v) k = v"
  "k + 2 \<le> length p \<Longrightarrow> get_le16 (put_le16 p k x) k = x"
  "j + 4 \<le> length p \<Longrightarrow> k + 4 \<le> length p \<Longrightarrow> j + 4 \<le> k \<or> k + 4 \<le> j \<Longrightarrow> get_le32 (put_le32 p j v) k = get_le32 p k"
  "j + 2 \<le> length p \<Longrightarrow> k + 4 \<le> length p \<Longrightarrow> j + 2 \<le> k \<or> k + 4 \<le> j \<Longrightarrow> get_le32 (put_le16 p j x) k = get_le32 p k"
  "j + 4 \<le> length p \<Longrightarrow> k + 2 \<le> length p \<Longrightarrow> j + 4 \<le> k \<or> k + 2 \<le> j \<Longrightarrow> get_le16 (put_le32 p j v) k = get_le16 p k"
proof goal_cases
  case 1
  have "get_le32 (put_le32 p k v) k = ld_u32 LittleEndian (drop k (memcpy_at p k (mem_u32 LittleEndian v)))"
    using get_le32_ld [of k "put_le32 p k v"] 1 by (simp only: put_le_mem put_le_length(2) length_memcpy_at length_mem_u32)
  also have "\<dots> = ld_u32 LittleEndian (mem_u32 LittleEndian v @ drop (k + 4) p)"
    using 1 by (simp add: memcpy_at_def del: mem_u32.simps ld_u32.simps)
  finally show ?case by (simp only: c32.dec_enc)
next
  case 2
  have "get_le16 (put_le16 p k x) k = ld_u16 LittleEndian (drop k (memcpy_at p k (mem_u16 LittleEndian x)))"
    using get_le16_ld [of k "put_le16 p k x"] 2 by (simp only: put_le_mem put_le_length(1) length_memcpy_at length_mem_u16)
  also have "\<dots> = ld_u16 LittleEndian (mem_u16 LittleEndian x @ drop (k + 2) p)"
    using 2 by (simp add: memcpy_at_def del: mem_u16.simps ld_u16.simps)
  finally show ?case by (simp only: c16.dec_enc)
next
  case 3
  then show ?case by (auto simp: get_le32_def put_le32_def nth_memcpy_at)
next
  case 4
  then show ?case by (auto simp: get_le32_def put_le16_def nth_memcpy_at)
next
  case 5
  then show ?case by (auto simp: get_le16_def put_le32_def nth_memcpy_at)
qed

lemma get_put_le_hdr:
  "length p = 1078 \<Longrightarrow> k \<le> 1074 \<Longrightarrow> get_le32 (put_le32 p k v) k = v"
  "length p = 1078 \<Longrightarrow> k \<le> 1074 \<Longrightarrow> get_le16 (put_le16 p k x) k = x"
  "length p = 1078 \<Longrightarrow> j \<le> 1074 \<Longrightarrow> k \<le> 1074 \<Longrightarrow> j + 4 \<le> k \<or> k + 4 \<le> j \<Longrightarrow> get_le32 (put_le32 p j v) k = get_le32 p k"
  "length p = 1078 \<Longrightarrow> j \<le> 1074 \<Longrightarrow> k \<le> 1074 \<Longrightarrow> j + 2 \<le> k \<or> k + 4 \<le> j \<Longrightarrow> get_le32 (put_le16 p j x) k = get_le32 p k"
  "length p = 1078 \<Longrightarrow> j \<le> 1074 \<Longrightarrow> k \<le> 1074 \<Longrightarrow> j + 4 \<le> k \<or> k + 2 \<le> j \<Longrightarrow> get_le16 (put_le32 p j v) k = get_le16 p k"
  by (simp_all add: get_put_le)

lemma nth_put_le_hdr:
  "length p = 1078 \<Longrightarrow> j \<le> 1074 \<Longrightarrow> k < j \<Longrightarrow> put_le32 p j v ! k = p ! k"
  "length p = 1078 \<Longrightarrow> j \<le> 1074 \<Longrightarrow> k < j \<Longrightarrow> put_le16 p j x ! k = p ! k"
  by (simp_all add: put_le32_def put_le16_def nth_memcpy_at)

lemma get_le_take:
  "k + 4 \<le> n \<Longrightarrow> get_le32 (take n p) k = get_le32 p k"
  "k + 2 \<le> n \<Longrightarrow> get_le16 (take n p) k = get_le16 p k"
  by (simp_all add: get_le32_def get_le16_def)

lemma bmp_header_fields:
  fixes w h :: int
  defines "fh \<equiv> take 54 (bmp_header w h)"
  shows "fh ! 0 = of_char CHR ''B''" "fh ! 1 = of_char CHR ''M''" "get_le32 fh 10 = 1078"
    "get_le32 fh 18 = of_int w" "get_le32 fh 22 = of_int h" "get_le16 fh 28 = 8"
proof -
  define hdr :: "u8 list" where "hdr = memcpy_at (replicate PIX_OFFSET 0) 0 [of_char CHR ''B'', of_char CHR ''M'']"
  have len: "length hdr = 1078" by (simp add: hdr_def hdr_length)
  have fh: "fh = take 54 (put_le32 (put_le32 (put_le32 (put_le16 (put_le16 (put_le32 (put_le32 (put_le32 (put_le32 (put_le32 hdr 2
      (of_nat PIX_OFFSET + row_stride w * of_int h)) 10 (of_nat PIX_OFFSET)) 14 (of_nat DIB_HDR)) 18 (of_int w)) 22 (of_int h)) 26 1) 28 8)
      30 0) 34 (row_stride w * of_int h)) 46 256)" (is "_ = take 54 ?H")
  proof -
    have "take 54 (fold palette_entry [0..<256] ?H) = take 54 ?H"
      using len by (intro conjunct2 [OF palette_keeps_header]) (auto simp: put_le_length_hdr)
    then show ?thesis unfolding fh_def bmp_header_def Let_def hdr_def .
  qed
  show "get_le32 fh 10 = 1078" "get_le32 fh 18 = of_int w" "get_le32 fh 22 = of_int h" "get_le16 fh 28 = 8"
    unfolding fh using len
    by (simp_all add: get_le_take get_put_le_hdr put_le_length_hdr hdr_length)
  have "hdr ! 0 = of_char CHR ''B''" "hdr ! 1 = of_char CHR ''M''" by (simp_all add: hdr_def memcpy_at_def)
  then show "fh ! 0 = of_char CHR ''B''" "fh ! 1 = of_char CHR ''M''"
    unfolding fh using len by (simp_all add: nth_put_le_hdr put_le_length_hdr)
qed

section \<open>Reading back\<close>

definition put_row :: "u8 list \<Rightarrow> nat \<Rightarrow> nat \<Rightarrow> u8 list \<Rightarrow> u8 list" where
  "put_row q w y p = memcpy_at p (y * w) (take w (drop (y * w) q))"

lemma row_length: "y < (h::nat) \<Longrightarrow> length q = w * h \<Longrightarrow> length (take w (drop (y * w) q)) = w"
proof -
  assume a: "y < h" "length q = w * h"
  then have "Suc y * w \<le> h * w" by (intro mult_le_mono1) simp
  then have "w \<le> length q - y * w" using a(2) by (simp add: mult.commute)
  then show ?thesis by simp
qed

lemma read_rows_bytes:
  assumes "length q = w * h" and "\<forall>y\<in>set ys. y < h"
  shows "read_rows (pre @ bmp_rows q w padlen ys @ rest) w padlen ys (length pre) p = Some (fold (put_row q w) ys p)"
  using assms(2)
proof (induction ys arbitrary: pre p)
  case (Cons y ys)
  define row where "row = take w (drop (y * w) q)"
  have row: "length row = w" using row_length [of y h q w] Cons.prems assms(1) by (simp add: row_def)
  have whole: "pre @ bmp_rows q w padlen (y # ys) @ rest = pre @ row @ replicate padlen 0 @ bmp_rows q w padlen ys @ rest"
    by (simp add: bmp_rows_def row_def)
  have p: "memcpy_at p (y * w) row = put_row q w y p" by (simp add: put_row_def row_def)
  show ?case
    using Cons.IH [of "pre @ row @ replicate padlen 0" "put_row q w y p"] Cons.prems
    unfolding whole by (cases "padlen = 0") (simp_all add: fread_def Let_def row p add.assoc)
qed (simp add: bmp_rows_def)

lemma length_put_row:
  assumes "length q = w * h" and "y < h" and "length p = w * h"
  shows "length (put_row q w y p) = w * h"
proof -
  have "Suc y * w \<le> h * w" using assms(2) by (intro mult_le_mono1) simp
  then have "y * w + w \<le> length p" using assms(3) by (simp add: mult.commute)
  then show ?thesis using row_length [OF assms(2,1)] assms(3) by (simp add: put_row_def)
qed

lemma nth_put_row:
  assumes "length q = w * h" and "y < h" and "length p = w * h" and "i < w * h"
  shows "put_row q w y p ! i = (if i div w = y then q ! i else p ! i)"
proof -
  have w: "0 < w" using assms(4) by (cases w) simp_all
  have "Suc y * w \<le> h * w" using assms(2) by (intro mult_le_mono1) simp
  then have le: "y * w + w \<le> length p" using assms(3) by (simp add: mult.commute)
  have div: "i div w = y \<longleftrightarrow> y * w \<le> i \<and> i < y * w + w"
    using w by (metis add.commute div_nat_eqI dividend_less_div_times mult.commute mult_Suc_right times_div_less_eq_dividend)
  show ?thesis
    unfolding put_row_def using assms le row_length [OF assms(2,1)]
    by (subst nth_memcpy_at) (auto simp: div)
qed

lemma put_rows_all:
  assumes "length q = w * h" and "length p = w * h" and "set ys = {..<h}"
  shows "fold (put_row q w) ys p = q"
proof -
  have "length (fold (put_row q w) ys p) = w * h \<and> (\<forall>i < w * h. fold (put_row q w) ys p ! i = (if i div w \<in> set ys then q ! i else p ! i))"
    if "set ys \<subseteq> {..<h}" for ys
    using assms(2) that
  proof (induction ys arbitrary: p)
    case (Cons y ys)
    then have "y < h" by simp
    from Cons.IH [OF length_put_row [OF assms(1) this Cons.prems(1)]] Cons.prems
    show ?case using nth_put_row [OF assms(1) \<open>y < h\<close> Cons.prems(1)] by auto
  qed simp
  from this [of ys] assms(3) show ?thesis
    using assms(1) by (intro nth_equalityI) (auto simp: less_mult_imp_div_less mult.commute)
qed

lemma sint_of_small: "0 \<le> k \<Longrightarrow> k \<le> 2 ^ 22 \<Longrightarrow> sint (of_int k :: u32) = k"
  by (simp add: signed_of_int signed_take_bit_int_eq_self)

lemma image_ok_sides:
  assumes "image_ok img"
  shows "0 < img_w img" "0 < img_h img" "img_w img \<le> 2 ^ 22" "img_h img \<le> 2 ^ 22"
proof -
  from assms have i: "0 < img_w img" "0 < img_h img" "img_w img * img_h img \<le> 2 ^ 22"
    by (auto simp: image_ok_def IMAGE_MAX_PIXELS_def)
  then show "0 < img_w img" "0 < img_h img" by simp_all
  have "img_w img * 1 \<le> img_w img * img_h img" "1 * img_h img \<le> img_w img * img_h img"
    using i by (intro mult_left_mono mult_right_mono; simp)+
  with i(3) show "img_w img \<le> 2 ^ 22" "img_h img \<le> 2 ^ 22" by linarith+
qed

lemma bmp_read_bytes:
  assumes "image_ok img"
  shows "bmp_read True True (Some (bmp_bytes img)) img0 = (0, img)"
proof -
  from assms obtain p where p: "pix img = Some p" "length p = nat (img_w img) * nat (img_h img)"
    "img_w img * img_h img \<le> IMAGE_MAX_PIXELS"
    by (auto simp: image_ok_def image_size_def)
  note s = image_ok_sides [OF assms]
  let ?w = "img_w img" and ?h = "img_h img"
  let ?pad = "unat (row_stride ?w - of_int ?w)"
  have fh: "take 54 (bmp_bytes img) = take 54 (bmp_header ?w ?h)" by (simp add: bmp_bytes_def hdr_length)
  have len: "length (take 54 (bmp_bytes img)) = 54" by (simp add: fh hdr_length)
  have alloc: "image_alloc True img0 ?w ?h = (0, \<lparr>img_w = ?w, img_h = ?h, pix = Some (replicate (nat ?w * nat ?h) 0)\<rparr>)"
    using s p(3) by (simp add: image_alloc_def)
  have rows: "read_rows (bmp_bytes img) (nat ?w) ?pad (rev [0..<nat ?h]) 1078 (replicate (nat ?w * nat ?h) 0) = Some p"
  proof -
    have "read_rows (bmp_header ?w ?h @ bmp_rows p (nat ?w) ?pad (rev [0..<nat ?h]) @ []) (nat ?w) ?pad (rev [0..<nat ?h])
        (length (bmp_header ?w ?h)) (replicate (nat ?w * nat ?h) 0) =
      Some (fold (put_row p (nat ?w)) (rev [0..<nat ?h]) (replicate (nat ?w * nat ?h) 0))"
      using p(2) by (intro read_rows_bytes) auto
    also have "fold (put_row p (nat ?w)) (rev [0..<nat ?h]) (replicate (nat ?w * nat ?h) 0) = p"
      using p(2) by (intro put_rows_all) auto
    finally show ?thesis by (simp add: bmp_bytes_def p(1) hdr_length)
  qed
  note fields = bmp_header_fields [of ?w ?h, folded fh]
  have "bmp_read True True (Some (bmp_bytes img)) img0 = (0, \<lparr>img_w = ?w, img_h = ?h, pix = Some p\<rparr>)"
    unfolding bmp_read_def fread_def Let_def FILE_HDR_def DIB_HDR_def
    using s alloc rows fields len by (simp add: sint_of_small)
  then show ?thesis using p(1) by simp
qed

lemma length_bmp_rows:
  assumes "length q = w * h" and "\<forall>y\<in>set ys. y < h"
  shows "length (bmp_rows q w padlen ys) = length ys * (w + padlen)"
  using assms(2)
proof (induction ys)
  case (Cons y ys)
  then have "length (take w (drop (y * w) q)) = w" using row_length [OF _ assms(1)] by simp
  with Cons show ?case by (simp add: bmp_rows_def)
qed (simp add: bmp_rows_def)

lemma nth_bmp_rows:
  assumes "length q = w * h" and "\<forall>y\<in>set ys. y < h" and "k < length ys" and "x < w"
  shows "bmp_rows q w padlen ys ! (k * (w + padlen) + x) = q ! (ys ! k * w + x)"
  using assms(2,3)
proof (induction ys arbitrary: k)
  case (Cons y ys)
  define row where "row = take w (drop (y * w) q)"
  have "y < h" using Cons.prems by simp
  then have row: "length row = w" using row_length [OF _ assms(1)] by (simp add: row_def)
  have rows: "bmp_rows q w padlen (y # ys) = (row @ replicate padlen 0) @ bmp_rows q w padlen ys"
    by (simp add: bmp_rows_def row_def)
  show ?case
  proof (cases k)
    case 0
    have "y * w \<le> length q" using \<open>y < h\<close> assms(1) by (simp add: mult.commute)
    with 0 assms(4) row show ?thesis unfolding rows by (simp add: nth_append row_def)
  next
    case (Suc j)
    have "bmp_rows q w padlen (y # ys) ! (k * (w + padlen) + x) = bmp_rows q w padlen ys ! (j * (w + padlen) + x)"
      unfolding rows nth_append by (simp add: row Suc)
    with Suc Cons show ?thesis by simp
  qed
qed simp

lemma length_bmp_bytes:
  assumes "image_ok img"
  shows "length (bmp_bytes img) = 1078 + nat (img_h img) * (4 * ((nat (img_w img) + 3) div 4))"
proof -
  from assms obtain p where p: "pix img = Some p" "length p = nat (img_w img) * nat (img_h img)"
    by (auto simp: image_ok_def image_size_def)
  have "nat (img_w img) + unat (row_stride (img_w img) - of_int (img_w img)) = 4 * ((nat (img_w img) + 3) div 4)"
    using padlen_eq [of "img_w img"] image_ok_sides [OF assms] by simp
  then show ?thesis
    using length_bmp_rows [OF p(2), of "rev [0..<nat (img_h img)]"] by (simp add: bmp_bytes_def p(1) hdr_length)
qed

section \<open>Properties\<close>



text \<open>C25. Writing a well-formed image to a disk with enough room and reading the file back gives
  the image, whatever the image variable held before.\<close>

theorem bmp_roundtrip:
  assumes "image_ok img" and "1078 + nat (img_h img) * (nat (img_w img) + 3) \<le> disk"
  shows "\<exists>file. bmp_write img (Some (disk, buf)) = (0, Some file) \<and> bmp_read True True (Some file) img0 = (0, img)"
proof -
  have "length (bmp_bytes img) = 1078 + nat (img_h img) * (4 * ((nat (img_w img) + 3) div 4))"
  proof -
    from assms(1) have "length (the (pix img)) = nat (img_w img) * nat (img_h img)"
      by (auto simp: image_ok_def image_size_def)
    from length_bmp_rows [OF this, of "rev [0..<nat (img_h img)]"] show ?thesis
      using padlen_eq [of "img_w img"] image_ok_sides [OF assms(1)] by (simp add: bmp_bytes_def hdr_length)
  qed
  also have "\<dots> \<le> 1078 + nat (img_h img) * (nat (img_w img) + 3)"
    by (intro add_left_mono mult_left_mono) simp_all
  finally have "length (bmp_bytes img) \<le> disk" using assms(2) by linarith
  then show ?thesis using bmp_write_file [OF assms(1)] bmp_read_bytes [OF assms(1)] by simp
qed

theorem bmp_roundtrip_witness:
  "let img = \<lparr>img_w = 3, img_h = 2, pix = Some [1, 2, 3, 4, 5, 6]\<rparr>; img0 = \<lparr>img_w = 0, img_h = 0, pix = None\<rparr> in
   \<exists>file. bmp_write img (Some (4096, 0)) = (0, Some file) \<and> bmp_read True True (Some file) img0 = (0, img)"
  unfolding Let_def by (rule bmp_roundtrip) (simp_all add: image_ok_def IMAGE_MAX_PIXELS_def image_size_def)

lemma length_read_rows:
  assumes "read_rows file w padlen ys pos p = Some p'" and "\<forall>y\<in>set ys. y < h" and "length p = w * h"
  shows "length p' = w * h"
  using assms
proof (induction ys arbitrary: pos p)
  case (Cons y ys)
  have "Suc y * w \<le> h * w" using Cons.prems(2) by (intro mult_le_mono1) simp
  then have le: "y * w + w \<le> length p" using Cons.prems(3) by (simp add: mult.commute)
  obtain row pos1 where r: "fread file pos w = (row, pos1)" by (cases "fread file pos w")
  obtain pad pos2 where d: "fread file pos1 padlen = (pad, pos2)" by (cases "fread file pos1 padlen")
  from Cons.prems(1) have row: "length row = w"
    and "read_rows file w padlen ys (if padlen = 0 then pos1 else pos2) (memcpy_at p (y * w) row) = Some p'"
    by (auto simp: r d Let_def split: if_split_asm)
  from Cons.IH [OF this(2)] Cons.prems(2,3) le row show ?case by simp
qed simp

text \<open>C27. Reading an arbitrary file, of any length and with any header fields, is safe: it either
  fails, and then the image variable is unchanged or holds no pixels, or it gives an image with
  positive sides within the cap and one byte per pixel.\<close>

theorem bmp_read_any_file:
  assumes "bmp_read calloc_ok seek_ok file img = (r, img')"
  shows "r = 0 \<and> image_ok img' \<or> r = -1 \<and> (img' = img \<or> pix img' = None)"
proof -
  have alloc: "a = 0 \<and> 0 < w \<and> 0 < h \<and> w * h \<le> IMAGE_MAX_PIXELS \<and>
      i = img\<lparr>img_w := w, img_h := h, pix := Some (replicate (nat w * nat h) 0)\<rparr> \<or> a = -1 \<and> (i = img \<or> pix i = None)"
    if "image_alloc calloc_ok img w h = (a, i)" for w h a i
    using that by (auto simp: image_alloc_def Let_def not_le split: if_split_asm)
  have rows: "image_ok (img\<lparr>img_w := w, img_h := h, pix := Some p\<rparr>)"
    if "read_rows fl (nat w) padlen (rev [0..<nat h]) pos (replicate (nat w * nat h) 0) = Some p"
      "0 < w" "0 < h" "w * h \<le> IMAGE_MAX_PIXELS" for fl w padlen h pos p
    using length_read_rows [OF that(1), of "nat h"] that(2-) by (simp add: image_ok_def image_size_def)
  show ?thesis
  proof (cases "file")
    case None then show ?thesis using assms by (simp add: bmp_read_def)
  next
    case (Some fl)
    define fh where "fh = take 54 fl"
    define w h where "w = sint (get_le32 fh 18)" and "h = sint (get_le32 fh 22)"
    obtain a i where a: "image_alloc calloc_ok img w h = (a, i)" by (cases "image_alloc calloc_ok img w h")
    let ?rows = "read_rows fl (nat w) (unat (row_stride w - of_int w)) (rev [0..<nat h]) (unat (get_le32 fh 10)) (the (pix i))"
    have eq: "bmp_read calloc_ok seek_ok file img =
      (if length fh \<noteq> 54 then (-1, img)
       else if fh ! 0 \<noteq> of_char CHR ''B'' \<or> fh ! 1 \<noteq> of_char CHR ''M'' then (-1, img)
       else if get_le16 fh 28 \<noteq> 8 \<or> w \<le> 0 \<or> h \<le> 0 then (-1, img)
       else if a \<noteq> 0 then (-1, i)
       else if \<not> seek_ok then (-1, image_free i)
       else case ?rows of None \<Rightarrow> (-1, image_free i) | Some p \<Rightarrow> (0, i\<lparr>pix := Some p\<rparr>))"
      by (simp only: bmp_read_def Some option.case fread_def Let_def prod.case FILE_HDR_def DIB_HDR_def drop_0
          fh_def w_def h_def numeral_plus_numeral add_num_simps a [unfolded w_def h_def fh_def])
    from alloc [OF a] show ?thesis
      using assms rows [of fl w "unat (row_stride w - of_int w)" h "unat (get_le32 fh 10)"]
      unfolding eq by (auto simp: image_free_def split: if_split_asm option.split_asm)
  qed
qed

theorem bmp_read_any_file_witness:
  "let img = \<lparr>img_w = 1, img_h = 1, pix = Some [7]\<rparr> in
   bmp_read True True (Some [66, 77, 0]) img = (-1, img) \<and> (img = img \<or> pix img = None)"
proof -
  let ?img = "\<lparr>img_w = 1, img_h = 1, pix = Some [7]\<rparr> :: image"
  have "bmp_read True True (Some [66, 77, 0]) ?img = (-1, ?img)"
    by (simp add: bmp_read_def fread_def FILE_HDR_def DIB_HDR_def)
  with bmp_read_any_file [OF this] show ?thesis by simp
qed

end
