(* ===== verification/Netutil.thy ===== *)
theory Netutil
  imports Prelude
begin

text \<open>
  \<^verbatim>\<open>common/netutil.c\<close>: reading and writing an exact number of bytes on a stream socket. What the
  network will do is part of the socket: the list \<open>rx\<close> of what the next calls to \<^verbatim>\<open>recv\<close> find
  (a segment of data, an error such as an interruption or a timeout tick, the end of the
  stream), and the list \<open>txs\<close> of how much the next calls to \<^verbatim>\<open>send\<close> accept. When \<open>rx\<close> is used
  up the peer is silent, and every further \<^verbatim>\<open>recv\<close> times out; when \<open>txs\<close> is used up \<^verbatim>\<open>send\<close>
  accepts everything. Both loops are total functions.

  The meaning of a list of events is the byte string it delivers before something stops it
  (\<open>rx_bytes\<close>, \<open>rx_stop\<close>): \<^verbatim>\<open>read_n\<close> is shown to depend on nothing else, so that how the
  stream was cut into segments, and how often it was interrupted, cannot be seen.
\<close>

section \<open>Sockets\<close>

datatype rx_event = RxData "u8 list" | RxErr errno | RxEof

datatype tx_event = TxAccept nat | TxErr errno

record sock =
  rx :: "rx_event list"
  txs :: "tx_event list"
  tx_out :: "u8 list"

text \<open>\<^verbatim>\<open>recv(fd, p, n, 0)\<close>: the bytes received (none at the end of the stream) or an error. Bytes of a
  segment that were not asked for stay in the stream; the end of the stream stays reached.\<close>

fun recv :: "nat \<Rightarrow> rx_event list \<Rightarrow> (errno + u8 list) \<times> rx_event list" where
  "recv n [] = (Inl EAGAIN, [])"
| "recv n (RxData bs # es) =
     (if bs = [] then recv n es
      else (Inr (take n bs), if length bs \<le> n then es else RxData (drop n bs) # es))"
| "recv n (RxErr e # es) = (Inl e, es)"
| "recv n (RxEof # es) = (Inr [], RxEof # es)"

text \<open>\<^verbatim>\<open>send(fd, p, n, MSG_NOSIGNAL)\<close> with \<open>n > 0\<close>: accepts at least one byte unless it fails.\<close>

definition send :: "u8 list \<Rightarrow> sock \<Rightarrow> sys_result \<times> sock" where
  "send bs s =
     (case txs s of
        [] \<Rightarrow> (Inr (length bs), s\<lparr>tx_out := tx_out s @ bs\<rparr>)
      | TxAccept k # es \<Rightarrow>
          let m = min (length bs) (max 1 k) in (Inr m, s\<lparr>txs := es, tx_out := tx_out s @ take m bs\<rparr>)
      | TxErr e # es \<Rightarrow> (Inl e, s\<lparr>txs := es\<rparr>))"

section \<open>The loops\<close>

lemma recv_progress:
  "recv n es = (Inr bs, es') \<Longrightarrow> bs \<noteq> [] \<Longrightarrow> length es' \<le> length es"
  "recv n es = (Inl EINTR, es') \<Longrightarrow> length es' < length es"
  by (induction n es rule: recv.induct) (auto split: if_split_asm)

lemma recv_length: "recv n es = (Inr bs, es') \<Longrightarrow> length bs \<le> n"
  by (induction n es rule: recv.induct) (auto split: if_split_asm)

text \<open>\<open>read_n_loop n got buf es\<close>: \<open>got\<close> bytes of \<open>n\<close> are in the buffer.\<close>

function read_n_loop :: "nat \<Rightarrow> nat \<Rightarrow> u8 list \<Rightarrow> rx_event list \<Rightarrow> sys_result \<times> u8 list \<times> rx_event list" where
  "read_n_loop n got buf es =
     (if got < n then
        (case recv (n - got) es of
           (Inl e, es1) \<Rightarrow> if e = EINTR then read_n_loop n got buf es1 else (Inl e, buf, es1)
         | (Inr bs, es1) \<Rightarrow>
             if bs = [] then (Inr got, buf, es1)
             else read_n_loop n (got + length bs) (memcpy_at buf got bs) es1)
      else (Inr got, buf, es))"
  by pat_completeness auto

termination
proof (relation "measure (\<lambda>(n, got, buf, es). (n - got) + length es)", goal_cases)
  case (2 n got buf es x b e)
  then show ?case using recv_progress(2) [of "n - got" es b] by auto
next
  case (3 n got buf es x b bs)
  then show ?case using recv_progress(1) [of "n - got" es bs b] by (cases bs) auto
qed simp

declare read_n_loop.simps [simp del]

definition read_n :: "nat \<Rightarrow> u8 list \<Rightarrow> sock \<Rightarrow> sys_result \<times> u8 list \<times> sock" where
  "read_n n buf s = (case read_n_loop n 0 buf (rx s) of (r, buf1, es) \<Rightarrow> (r, buf1, s\<lparr>rx := es\<rparr>))"

lemma send_progress:
  assumes "send bs s = (Inr m, s')" and "bs \<noteq> []"
  shows "0 < m" "m \<le> length bs" "tx_out s' = tx_out s @ take m bs" "rx s' = rx s"
    "length (txs s') \<le> length (txs s)"
  using assms by (auto simp: send_def Let_def split: list.split_asm tx_event.split_asm)

lemma send_fails:
  assumes "send bs s = (Inl e, s')"
  shows "tx_out s' = tx_out s" "rx s' = rx s" "length (txs s') < length (txs s)"
  using assms by (auto simp: send_def Let_def split: list.split_asm tx_event.split_asm)

text \<open>\<open>write_n_loop bs sent s\<close>: the first \<open>sent\<close> bytes of \<open>bs\<close> are out.\<close>

function write_n_loop :: "u8 list \<Rightarrow> nat \<Rightarrow> sock \<Rightarrow> sys_result \<times> sock" where
  "write_n_loop bs sent s =
     (if sent < length bs then
        (case send (drop sent bs) s of
           (Inl e, s1) \<Rightarrow> if e = EINTR then write_n_loop bs sent s1 else (Inl e, s1)
         | (Inr w, s1) \<Rightarrow> write_n_loop bs (sent + w) s1)
      else (Inr sent, s))"
  by pat_completeness auto

termination
proof (relation "measure (\<lambda>(bs, sent, s). (length bs - sent) + length (txs s))", goal_cases)
  case (2 bs sent s x b e)
  then show ?case using send_fails(3) [of "drop sent bs" s e b] by auto
next
  case (3 bs sent s x b w)
  then show ?case using send_progress(1,5) [of "drop sent bs" s w b] by auto
qed simp

declare write_n_loop.simps [simp del]

definition write_n :: "u8 list \<Rightarrow> sock \<Rightarrow> sys_result \<times> sock" where
  "write_n bs s = write_n_loop bs 0 s"

section \<open>What a list of events delivers\<close>

fun rx_bytes :: "rx_event list \<Rightarrow> u8 list" where
  "rx_bytes [] = []"
| "rx_bytes (RxData bs # es) = bs @ rx_bytes es"
| "rx_bytes (RxErr e # es) = (if e = EINTR then rx_bytes es else [])"
| "rx_bytes (RxEof # es) = []"

text \<open>What stops the delivery, and what is left after it.\<close>

datatype rx_end = Closed | Failed errno

fun rx_stop :: "rx_event list \<Rightarrow> rx_end \<times> rx_event list" where
  "rx_stop [] = (Failed EAGAIN, [])"
| "rx_stop (RxData bs # es) = rx_stop es"
| "rx_stop (RxErr e # es) = (if e = EINTR then rx_stop es else (Failed e, es))"
| "rx_stop (RxEof # es) = (Closed, RxEof # es)"

lemma recv_data:
  assumes "recv n es = (Inr bs, es')" and "bs \<noteq> []" and "0 < n"
  shows "rx_bytes es = bs @ rx_bytes es'" "rx_stop es' = rx_stop es"
  using assms by (induction n es rule: recv.induct) (auto split: if_split_asm)

lemma recv_eof:
  assumes "recv n es = (Inr [], es')" and "0 < n"
  shows "rx_bytes es = []" "rx_stop es = (Closed, es')"
  using assms by (induction n es rule: recv.induct) (auto split: if_split_asm)

lemma recv_intr:
  assumes "recv n es = (Inl EINTR, es')"
  shows "rx_bytes es = rx_bytes es'" "rx_stop es' = rx_stop es"
  using assms by (induction n es rule: recv.induct) (auto split: if_split_asm)

lemma recv_err:
  assumes "recv n es = (Inl e, es')" and "e \<noteq> EINTR"
  shows "rx_bytes es = []" "rx_stop es = (Failed e, es')"
  using assms by (induction n es rule: recv.induct) (auto split: if_split_asm)

lemma read_n_loop_spec:
  assumes "read_n_loop n got buf es = (r, buf', es')" and "got \<le> n" and "n \<le> length buf"
  shows "(if n - got \<le> length (rx_bytes es)
          then r = Inr n \<and> rx_bytes es' = drop (n - got) (rx_bytes es) \<and> rx_stop es' = rx_stop es
          else es' = snd (rx_stop es) \<and>
            r = (case fst (rx_stop es) of Closed \<Rightarrow> Inr (got + length (rx_bytes es)) | Failed e \<Rightarrow> Inl e)) \<and>
    buf' = memcpy_at buf got (take (n - got) (rx_bytes es))"
  using assms
proof (induction n got buf es arbitrary: r buf' es' rule: read_n_loop.induct)
  case (1 n got buf es)
  note IH = "1.IH" and prems = "1.prems"
  show ?case
  proof (cases "got < n")
    case False
    with prems show ?thesis by (simp add: read_n_loop.simps [of n got] memcpy_at_def)
  next
    case lt: True
    obtain x es1 where rv: "recv (n - got) es = (x, es1)" by (cases "recv (n - got) es")
    have n0: "0 < n - got" using lt by simp
    consider (intr) "x = Inl EINTR" | (err) e where "x = Inl e" "e \<noteq> EINTR" | (eof) "x = Inr []"
      | (data) bs where "x = Inr bs" "bs \<noteq> []" by (cases x) auto
    then show ?thesis
    proof cases
      case intr
      with prems(1) rv lt have "read_n_loop n got buf es1 = (r, buf', es')"
        by (simp add: read_n_loop.simps [of n got buf es])
      from IH(1) [OF lt rv [symmetric] _ _ this prems(2,3)] intr recv_intr [OF rv [unfolded intr]]
      show ?thesis by (simp split: rx_end.split)
    next
      case err
      with prems(1) rv lt have "r = Inl e" "buf' = buf" "es' = es1"
        by (simp_all add: read_n_loop.simps [of n got buf es])
      with err recv_err [of "n - got" es e es1] rv lt show ?thesis by (simp add: memcpy_at_def)
    next
      case eof
      with prems(1) rv lt have "r = Inr got" "buf' = buf" "es' = es1"
        by (simp_all add: read_n_loop.simps [of n got buf es])
      with eof recv_eof [of "n - got" es es1] rv lt show ?thesis by (simp add: memcpy_at_def)
    next
      case data
      with prems(1) rv lt have run: "read_n_loop n (got + length bs) (memcpy_at buf got bs) es1 = (r, buf', es')"
        by (simp add: read_n_loop.simps [of n got buf es])
      have len: "length bs \<le> n - got" using recv_length [of "n - got" es bs es1] rv data by simp
      have pre: "got + length bs \<le> n" "n \<le> length (memcpy_at buf got bs)" using len lt prems(3) by simp_all
      have bytes: "rx_bytes es = bs @ rx_bytes es1" "rx_stop es1 = rx_stop es"
        using recv_data [of "n - got" es bs es1] rv data n0 by simp_all
      have copy: "memcpy_at (memcpy_at buf got bs) (got + length bs) zs = memcpy_at buf got (bs @ zs)" for zs
        using prems(3) pre by (simp add: memcpy_at_def ac_simps)
      have split: "take (n - got) (rx_bytes es) = bs @ take (n - (got + length bs)) (rx_bytes es1)"
        using len by (simp add: bytes)
      from IH(2) [OF lt rv [symmetric] data run pre] len show ?thesis
        unfolding copy split bytes by (auto split: rx_end.split)
    qed
  qed
qed

lemma write_n_loop_spec:
  assumes "write_n_loop bs sent s = (r, s')" and "sent \<le> length bs"
  shows "rx s' = rx s \<and> (\<exists>k. sent \<le> k \<and> k \<le> length bs \<and> tx_out s' = tx_out s @ take (k - sent) (drop sent bs) \<and>
    (r = Inr (length bs) \<and> k = length bs \<or> (\<exists>e. r = Inl e \<and> e \<noteq> EINTR \<and> k < length bs)))"
  using assms
proof (induction bs sent s arbitrary: r s' rule: write_n_loop.induct)
  case (1 bs sent s)
  note IH = "1.IH" and prems = "1.prems"
  show ?case
  proof (cases "sent < length bs")
    case False
    with prems show ?thesis by (auto simp: write_n_loop.simps [of bs sent s])
  next
    case lt: True
    obtain x s1 where sd: "send (drop sent bs) s = (x, s1)" by (cases "send (drop sent bs) s")
    consider (intr) "x = Inl EINTR" | (err) e where "x = Inl e" "e \<noteq> EINTR" | (ok) w where "x = Inr w" by (cases x) auto
    then show ?thesis
    proof cases
      case intr
      with prems(1) sd lt have "write_n_loop bs sent s1 = (r, s')" by (simp add: write_n_loop.simps [of bs sent s])
      from IH(1) [OF lt sd [symmetric] intr refl this prems(2)] send_fails [of "drop sent bs" s EINTR s1] sd intr
      show ?thesis by simp
    next
      case err
      with prems(1) sd lt have "r = Inl e" "s' = s1" by (simp_all add: write_n_loop.simps [of bs sent s])
      with send_fails [of "drop sent bs" s e s1] sd err lt show ?thesis by (intro conjI exI [of _ sent]) auto
    next
      case ok
      note pr = send_progress [of "drop sent bs" s w s1]
      from ok prems(1) sd lt have run: "write_n_loop bs (sent + w) s1 = (r, s')" by (simp add: write_n_loop.simps [of bs sent s])
      have w: "w \<le> length bs - sent" "tx_out s1 = tx_out s @ take w (drop sent bs)" "rx s1 = rx s" using pr sd ok lt by simp_all
      have "sent + w \<le> length bs" using w(1) lt by simp
      from IH(2) [OF lt sd [symmetric] ok run this]
      obtain k where k: "rx s' = rx s1" "sent + w \<le> k" "k \<le> length bs" "tx_out s' = tx_out s1 @ take (k - (sent + w)) (drop (sent + w) bs)"
        "r = Inr (length bs) \<and> k = length bs \<or> (\<exists>e. r = Inl e \<and> e \<noteq> EINTR \<and> k < length bs)" by auto
      have "take (k - sent) (drop sent bs) = take w (drop sent bs) @ take (k - (sent + w)) (drop (sent + w) bs)"
        using take_add [of w "k - (sent + w)" "drop sent bs"] k(2) by (simp add: add.commute)
      with k w show ?thesis by (intro conjI exI [of _ k]) auto
    qed
  qed
qed

lemma read_n_spec:
  assumes "read_n n buf s = (r, buf', s')" and "n \<le> length buf"
  shows "buf' = memcpy_at buf 0 (take n (rx_bytes (rx s))) \<and> s' = s\<lparr>rx := rx s'\<rparr> \<and>
    (if n \<le> length (rx_bytes (rx s)) then
       r = Inr n \<and> rx_bytes (rx s') = drop n (rx_bytes (rx s)) \<and> rx_stop (rx s') = rx_stop (rx s)
     else rx s' = snd (rx_stop (rx s)) \<and>
       r = (case fst (rx_stop (rx s)) of Closed \<Rightarrow> Inr (length (rx_bytes (rx s))) | Failed e \<Rightarrow> Inl e))"
proof -
  obtain x b es where l: "read_n_loop n 0 buf (rx s) = (x, b, es)" by (cases "read_n_loop n 0 buf (rx s)")
  with assms(1) have "x = r" "b = buf'" "s' = s\<lparr>rx := es\<rparr>" by (simp_all add: read_n_def)
  with read_n_loop_spec [OF l _ assms(2)] show ?thesis by (auto split: rx_end.split)
qed

text \<open>The two outcomes a caller distinguishes: all bytes came, or they did not.\<close>

lemma read_n_full:
  assumes "n \<le> length (rx_bytes (rx s))" and "n \<le> length buf"
  obtains es where "read_n n buf s = (Inr n, memcpy_at buf 0 (take n (rx_bytes (rx s))), s\<lparr>rx := es\<rparr>)"
    and "rx_bytes es = drop n (rx_bytes (rx s))" and "rx_stop es = rx_stop (rx s)"
proof -
  obtain r b s' where r: "read_n n buf s = (r, b, s')" by (cases "read_n n buf s")
  from read_n_spec [OF r assms(2)] assms(1) have f: "r = Inr n" "b = memcpy_at buf 0 (take n (rx_bytes (rx s)))"
    "s' = s\<lparr>rx := rx s'\<rparr>" "rx_bytes (rx s') = drop n (rx_bytes (rx s))" "rx_stop (rx s') = rx_stop (rx s)" by auto
  then have "read_n n buf s = (Inr n, memcpy_at buf 0 (take n (rx_bytes (rx s))), s\<lparr>rx := rx s'\<rparr>)" using r by simp
  with f(4,5) show ?thesis using that by blast
qed

lemma write_n_empty_script: "txs s = [] \<Longrightarrow> write_n bs s = (Inr (length bs), s\<lparr>tx_out := tx_out s @ bs\<rparr>)"
  by (cases bs) (simp_all add: write_n_def write_n_loop.simps [of _ 0] write_n_loop.simps [of _ "length _"]
      write_n_loop.simps [of _ "Suc (length _)"] send_def)

lemma write_n_rx: "write_n bs s = (r, s') \<Longrightarrow> rx s' = rx s"
  using write_n_loop_spec [of bs 0 s r s'] by (simp add: write_n_def)

section \<open>The loops make progress\<close>

text \<open>The size of what is still to come. Reading can only shrink it, and an error shrinks it
  unless the peer is silent.\<close>

fun rx_size :: "rx_event list \<Rightarrow> nat" where
  "rx_size [] = 0"
| "rx_size (RxData bs # es) = Suc (length bs + rx_size es)"
| "rx_size (RxErr e # es) = Suc (rx_size es)"
| "rx_size (RxEof # es) = Suc (rx_size es)"

lemma recv_size:
  assumes "recv n es = (x, es')" and "0 < n"
  shows "case x of Inl e \<Rightarrow> rx_size es' < rx_size es \<or> es = [] \<and> es' = [] \<and> e = EAGAIN
    | Inr bs \<Rightarrow> rx_size es' + length bs \<le> rx_size es"
  using assms by (induction n es rule: recv.induct) (auto split: sum.splits if_splits)

lemma read_n_loop_size:
  assumes "read_n_loop n got buf es = (r, buf', es')" and "got \<le> n"
  shows "case r of Inl e \<Rightarrow> rx_size es' < rx_size es \<or> es' = es \<and> e = EAGAIN
    | Inr m \<Rightarrow> rx_size es' + (m - got) \<le> rx_size es"
  using assms
proof (induction n got buf es arbitrary: r buf' es' rule: read_n_loop.induct)
  case (1 n got buf es)
  show ?case
  proof (cases "got < n")
    case False
    with "1.prems" show ?thesis by (auto simp: read_n_loop.simps [of n got])
  next
    case lt: True
    obtain x es1 where rv: "recv (n - got) es = (x, es1)" by (cases "recv (n - got) es")
    note size = recv_size [OF rv]
    consider (intr) "x = Inl EINTR" | (err) e where "x = Inl e" "e \<noteq> EINTR" | (eof) "x = Inr []"
      | (data) bs where "x = Inr bs" "bs \<noteq> []" by (cases x) auto
    then show ?thesis
    proof cases
      case intr
      with "1.prems"(1) rv lt have "read_n_loop n got buf es1 = (r, buf', es')"
        by (simp add: read_n_loop.simps [of n got buf es])
      from "1.IH"(1) [OF lt rv [symmetric] intr refl this "1.prems"(2)] size intr lt
      show ?thesis by (auto split: sum.splits)
    next
      case err
      with "1.prems"(1) rv lt size show ?thesis by (auto simp: read_n_loop.simps [of n got buf es])
    next
      case eof
      with "1.prems"(1) rv lt size show ?thesis by (auto simp: read_n_loop.simps [of n got buf es])
    next
      case data
      with "1.prems"(1) rv lt have run: "read_n_loop n (got + length bs) (memcpy_at buf got bs) es1 = (r, buf', es')"
        by (simp add: read_n_loop.simps [of n got buf es])
      have "got + length bs \<le> n" using recv_length [of "n - got" es bs es1] rv data lt by simp
      from "1.IH"(2) [OF lt rv [symmetric] data run this] size data lt show ?thesis
        by (cases bs) (auto split: sum.splits)
    qed
  qed
qed

lemma read_n_size:
  assumes "read_n n buf s = (r, buf', s')"
  shows "case r of Inl e \<Rightarrow> rx_size (rx s') < rx_size (rx s) \<or> rx s' = rx s \<and> e = EAGAIN
    | Inr m \<Rightarrow> rx_size (rx s') + m \<le> rx_size (rx s)"
proof -
  obtain x b es where l: "read_n_loop n 0 buf (rx s) = (x, b, es)" by (cases "read_n_loop n 0 buf (rx s)")
  with assms have "x = r" "s' = s\<lparr>rx := es\<rparr>" by (simp_all add: read_n_def)
  with read_n_loop_size [OF l] show ?thesis by (auto split: sum.splits)
qed

section \<open>Properties\<close>

text \<open>
  C22. \<^verbatim>\<open>read_n\<close> reads a stream, not segments: its result depends only on the bytes the socket
  delivers and on what stops them. If at least \<open>n\<close> bytes come, it returns \<open>n\<close> with exactly the
  first \<open>n\<close> of them in the buffer, and the rest is what the next call finds. If the peer
  closes earlier, it returns the number of bytes that came. If a timeout or another error
  comes earlier, it returns the error, and the bytes that had come are gone from the stream.
  Bytes of the buffer past the ones read keep their old value.
\<close>

theorem read_n_stream:
  assumes "read_n n buf s = (r, buf', s')" and "n \<le> length buf"
  shows "buf' = memcpy_at buf 0 (take n (rx_bytes (rx s))) \<and> s' = s\<lparr>rx := rx s'\<rparr> \<and>
    (if n \<le> length (rx_bytes (rx s)) then
       r = Inr n \<and> rx_bytes (rx s') = drop n (rx_bytes (rx s)) \<and> rx_stop (rx s') = rx_stop (rx s)
     else rx s' = snd (rx_stop (rx s)) \<and>
       r = (case fst (rx_stop (rx s)) of Closed \<Rightarrow> Inr (length (rx_bytes (rx s))) | Failed e \<Rightarrow> Inl e))"
  using assms by (rule read_n_spec)

theorem read_n_stream_witness:
  "let s = \<lparr>rx = [RxData [1, 2], RxErr EINTR, RxData [3, 4], RxErr EAGAIN], txs = [], tx_out = []\<rparr> in
   (\<exists>s'. read_n 3 [0, 0, 0, 9] s = (Inr 3, [1, 2, 3, 9], s') \<and> rx_bytes (rx s') = [4]) \<and>
   (\<exists>s'. read_n 5 [0, 0, 0, 0, 0] s = (Inl EAGAIN, [1, 2, 3, 4, 0], s') \<and> rx s' = [])"
proof -
  let ?s = "\<lparr>rx = [RxData [1, 2], RxErr EINTR, RxData [3, 4], RxErr EAGAIN], txs = [], tx_out = []\<rparr> :: sock"
  obtain r b s' where 1: "read_n 3 [0, 0, 0, 9] ?s = (r, b, s')" by (cases "read_n 3 [0, 0, 0, 9] ?s")
  obtain r2 b2 s2 where 2: "read_n 5 [0, 0, 0, 0, 0] ?s = (r2, b2, s2)" by (cases "read_n 5 [0, 0, 0, 0, 0] ?s")
  from read_n_stream [OF 1] read_n_stream [OF 2] show ?thesis
    unfolding Let_def 1 2 by (simp add: memcpy_at_def numeral_3_eq_3)
qed

text \<open>
  \<^verbatim>\<open>write_n\<close> sends everything or reports an error: however the calls to \<^verbatim>\<open>send\<close> cut the
  bytes up, a success means all of them went out, in order and once; an error means a proper
  prefix went out. An interruption alone is never reported.
\<close>

lemma write_n_all:
  assumes "write_n bs s = (r, s')"
  shows "rx s' = rx s \<and> (r = Inr (length bs) \<and> tx_out s' = tx_out s @ bs \<or>
    (\<exists>e k. r = Inl e \<and> e \<noteq> EINTR \<and> k < length bs \<and> tx_out s' = tx_out s @ take k bs))"
  using write_n_loop_spec [of bs 0 s r s'] assms by (auto simp: write_n_def)

end
