(* ===== verification/Client_Handler.thy ===== *)
theory Client_Handler
  imports Netutil Device_Table Sink Frame_Asm Convolve Bmp
begin

text \<open>
  \<^verbatim>\<open>server/client_handler.c\<close>: the worker that serves one TCP connection. One round of its loop is
  \<open>worker_iter\<close>, composed of the phases of the code (header, framing checks, payload, checksum,
  dispatch); \<open>worker_loop\<close> is the loop and \<open>client_worker\<close> the whole thread, with its cleanup.
  What the outside contributes to a round (clock, memory allocation, files) is a record
  \<open>wenv\<close>, one per round. Log lines are not modelled.

  The payload buffer outlives the packet it was read for, as in the code; and a use of the
  device pointer when it is NULL is the outcome \<open>Crash\<close>.
\<close>

section \<open>Shared server state\<close>

record server_config =
  tcp_port :: u16
  udp_port :: u16
  max_clients :: int

text \<open>
  \<^verbatim>\<open>server_ctx_t\<close>. The sink is its v-table and its state; \<open>next_session\<close> is the global
  \<^verbatim>\<open>g_next_session\<close>; \<open>open_fds\<close> are the descriptors of accepted connections that are open,
  \<open>files\<close> the frames written below \<open>frame_dir\<close>, \<open>pipe_bytes\<close> what the shutdown pipe holds.
\<close>

record 's server_ctx =
  cfg :: server_config
  running :: bool
  dump_requested :: bool
  active_workers :: int
  client_slots :: nat
  listen_fd :: int
  pipe_bytes :: nat
  dtable :: device_table
  ctx_sink :: "'s sink"
  sink_st :: 's
  frame_dir :: "string option"
  next_session :: u32
  open_fds :: "int set"
  files :: "string \<Rightarrow> u8 list option"

section \<open>Worker state\<close>

definition WORKER_TICK_S :: nat where "WORKER_TICK_S = 2"
definition DEAD_PEER_S :: nat where "DEAD_PEER_S = 30"
definition MAX_STRIKES :: nat where "MAX_STRIKES = 3"
definition ACK_EVERY :: u32 where "ACK_EVERY = 8"

datatype worker_state = WAIT_HELLO | ACTIVE | CLOSING

record worker =
  w_state :: worker_state
  w_session :: u32
  w_dev :: "nat option"
  strikes :: nat
  idle_ticks :: nat
  sensor_count :: u32
  w_payload :: "u8 list"
  w_fa :: frame_asm

record wenv =
  e_time :: int
  e_clock :: "u64 \<times> u64"
  e_calloc_dev :: bool
  e_malloc_frame :: "nat \<Rightarrow> u8 list option"
  e_calloc_seen :: bool
  e_calloc_img :: bool
  e_calloc_edges :: bool
  e_fopen_in :: "(nat \<times> nat) option"
  e_fopen_edges :: "(nat \<times> nat) option"

text \<open>What a phase decides: go on with the packet, next round, leave the loop, or crash.\<close>

datatype outcome = Proceed | Next | Leave | Crash

type_synonym 's wstate = "worker \<times> sock \<times> 's server_ctx"

section \<open>Sending\<close>

definition send_packet :: "endian \<Rightarrow> pkt_type \<Rightarrow> u32 \<Rightarrow> u8 list \<Rightarrow> u16 \<Rightarrow> sock \<Rightarrow> int \<times> sock" where
  "send_packet host type dev_no payload plen s =
     (let (n, out) = pl_build host (replicate (PL_HDR_SIZE + 64) 0) (PL_HDR_SIZE + 64) type dev_no (Some payload) plen in
      if n = 0 then (-1, s)
      else let (r, s1) = write_n (take n out) s in (if r = Inr n then 0 else -1, s1))"

definition send_error :: "endian \<Rightarrow> u32 \<Rightarrow> pl_error \<Rightarrow> sock \<Rightarrow> int \<times> sock" where
  "send_error host dev_no code s =
     (let be = htons host (err_code code) in send_packet host PKT_ERROR dev_no (mem_u16 host be) 2 s)"

definition now_ns :: "u64 \<times> u64 \<Rightarrow> u64" where
  "now_ns ts = fst ts * 1000000000 + snd ts"

section \<open>One round of the loop\<close>

text \<open>The reaction to a bad packet that the code repeats: answer, count it, add a strike.\<close>

definition bad_packet :: "endian \<Rightarrow> u32 \<Rightarrow> pl_error \<Rightarrow> 's wstate \<Rightarrow> 's wstate" where
  "bad_packet host dev_no code st =
     (case st of (w, s, c) \<Rightarrow>
        (w\<lparr>strikes := strikes w + 1\<rparr>, snd (send_error host dev_no code s),
         c\<lparr>dtable := dt_record_bad (w_dev w) (dtable c)\<rparr>))"

definition strike_out :: "'s wstate \<Rightarrow> outcome \<times> 's wstate" where
  "strike_out st = (if strikes (fst st) \<ge> MAX_STRIKES then (Leave, st) else (Next, st))"

definition read_header :: "endian \<Rightarrow> 's wstate \<Rightarrow> outcome \<times> pl_header \<times> 's wstate" where
  "read_header host st =
     (case st of (w, s, c) \<Rightarrow>
      let (r, hdrbuf, s1) = read_n PL_HDR_SIZE (replicate PL_HDR_SIZE 0) s;
          h = pl_parse_header host hdrbuf
      in case r of
           Inl e \<Rightarrow>
             if e = EAGAIN then
               let w1 = w\<lparr>idle_ticks := idle_ticks w + 1\<rparr> in
               if idle_ticks w1 * WORKER_TICK_S \<ge> DEAD_PEER_S then (Leave, h, w1, s1, c) else (Next, h, w1, s1, c)
             else (Leave, h, w, s1, c)
         | Inr n \<Rightarrow>
             if n = 0 then (Leave, h, w, s1, c)
             else if n \<noteq> PL_HDR_SIZE then (Leave, h, w, s1, c)
             else (Proceed, h, w\<lparr>idle_ticks := 0\<rparr>, s1, c))"

definition check_framing :: "endian \<Rightarrow> pl_header \<Rightarrow> 's wstate \<Rightarrow> outcome \<times> 's wstate" where
  "check_framing host h st =
     (if h_magic h \<noteq> PL_MAGIC then strike_out (bad_packet host (h_device_id h) PL_ERR_BAD_MAGIC st)
      else if h_version h \<noteq> PL_VERSION then strike_out (bad_packet host (h_device_id h) PL_ERR_BAD_VERSION st)
      else if unat (h_payload_len h) > PL_MAX_PAYLOAD then strike_out (bad_packet host (h_device_id h) PL_ERR_TOO_BIG st)
      else (Proceed, st))"

definition read_payload :: "pl_header \<Rightarrow> 's wstate \<Rightarrow> outcome \<times> 's wstate" where
  "read_payload h st =
     (case st of (w, s, c) \<Rightarrow>
      if unat (h_payload_len h) > 0 then
        let (r, buf, s1) = read_n (unat (h_payload_len h)) (w_payload w) s;
            w1 = w\<lparr>w_payload := buf\<rparr>
        in if r \<noteq> Inr (unat (h_payload_len h)) then (Leave, w1, s1, c) else (Proceed, w1, s1, c)
      else (Proceed, st))"

definition check_payload :: "endian \<Rightarrow> pl_header \<Rightarrow> 's wstate \<Rightarrow> outcome \<times> 's wstate" where
  "check_payload host h st =
     (if pl_checksum (w_payload (fst st)) (unat (h_payload_len h)) \<noteq> h_checksum h
      then strike_out (bad_packet host (h_device_id h) PL_ERR_BAD_CHECKSUM st)
      else (Proceed, st))"

definition on_wait_hello :: "endian \<Rightarrow> wenv \<Rightarrow> pl_header \<Rightarrow> 's wstate \<Rightarrow> outcome \<times> 's wstate" where
  "on_wait_hello host env h st =
     (case st of (w, s, c) \<Rightarrow>
      if h_type h \<noteq> pkt_code PKT_HELLO then
        (Leave, w, snd (send_error host (h_device_id h) PL_ERR_NO_HELLO s), c)
      else
        let sid = next_session c;
            (dev, t) = dt_get_or_create (e_calloc_dev env) (e_time env) (h_device_id h) sid (dtable c);
            c1 = c\<lparr>next_session := sid + 1, dtable := t\<rparr>;
            w1 = w\<lparr>w_session := sid, w_dev := dev\<rparr>;
            (r, s1) = send_packet host PKT_HELLO_ACK (h_device_id h) (mem_u32 host (htonl host sid)) 4 s
        in if r \<noteq> 0 then (Leave, w1, s1, c1)
           else (Next, w1\<lparr>w_state := ACTIVE, strikes := 0\<rparr>, s1, c1))"

definition on_sensor :: "endian \<Rightarrow> wenv \<Rightarrow> pl_header \<Rightarrow> 's wstate \<Rightarrow> outcome \<times> 's wstate" where
  "on_sensor host env h st =
     (case st of (w, s, c) \<Rightarrow>
      let p = w_payload w;
          sq = ntohl host (ld_u32 host p);
          temp = ntohl host (ld_u32 host (drop 8 p));
          hum = ntohl host (ld_u32 host (drop 12 p))
      in case w_dev w of
           None \<Rightarrow> (Crash, st)
         | Some d \<Rightarrow>
             let t = dt_record_sensor d sq temp hum (e_time env) (dtable c);
                 rec = \<lparr>device_id = h_device_id h, seq = sq, temperature = temp, humidity = hum,
                        server_timestamp_ns = now_ns (e_clock env)\<rparr>;
                 c1 = c\<lparr>dtable := t, sink_st := snd (write_record (ctx_sink c) rec (sink_st c))\<rparr>;
                 w1 = w\<lparr>sensor_count := sensor_count w + 1\<rparr>;
                 s1 = (if sensor_count w1 mod ACK_EVERY = 0
                       then snd (send_packet host PKT_ACK (h_device_id h) (mem_u32 host (htonl host sq)) 4 s) else s)
             in (Next, w1\<lparr>strikes := 0\<rparr>, s1, c1))"

text \<open>\<^verbatim>\<open>snprintf(p, sizeof p, ...)\<close> into 512 bytes.\<close>

definition frame_path :: "string \<Rightarrow> u32 \<Rightarrow> string \<Rightarrow> string" where
  "frame_path dir dev_no sfx = take 511 (dir @ ''/dev'' @ fmt_08X dev_no @ sfx)"

definition put_file :: "string \<Rightarrow> u8 list option \<Rightarrow> (string \<Rightarrow> u8 list option) \<Rightarrow> (string \<Rightarrow> u8 list option)" where
  "put_file path contents fs = (case contents of None \<Rightarrow> fs | Some bs \<Rightarrow> fs(path \<mapsto> bs))"

definition save_frame :: "wenv \<Rightarrow> u32 \<Rightarrow> image \<Rightarrow> 's server_ctx \<Rightarrow> 's server_ctx" where
  "save_frame env dev_no img c =
     (case frame_dir c of
        None \<Rightarrow> c
      | Some dir \<Rightarrow>
          let (rc, edges) = image_alloc (e_calloc_edges env) \<lparr>img_w = 0, img_h = 0, pix = None\<rparr> (img_w img) (img_h img) in
          if rc \<noteq> 0 then c
          else
            let edges1 = snd (sobel img edges);
                p1 = frame_path dir dev_no ''_in.bmp'';
                p2 = frame_path dir dev_no ''_edges.bmp'';
                (r1, f1) = bmp_write img (e_fopen_in env);
                fs1 = put_file p1 f1 (files c)
            in if r1 = 0 then c\<lparr>files := put_file p2 (snd (bmp_write edges1 (e_fopen_edges env))) fs1\<rparr>
               else c\<lparr>files := fs1\<rparr>)"

definition on_frame :: "endian \<Rightarrow> wenv \<Rightarrow> pl_header \<Rightarrow> 's wstate \<Rightarrow> outcome \<times> 's wstate" where
  "on_frame host env h st =
     (case st of (w, s, c) \<Rightarrow>
      let (fr, fa, img) = frame_asm_feed (e_malloc_frame env) (e_calloc_seen env) (e_calloc_img env)
                            (w_payload w) (h_payload_len h) (w_fa w, \<lparr>img_w = 0, img_h = 0, pix = None\<rparr>);
          w1 = w\<lparr>w_fa := fa\<rparr>
      in if fr < 0 then
           let (w2, s2, c2) = bad_packet host (h_device_id h) PL_ERR_TOO_BIG (w1, s, c)
           in (Next, if strikes w2 \<ge> MAX_STRIKES then w2\<lparr>w_state := CLOSING\<rparr> else w2, s2, c2)
         else
           let w2 = w1\<lparr>strikes := 0\<rparr> in
           if fr = 1 then (Next, w2, s, save_frame env (h_device_id h) img c) else (Next, w2, s, c))"

definition on_other :: "endian \<Rightarrow> pl_header \<Rightarrow> 's wstate \<Rightarrow> outcome \<times> 's wstate" where
  "on_other host h st =
     (let (w, s, c) = bad_packet host (h_device_id h) PL_ERR_BAD_TYPE st
      in (Next, if strikes w \<ge> MAX_STRIKES then w\<lparr>w_state := CLOSING\<rparr> else w, s, c))"

definition dispatch :: "endian \<Rightarrow> wenv \<Rightarrow> pl_header \<Rightarrow> 's wstate \<Rightarrow> outcome \<times> 's wstate" where
  "dispatch host env h st =
     (if w_state (fst st) = WAIT_HELLO then on_wait_hello host env h st
      else if h_type h = pkt_code PKT_SENSOR then on_sensor host env h st
      else if h_type h = pkt_code PKT_FRAME then on_frame host env h st
      else if h_type h = pkt_code PKT_HELLO then (Next, st)
      else on_other host h st)"

text \<open>A phase runs only if the one before it said so.\<close>

definition andthen :: "outcome \<times> 's wstate \<Rightarrow> ('s wstate \<Rightarrow> outcome \<times> 's wstate) \<Rightarrow> outcome \<times> 's wstate" where
  "andthen r f = (case r of (out, st) \<Rightarrow> if out = Proceed then f st else (out, st))"

definition worker_iter :: "endian \<Rightarrow> wenv \<Rightarrow> 's wstate \<Rightarrow> outcome \<times> 's wstate" where
  "worker_iter host env st =
     (let (out, h, st1) = read_header host st in
      andthen (andthen (andthen (andthen (out, st1)
        (check_framing host h)) (read_payload h)) (check_payload host h)) (dispatch host env h))"

section \<open>The loop ends\<close>

text \<open>
  Every round that is followed by another one has consumed something of what the peer will
  send, or was one more tick of a silent peer; and after fifteen ticks in a row the worker
  leaves. So the loop is a total function.
\<close>

lemma send_packet_rx [simp]: "rx (snd (send_packet host t i p n s)) = rx s"
  by (auto simp: send_packet_def Let_def split: prod.split dest: write_n_rx)

lemma send_error_rx [simp]: "rx (snd (send_error host i e s)) = rx s"
  by (simp add: send_error_def Let_def)

definition rx_left :: "'s wstate \<Rightarrow> nat" where
  "rx_left st = rx_size (rx (fst (snd st)))"

lemma bad_packet_left [simp]: "rx_left (bad_packet host i e st) = rx_left st"
  by (cases st) (simp add: bad_packet_def rx_left_def)

lemma check_left:
  "rx_left (snd (check_framing host h st)) = rx_left st"
  "rx_left (snd (check_payload host h st)) = rx_left st"
  by (simp_all add: check_framing_def check_payload_def strike_out_def)

lemma read_payload_left: "rx_left (snd (read_payload h st)) \<le> rx_left st"
proof -
  obtain w s c where st: "st = (w, s, c)" by (cases st)
  obtain r buf s1 where r: "read_n (unat (h_payload_len h)) (w_payload w) s = (r, buf, s1)"
    by (cases "read_n (unat (h_payload_len h)) (w_payload w) s")
  have "rx_size (rx s1) \<le> rx_size (rx s)" using read_n_size [OF r] by (auto split: sum.splits)
  then show ?thesis by (simp add: read_payload_def st r rx_left_def Let_def)
qed

lemma dispatch_left: "rx_left (snd (dispatch host env h st)) = rx_left st"
proof -
  obtain w s c where st: "st = (w, s, c)" by (cases st)
  have "rx_left (snd (on_wait_hello host env h st)) = rx_left st"
    using send_packet_rx [of host PKT_HELLO_ACK "h_device_id h" "mem_u32 host (htonl host (next_session c))" 4 s]
    by (auto simp: on_wait_hello_def st rx_left_def Let_def simp del: send_packet_rx split: prod.split)
  moreover have "rx_left (snd (on_sensor host env h st)) = rx_left st"
    by (simp add: on_sensor_def st rx_left_def Let_def split: option.split)
  moreover have "rx_left (snd (on_frame host env h st)) = rx_left st"
    by (auto simp: on_frame_def st rx_left_def Let_def bad_packet_def split: prod.split)
  moreover have "rx_left (snd (on_other host h st)) = rx_left st"
    by (auto simp: on_other_def st rx_left_def Let_def bad_packet_def split: prod.split)
  ultimately show ?thesis by (simp add: dispatch_def)
qed

lemma andthen_left: "(\<And>st. rx_left (snd (f st)) \<le> rx_left st) \<Longrightarrow> rx_left (snd (andthen r f)) \<le> rx_left (snd r)"
  by (cases r) (simp add: andthen_def)

lemma andthen_stop [simp]: "out \<noteq> Proceed \<Longrightarrow> andthen (out, st) f = (out, st)"
  by (simp add: andthen_def)

lemma andthen_go [simp]: "andthen (Proceed, st) f = f st"
  by (simp add: andthen_def)

text \<open>The three ways a round starts: an error or tick, an incomplete header, a header.\<close>

lemma worker_iter_err:
  assumes "read_n PL_HDR_SIZE (replicate PL_HDR_SIZE 0) s = (Inl e, buf, s1)"
  shows "worker_iter host env (w, s, c) =
    (if e \<noteq> EAGAIN then (Leave, w, s1, c)
     else (if 15 \<le> idle_ticks w + 1 then Leave else Next, w\<lparr>idle_ticks := idle_ticks w + 1\<rparr>, s1, c))"
  by (auto simp: worker_iter_def read_header_def assms Let_def WORKER_TICK_S_def DEAD_PEER_S_def)

lemma worker_iter_short:
  assumes "read_n PL_HDR_SIZE (replicate PL_HDR_SIZE 0) s = (Inr n, buf, s1)" and "n \<noteq> PL_HDR_SIZE"
  shows "worker_iter host env (w, s, c) = (Leave, w, s1, c)"
  using assms(2) by (auto simp: worker_iter_def read_header_def assms(1) Let_def)

definition on_header :: "endian \<Rightarrow> wenv \<Rightarrow> pl_header \<Rightarrow> 's wstate \<Rightarrow> outcome \<times> 's wstate" where
  "on_header host env h st = andthen (andthen (andthen (check_framing host h st) (read_payload h))
     (check_payload host h)) (dispatch host env h)"

lemma worker_iter_header:
  assumes "read_n PL_HDR_SIZE (replicate PL_HDR_SIZE 0) s = (Inr PL_HDR_SIZE, buf, s1)"
  shows "worker_iter host env (w, s, c) = on_header host env (pl_parse_header host buf) (w\<lparr>idle_ticks := 0\<rparr>, s1, c)"
  by (simp add: worker_iter_def read_header_def assms Let_def on_header_def) (simp add: pl_consts)

lemma on_header_left: "rx_left (snd (on_header host env h st)) \<le> rx_left st"
proof -
  let ?a = "check_framing host h st"
  let ?b = "andthen ?a (read_payload h)"
  let ?c = "andthen ?b (check_payload host h)"
  have "rx_left (snd (on_header host env h st)) \<le> rx_left (snd ?c)"
    unfolding on_header_def by (rule andthen_left) (simp add: dispatch_left)
  also have "\<dots> \<le> rx_left (snd ?b)" by (rule andthen_left) (simp add: check_left)
  also have "\<dots> \<le> rx_left (snd ?a)" by (rule andthen_left) (rule read_payload_left)
  finally show ?thesis by (simp add: check_left)
qed

lemma worker_iter_progress:
  assumes "worker_iter host env st = (Next, st')"
  shows "rx_left st' < rx_left st \<or>
    rx_left st' = rx_left st \<and> idle_ticks (fst st') = idle_ticks (fst st) + 1 \<and> idle_ticks (fst st') < 15"
proof -
  obtain w s c where st: "st = (w, s, c)" by (cases st)
  obtain r buf s1 where r: "read_n PL_HDR_SIZE (replicate PL_HDR_SIZE 0) s = (r, buf, s1)"
    by (cases "read_n PL_HDR_SIZE (replicate PL_HDR_SIZE 0) s")
  note size = read_n_size [OF r]
  show ?thesis
  proof (cases r)
    case (Inl e)
    with assms r have "e = EAGAIN" "st' = (w\<lparr>idle_ticks := idle_ticks w + 1\<rparr>, s1, c)" "idle_ticks w + 1 < 15"
      by (auto simp: st worker_iter_err split: if_split_asm)
    with size Inl show ?thesis by (auto simp: rx_left_def st)
  next
    case (Inr n)
    with assms r have n: "n = PL_HDR_SIZE" using worker_iter_short [of s n buf s1 host env w c] by (auto simp: st)
    from Inr n r assms have "rx_left st' \<le> rx_left (w\<lparr>idle_ticks := 0\<rparr>, s1, c)"
      using on_header_left [of host env "pl_parse_header host buf" "(w\<lparr>idle_ticks := 0\<rparr>, s1, c)"]
      by (simp add: st worker_iter_header)
    with size Inr n show ?thesis by (simp add: rx_left_def st pl_consts)
  qed
qed

text \<open>\<open>k\<close> counts the rounds, so that \<open>envs k\<close> is the environment of the round.\<close>

function worker_loop :: "endian \<Rightarrow> (nat \<Rightarrow> wenv) \<Rightarrow> nat \<Rightarrow> 's wstate \<Rightarrow> outcome \<times> 's wstate" where
  "worker_loop host envs k st =
     (if running (snd (snd st)) \<and> w_state (fst st) \<noteq> CLOSING then
        (case worker_iter host (envs k) st of
           (out, st1) \<Rightarrow> if out = Next then worker_loop host envs (Suc k) st1 else (out, st1))
      else (Leave, st))"
  by pat_completeness auto

termination
proof (relation "measures [\<lambda>(host, envs, k, st). rx_left st, \<lambda>(host, envs, k, st). 15 - idle_ticks (fst st)]", goal_cases)
  case (2 host envs k st x st1)
  then show ?case using worker_iter_progress [of host "envs k" st st1] by auto
qed simp

declare worker_loop.simps [simp del]

text \<open>\<open>payload0\<close> is what the uninitialised payload buffer holds.\<close>

definition worker_init :: "u8 list \<Rightarrow> worker" where
  "worker_init payload0 = \<lparr>w_state = WAIT_HELLO, w_session = 0, w_dev = None, strikes = 0, idle_ticks = 0,
     sensor_count = 0, w_payload = payload0, w_fa = frame_asm_init\<rparr>"

text \<open>What the thread does before and after its loop, to the state it shares.\<close>

definition worker_enter :: "'s server_ctx \<Rightarrow> 's server_ctx" where
  "worker_enter c = c\<lparr>active_workers := active_workers c + 1\<rparr>"

definition worker_exit :: "int \<Rightarrow> 's server_ctx \<Rightarrow> 's server_ctx" where
  "worker_exit fd c = c\<lparr>open_fds := open_fds c - {fd}, client_slots := client_slots c + 1,
     active_workers := active_workers c - 1\<rparr>"

text \<open>The thread. A crash ends the process, so there is no cleanup after it.\<close>

definition client_worker ::
  "endian \<Rightarrow> (nat \<Rightarrow> wenv) \<Rightarrow> u8 list \<Rightarrow> int \<Rightarrow> sock \<times> 's server_ctx \<Rightarrow> outcome \<times> 's wstate" where
  "client_worker host envs payload0 fd sc =
     (case sc of (s, c) \<Rightarrow>
      let (out, w, s1, c1) = worker_loop host envs 0 (worker_init payload0, s, worker_enter c)
      in if out = Crash then (Crash, w, s1, c1)
         else (Leave, w\<lparr>w_fa := frame_asm_reset (w_fa w)\<rparr>, s1, worker_exit fd c1))"

end
