(* ===== verification/Client_Session.thy ===== *)
theory Client_Session
  imports Client_Handler
begin

text \<open>
  What the worker of \<^verbatim>\<open>server/client_handler.c\<close> does over a whole connection: a session of a
  well-behaved device, the three-strikes rule, the reaping of a silent peer, and that no input
  can make it leave its buffers.
\<close>

section \<open>A packet\<close>

text \<open>Reading the header from the stream, however it was cut into segments.\<close>

lemma worker_iter_read_header:
  assumes "rx_bytes (rx s) = hb @ rest" and "length hb = PL_HDR_SIZE"
  obtains es where "rx_bytes es = rest" and "rx_stop es = rx_stop (rx s)"
    and "worker_iter host env (w, s, c) = on_header host env (pl_parse_header host hb) (w\<lparr>idle_ticks := 0\<rparr>, s\<lparr>rx := es\<rparr>, c)"
proof -
  have n: "PL_HDR_SIZE \<le> length (rx_bytes (rx s))" using assms by simp
  obtain es where es: "read_n PL_HDR_SIZE (replicate PL_HDR_SIZE 0) s = (Inr PL_HDR_SIZE, hb, s\<lparr>rx := es\<rparr>)"
    and "rx_bytes es = rest" "rx_stop es = rx_stop (rx s)"
    by (rule read_n_full [OF n, of "replicate PL_HDR_SIZE 0"]) (use assms in \<open>simp_all add: memcpy_at_0\<close>)
  then show ?thesis using worker_iter_header [OF es] that by blast
qed

text \<open>Reading the payload the header announces: it replaces the front of the payload buffer.\<close>

lemma read_payload_whole:
  assumes "rx_bytes (rx s) = p @ rest" and "length p = unat (h_payload_len h)"
    and "length p \<le> PL_MAX_PAYLOAD" and "length (w_payload w) = PL_MAX_PAYLOAD"
  obtains es where "rx_bytes es = rest" and "rx_stop es = rx_stop (rx s)"
    and "read_payload h (w, s, c) = (Proceed, w\<lparr>w_payload := p @ drop (length p) (w_payload w)\<rparr>, s\<lparr>rx := es\<rparr>, c)"
proof (cases "p = []")
  case True
  then have "read_payload h (w, s, c) = (Proceed, w\<lparr>w_payload := p @ drop (length p) (w_payload w)\<rparr>, s\<lparr>rx := rx s\<rparr>, c)"
    using assms(2) by (simp add: read_payload_def)
  then show ?thesis using that assms(1) True by simp
next
  case False
  obtain es where "read_n (length p) (w_payload w) s =
      (Inr (length p), p @ drop (length p) (w_payload w), s\<lparr>rx := es\<rparr>)"
    "rx_bytes es = rest" "rx_stop es = rx_stop (rx s)"
    by (rule read_n_full [of "length p" s "w_payload w"]) (use assms in \<open>simp_all add: memcpy_at_0\<close>)
  moreover from this have "read_payload h (w, s, c) = (Proceed, w\<lparr>w_payload := p @ drop (length p) (w_payload w)\<rparr>, s\<lparr>rx := es\<rparr>, c)"
    unfolding read_payload_def assms(2) [symmetric] using False by simp
  ultimately show ?thesis using that by blast
qed

text \<open>Header and payload together, when the framing is right.\<close>

lemma worker_iter_whole:
  assumes "rx_bytes (rx s) = hb @ p @ rest" and "length hb = PL_HDR_SIZE" and "h = pl_parse_header host hb"
    and "h_magic h = PL_MAGIC" and "h_version h = PL_VERSION" and "length p = unat (h_payload_len h)"
    and "length p \<le> PL_MAX_PAYLOAD" and "length (w_payload w) = PL_MAX_PAYLOAD"
  obtains es where "rx_bytes es = rest" and "rx_stop es = rx_stop (rx s)"
    and "worker_iter host env (w, s, c) = andthen (check_payload host h
      (w\<lparr>idle_ticks := 0, w_payload := p @ drop (length p) (w_payload w)\<rparr>, s\<lparr>rx := es\<rparr>, c)) (dispatch host env h)"
proof -
  obtain es where es: "rx_bytes es = p @ rest" "rx_stop es = rx_stop (rx s)"
    "worker_iter host env (w, s, c) = on_header host env h (w\<lparr>idle_ticks := 0\<rparr>, s\<lparr>rx := es\<rparr>, c)"
    by (rule worker_iter_read_header [OF assms(1,2), of host env w c]) (simp add: assms(3))
  have "rx_bytes (rx (s\<lparr>rx := es\<rparr>)) = p @ rest" by (simp add: es)
  then obtain es1 where es1: "rx_bytes es1 = rest" "rx_stop es1 = rx_stop (rx s)"
    "read_payload h (w\<lparr>idle_ticks := 0\<rparr>, s\<lparr>rx := es\<rparr>, c) =
      (Proceed, w\<lparr>idle_ticks := 0, w_payload := p @ drop (length p) (w_payload w)\<rparr>, s\<lparr>rx := es1\<rparr>, c)"
    by (rule read_payload_whole [OF _ assms(6,7), of _ _ "w\<lparr>idle_ticks := 0\<rparr>" c]) (use assms(8) es(2) in simp_all)
  have frame: "check_framing host h st = (Proceed, st)" for st :: "'a wstate"
    unfolding check_framing_def using assms(4-7) by simp
  show ?thesis
    by (rule that [OF es1(1,2)]) (simp add: es(3) on_header_def frame es1(3))
qed

text \<open>One well-formed packet is one round.\<close>

lemma worker_iter_packet:
  assumes bytes: "rx_bytes (rx s) = wire_packet t i p @ rest" and p: "length p \<le> PL_MAX_PAYLOAD"
    and buf: "length (w_payload w) = PL_MAX_PAYLOAD"
  obtains es where "rx_bytes es = rest" and "rx_stop es = rx_stop (rx s)"
    and "worker_iter host env (w, s, c) = dispatch host env (wire_header t i p)
      (w\<lparr>idle_ticks := 0, w_payload := p @ drop (length p) (w_payload w)\<rparr>, s\<lparr>rx := es\<rparr>, c)"
proof -
  let ?h = "wire_header t i p"
  have len: "length p = unat (h_payload_len ?h)" using p by (simp add: wire_header_def length_u16 pl_consts)
  have "rx_bytes (rx s) = hdr_mem BigEndian ?h @ p @ rest" by (simp add: bytes wire_packet_def)
  then obtain es where es: "rx_bytes es = rest" "rx_stop es = rx_stop (rx s)"
    "worker_iter host env (w, s, c) = andthen (check_payload host ?h
      (w\<lparr>idle_ticks := 0, w_payload := p @ drop (length p) (w_payload w)\<rparr>, s\<lparr>rx := es\<rparr>, c)) (dispatch host env ?h)"
    by (rule worker_iter_whole [where h = ?h and host = host and env = env and w = w and c = c, OF _ _ _ _ _ len p buf])
      (simp_all add: hdr.dec_enc_exact wire_header_def)
  have sum: "check_payload host ?h (w\<lparr>idle_ticks := 0, w_payload := p @ drop (length p) (w_payload w)\<rparr>, s', c) =
      (Proceed, w\<lparr>idle_ticks := 0, w_payload := p @ drop (length p) (w_payload w)\<rparr>, s', c)" for s'
    unfolding check_payload_def len [symmetric] by (simp add: wire_header_def)
  show ?thesis by (rule that [OF es(1,2)]) (simp only: es(3) sum andthen_go)
qed

lemma send_packet_ok:
  assumes "txs s = []" and "length p \<le> 64"
  shows "send_packet host t i p (of_nat (length p)) s = (0, s\<lparr>tx_out := tx_out s @ wire_packet t i p\<rparr>)"
  using assms pl_build_wire_packet [of p "PL_HDR_SIZE + 64" "replicate (PL_HDR_SIZE + 64) 0" host t i]
  by (simp add: send_packet_def Let_def write_n_empty_script) (simp add: pl_consts)

section \<open>A session\<close>

text \<open>The record of a reading, and the table after a run of readings; \<open>k\<close> is the first round.\<close>

definition reading_record :: "u32 \<Rightarrow> wenv \<Rightarrow> pl_sensor_payload \<Rightarrow> sensor_record" where
  "reading_record i env x = \<lparr>device_id = i, seq = s_seq x, temperature = s_temperature x, humidity = s_humidity x,
     server_timestamp_ns = now_ns (e_clock env)\<rparr>"

fun readings :: "u32 \<Rightarrow> (nat \<Rightarrow> wenv) \<Rightarrow> nat \<Rightarrow> pl_sensor_payload list \<Rightarrow> sensor_record list" where
  "readings i envs k [] = []"
| "readings i envs k (x # xs) = reading_record i (envs k) x # readings i envs (Suc k) xs"

fun recorded :: "nat \<Rightarrow> (nat \<Rightarrow> wenv) \<Rightarrow> nat \<Rightarrow> pl_sensor_payload list \<Rightarrow> device_table \<Rightarrow> device_table" where
  "recorded d envs k [] t = t"
| "recorded d envs k (x # xs) t = recorded d envs (Suc k) xs
     (dt_record_sensor d (s_seq x) (s_temperature x) (s_humidity x) (e_time (envs k)) t)"

text \<open>The acknowledgements: one for every eighth reading, with its sequence number; \<open>n\<close> readings came before.\<close>

fun acks :: "u32 \<Rightarrow> nat \<Rightarrow> pl_sensor_payload list \<Rightarrow> u8 list" where
  "acks i n [] = []"
| "acks i n (x # xs) = (if Suc n mod 8 = 0 then wire_packet PKT_ACK i (mem_u32 BigEndian (s_seq x)) else []) @ acks i (Suc n) xs"

definition sensor_packets :: "u32 \<Rightarrow> pl_sensor_payload list \<Rightarrow> u8 list" where
  "sensor_packets i xs = concat (map (\<lambda>x. wire_packet PKT_SENSOR i (sensor_bytes x)) xs)"

lemma unat_mod_8: "(of_nat n :: u32) mod 8 = 0 \<longleftrightarrow> n mod 8 = 0"
proof -
  have "unat ((of_nat n :: u32) mod 8) = n mod 4294967296 mod 8"
    by (simp add: unat_mod_distrib unat_of_nat)
  also have "\<dots> = n mod 8" by (rule mod_mod_cancel) simp
  finally show ?thesis by (simp add: word_unat_eq_iff)
qed

lemma sensor_fields:
  "ntohl host (ld_u32 host (sensor_bytes x @ rest)) = s_seq x"
  "ntohl host (ld_u32 host (drop 8 (sensor_bytes x @ rest))) = s_temperature x"
  "ntohl host (ld_u32 host (drop 12 (sensor_bytes x @ rest))) = s_humidity x"
  unfolding ntohl_ld_u32 by (simp_all add: sensor_bytes_def c32.dec_enc del: ld_u32.simps mem_u32.simps)

lemma dispatch_sensor:
  assumes "w_state w = ACTIVE" and "w_dev w = Some d" and "txs s = []" and "sensor_count w = of_nat n"
    and "w_payload w = sensor_bytes x @ rest" and "h_type h = pkt_code PKT_SENSOR" and "h_device_id h = i"
  shows "dispatch host env h (w, s, c) =
    (Next, w\<lparr>sensor_count := of_nat (Suc n), strikes := 0\<rparr>, s\<lparr>tx_out := tx_out s @ acks i n [x]\<rparr>,
     c\<lparr>dtable := dt_record_sensor d (s_seq x) (s_temperature x) (s_humidity x) (e_time env) (dtable c),
       sink_st := snd (write_record (ctx_sink c) (reading_record i env x) (sink_st c))\<rparr>)"
proof -
  have fields: "ntohl host (ld_u32 host (w_payload w)) = s_seq x"
    "ntohl host (ld_u32 host (drop 8 (w_payload w))) = s_temperature x"
    "ntohl host (ld_u32 host (drop 12 (w_payload w))) = s_humidity x"
    unfolding assms(5) by (rule sensor_fields)+
  have ack: "send_packet host PKT_ACK i (mem_u32 host (htonl host (s_seq x))) 4 s =
      (0, s\<lparr>tx_out := tx_out s @ wire_packet PKT_ACK i (mem_u32 BigEndian (s_seq x))\<rparr>)"
    using send_packet_ok [OF assms(3), of "mem_u32 BigEndian (s_seq x)" host PKT_ACK i] by (simp add: mem_htonl del: mem_u32.simps)
  have cnt: "(1 + of_nat n :: u32) mod 8 = 0 \<longleftrightarrow> Suc n mod 8 = 0" using unat_mod_8 [of "Suc n"] by simp
  show ?thesis
    unfolding dispatch_def on_sensor_def Let_def prod.case fst_conv
    using assms(1,2,4,6,7) ack cnt
    by (simp add: fields reading_record_def ACK_EVERY_def ac_simps del: mem_u32.simps ld_u32.simps)
qed

text \<open>At the end of the stream the worker leaves.\<close>

lemma worker_loop_eof:
  assumes "rx_bytes (rx s) = []" and "fst (rx_stop (rx s)) = Closed" and "running c" and "w_state w \<noteq> CLOSING"
  shows "\<exists>s'. worker_loop host envs k (w, s, c) = (Leave, w, s', c) \<and> tx_out s' = tx_out s"
proof -
  obtain r buf s1 where r: "read_n PL_HDR_SIZE (replicate PL_HDR_SIZE 0) s = (r, buf, s1)"
    by (cases "read_n PL_HDR_SIZE (replicate PL_HDR_SIZE 0) s")
  have "r = Inr 0" "s1 = s\<lparr>rx := rx s1\<rparr>" using read_n_spec [OF r] assms(1,2) by (auto simp: pl_consts)
  then have "worker_iter host (envs k) (w, s, c) = (Leave, w, s1, c)"
    using worker_iter_short [of s 0 buf s1 host "envs k" w c] r by (auto simp: pl_consts)
  moreover have "tx_out s1 = tx_out s" by (subst \<open>s1 = s\<lparr>rx := rx s1\<rparr>\<close>) simp
  ultimately show ?thesis using assms(3,4) by (simp add: worker_loop.simps [of host envs k])
qed

lemma worker_loop_readings:
  assumes "rx_bytes (rx s) = sensor_packets i xs" and "fst (rx_stop (rx s)) = Closed" and "txs s = []"
    and "running c" and "w_state w = ACTIVE" and "w_dev w = Some d" and "sensor_count w = of_nat n"
    and "length (w_payload w) = PL_MAX_PAYLOAD"
  shows "\<exists>w' s'. worker_loop host envs k (w, s, c) =
      (Leave, w', s', c\<lparr>dtable := recorded d envs k xs (dtable c),
         sink_st := sink_writes (ctx_sink c) (readings i envs k xs) (sink_st c)\<rparr>) \<and>
    tx_out s' = tx_out s @ acks i n xs"
  using assms
proof (induction xs arbitrary: k n w s c)
  case Nil
  with worker_loop_eof [of s c w host envs k] show ?case by (auto simp: sensor_packets_def sink_writes_def)
next
  case (Cons x xs)
  have "rx_bytes (rx s) = wire_packet PKT_SENSOR i (sensor_bytes x) @ sensor_packets i xs"
    using Cons.prems(1) by (simp add: sensor_packets_def)
  then obtain es where es: "rx_bytes es = sensor_packets i xs" "rx_stop es = rx_stop (rx s)"
    "worker_iter host (envs k) (w, s, c) = dispatch host (envs k) (wire_header PKT_SENSOR i (sensor_bytes x))
      (w\<lparr>idle_ticks := 0, w_payload := sensor_bytes x @ drop 16 (w_payload w)\<rparr>, s\<lparr>rx := es\<rparr>, c)"
    using worker_iter_packet [of s PKT_SENSOR i "sensor_bytes x" "sensor_packets i xs" w host "envs k" c] Cons.prems(8)
    by (auto simp: pl_consts)
  define w1 where "w1 = w\<lparr>idle_ticks := 0, w_payload := sensor_bytes x @ drop 16 (w_payload w), sensor_count := of_nat (Suc n), strikes := 0\<rparr>"
  define s1 where "s1 = s\<lparr>rx := es, tx_out := tx_out s @ acks i n [x]\<rparr>"
  define c1 where "c1 = c\<lparr>dtable := dt_record_sensor d (s_seq x) (s_temperature x) (s_humidity x) (e_time (envs k)) (dtable c),
       sink_st := snd (write_record (ctx_sink c) (reading_record i (envs k) x) (sink_st c))\<rparr>"
  have "worker_iter host (envs k) (w, s, c) = (Next, w1, s1, c1)"
    unfolding es(3) using Cons.prems(3,5,6,7) by (subst dispatch_sensor) (auto simp: w1_def s1_def c1_def wire_header_def)
  then have step: "worker_loop host envs k (w, s, c) = worker_loop host envs (Suc k) (w1, s1, c1)"
    using Cons.prems(4,5) by (simp add: worker_loop.simps [of host envs k])
  have "\<exists>w' s'. worker_loop host envs (Suc k) (w1, s1, c1) =
      (Leave, w', s', c1\<lparr>dtable := recorded d envs (Suc k) xs (dtable c1),
         sink_st := sink_writes (ctx_sink c1) (readings i envs (Suc k) xs) (sink_st c1)\<rparr>) \<and>
    tx_out s' = tx_out s1 @ acks i (Suc n) xs"
    by (rule Cons.IH) (use Cons.prems es in \<open>simp_all add: w1_def s1_def c1_def pl_consts\<close>)
  then show ?case unfolding step by (simp add: s1_def c1_def sink_writes_def)
qed

text \<open>The handshake.\<close>

lemma worker_iter_hello:
  assumes "rx_bytes (rx s) = wire_packet PKT_HELLO i p @ rest" and "length p \<le> PL_MAX_PAYLOAD"
    and "length (w_payload w) = PL_MAX_PAYLOAD" and "w_state w = WAIT_HELLO" and "txs s = []"
    and "dt_get_or_create (e_calloc_dev env) (e_time env) i (next_session c) (dtable c) = (d, t)"
  obtains w1 es where "worker_iter host env (w, s, c) = (Next, w1,
      s\<lparr>rx := es, tx_out := tx_out s @ wire_packet PKT_HELLO_ACK i (mem_u32 BigEndian (next_session c))\<rparr>,
      c\<lparr>next_session := next_session c + 1, dtable := t\<rparr>)"
    and "rx_bytes es = rest" and "rx_stop es = rx_stop (rx s)"
    and "w_state w1 = ACTIVE" and "w_dev w1 = d" and "sensor_count w1 = sensor_count w"
    and "length (w_payload w1) = PL_MAX_PAYLOAD" and "strikes w1 = 0" and "w_session w1 = next_session c" and "w_fa w1 = w_fa w"
proof -
  obtain es where es: "rx_bytes es = rest" "rx_stop es = rx_stop (rx s)"
    "worker_iter host env (w, s, c) = dispatch host env (wire_header PKT_HELLO i p)
      (w\<lparr>idle_ticks := 0, w_payload := p @ drop (length p) (w_payload w)\<rparr>, s\<lparr>rx := es\<rparr>, c)"
    by (rule worker_iter_packet [OF assms(1-3)])
  let ?w = "w\<lparr>idle_ticks := 0, w_payload := p @ drop (length p) (w_payload w),
    w_session := next_session c, w_dev := d, w_state := ACTIVE, strikes := 0\<rparr>"
  have ack: "send_packet host PKT_HELLO_ACK i (mem_u32 host (htonl host (next_session c))) 4 (s\<lparr>rx := es\<rparr>) =
      (0, s\<lparr>rx := es, tx_out := tx_out s @ wire_packet PKT_HELLO_ACK i (mem_u32 BigEndian (next_session c))\<rparr>)"
    using send_packet_ok [of "s\<lparr>rx := es\<rparr>" "mem_u32 BigEndian (next_session c)" host PKT_HELLO_ACK i] assms(5)
    by (simp add: mem_htonl del: mem_u32.simps)
  have "worker_iter host env (w, s, c) = (Next, ?w,
      s\<lparr>rx := es, tx_out := tx_out s @ wire_packet PKT_HELLO_ACK i (mem_u32 BigEndian (next_session c))\<rparr>,
      c\<lparr>next_session := next_session c + 1, dtable := t\<rparr>)"
    unfolding es(3) dispatch_def on_wait_hello_def using assms(4,6) ack
    by (simp add: wire_header_def Let_def del: mem_u32.simps)
  then show ?thesis using es(1,2) assms(2,3) by (intro that [of ?w es]) simp_all
qed

text \<open>The entry of the device after a run of readings.\<close>

fun device_after :: "(nat \<Rightarrow> wenv) \<Rightarrow> nat \<Rightarrow> pl_sensor_payload list \<Rightarrow> device \<Rightarrow> device" where
  "device_after envs k [] v = v"
| "device_after envs k (x # xs) v = device_after envs (Suc k) xs
     (v\<lparr>last_seq := s_seq x, last_temp := s_temperature x, last_humid := s_humidity x,
        last_seen := e_time (envs k), dstate := DEV_ONLINE, packets_ok := packets_ok v + 1\<rparr>)"

lemma recorded_map:
  assumes "dt_invar t" and "dt_addr t i = Some d" and "dt_map t i = Some v"
  shows "dt_invar (recorded d envs k xs t)" "dt_addr (recorded d envs k xs t) = dt_addr t"
    "dt_map (recorded d envs k xs t) = (dt_map t)(i \<mapsto> device_after envs k xs v)"
proof -
  have "dt_invar (recorded d envs k xs t) \<and> dt_addr (recorded d envs k xs t) = dt_addr t \<and>
    dt_map (recorded d envs k xs t) = (dt_map t)(i \<mapsto> device_after envs k xs v)"
    using assms
  proof (induction xs arbitrary: k t v)
    case Nil
    then show ?case by (simp add: fun_upd_idem)
  next
    case (Cons x xs)
    let ?t = "dt_record_sensor d (s_seq x) (s_temperature x) (s_humidity x) (e_time (envs k)) t"
    have t: "dt_invar ?t" "dt_addr ?t = dt_addr t"
      using Cons.prems by (simp_all add: dt_record_sensor_invar dt_record_sensor_addr fun_eq_iff)
    note m = dt_record_sensor_map [OF Cons.prems, of "s_seq x" "s_temperature x" "s_humidity x" "e_time (envs k)"]
    show ?case using Cons.IH [OF t(1), of _ "Suc k"] Cons.prems(2) t(2) m by (auto simp: fun_eq_iff)
  qed
  then show "dt_invar (recorded d envs k xs t)" "dt_addr (recorded d envs k xs t) = dt_addr t"
    "dt_map (recorded d envs k xs t) = (dt_map t)(i \<mapsto> device_after envs k xs v)" by simp_all
qed

lemma device_after_fields:
  "packets_ok (device_after envs k xs v) = packets_ok v + of_nat (length xs)"
  "packets_bad (device_after envs k xs v) = packets_bad v"
  "xs \<noteq> [] \<Longrightarrow> last_seq (device_after envs k xs v) = s_seq (last xs)"
  "xs \<noteq> [] \<Longrightarrow> last_temp (device_after envs k xs v) = s_temperature (last xs)"
  "xs \<noteq> [] \<Longrightarrow> last_humid (device_after envs k xs v) = s_humidity (last xs)"
  "dstate v = DEV_ONLINE \<or> xs \<noteq> [] \<Longrightarrow> dstate (device_after envs k xs v) = DEV_ONLINE"
  by (induction xs arbitrary: k v) (auto simp: ac_simps split: if_splits)

section \<open>Safety for every input\<close>

text \<open>
  What holds of a worker and the table it points into: the payload buffer has its 1100 bytes,
  the reassembler is within its buffers, and the device pointer is one of the table's.
\<close>

definition worker_ok :: "'s wstate \<Rightarrow> bool" where
  "worker_ok st \<longleftrightarrow> (case st of (w, s, c) \<Rightarrow>
     length (w_payload w) = PL_MAX_PAYLOAD \<and> fa_ok (w_fa w) \<and> dt_invar (dtable c) \<and> strikes w \<le> MAX_STRIKES \<and>
     (\<forall>d. w_dev w = Some d \<longrightarrow> d < length (devices (dtable c))))"

text \<open>\<^verbatim>\<open>malloc\<close> returns a block of the size asked for, or NULL.\<close>

definition env_ok :: "wenv \<Rightarrow> bool" where
  "env_ok env \<longleftrightarrow> (\<forall>n b. e_malloc_frame env n = Some b \<longrightarrow> length b = n)"

lemma devices_length [simp]:
  "length (devices (dt_record_sensor d sq a b now t)) = length (devices t)"
  "length (devices (dt_record_bad dv t)) = length (devices t)"
  by (simp_all add: dt_record_sensor_def dt_record_bad_def Let_def split: option.split)

text \<open>
  A round touches only the table, the sink, the session counter and the frame files of the
  server, and never removes a device.
\<close>

definition ctx_same :: "'s server_ctx \<Rightarrow> 's server_ctx \<Rightarrow> bool" where
  "ctx_same c c' \<longleftrightarrow> cfg c' = cfg c \<and> running c' = running c \<and> dump_requested c' = dump_requested c \<and>
     active_workers c' = active_workers c \<and> client_slots c' = client_slots c \<and> listen_fd c' = listen_fd c \<and>
     pipe_bytes c' = pipe_bytes c \<and> ctx_sink c' = ctx_sink c \<and> frame_dir c' = frame_dir c \<and> open_fds c' = open_fds c \<and>
     length (devices (dtable c)) \<le> length (devices (dtable c'))"

lemma ctx_same_trans: "ctx_same c c' \<Longrightarrow> ctx_same c' c'' \<Longrightarrow> ctx_same c c''"
  by (simp add: ctx_same_def)

lemma ctx_same_simps [simp]:
  "ctx_same c c" "ctx_same c (save_frame env i img c)"
  "length (devices (dtable c)) \<le> length (devices t) \<Longrightarrow> ctx_same c (c\<lparr>dtable := t\<rparr>)"
  "length (devices (dtable c)) \<le> length (devices t) \<Longrightarrow> ctx_same c (c\<lparr>dtable := t, sink_st := x\<rparr>)"
  "length (devices (dtable c)) \<le> length (devices t) \<Longrightarrow> ctx_same c (c\<lparr>next_session := n, dtable := t\<rparr>)"
  by (simp_all add: ctx_same_def save_frame_def Let_def split: option.split prod.split)

lemma bad_packet_ok:
  assumes "worker_ok st" and "strikes (fst st) < MAX_STRIKES"
  shows "worker_ok (bad_packet host i e st)" "w_state (fst (bad_packet host i e st)) = w_state (fst st)"
    "w_dev (fst (bad_packet host i e st)) = w_dev (fst st)"
    "sink_st (snd (snd (bad_packet host i e st))) = sink_st (snd (snd st))"
    "strikes (fst (bad_packet host i e st)) = strikes (fst st) + 1"
    "ctx_same (snd (snd st)) (snd (snd (bad_packet host i e st)))"
  using assms by (auto simp: worker_ok_def bad_packet_def dt_record_bad_invar split: prod.splits)

text \<open>What one phase may do to a worker in good order.\<close>

definition phase_ok :: "'s wstate \<Rightarrow> outcome \<times> 's wstate \<Rightarrow> bool" where
  "phase_ok st r \<longleftrightarrow> (case r of (out, st') \<Rightarrow> worker_ok st' \<and> ctx_same (snd (snd st)) (snd (snd st')) \<and>
     (out \<in> {Proceed, Next} \<and> w_state (fst st') \<noteq> CLOSING \<longrightarrow> strikes (fst st') < MAX_STRIKES) \<and>
     (out = Crash \<longrightarrow> w_state (fst st) = ACTIVE \<and> w_dev (fst st) = None))"

lemma strike_out_ok:
  assumes "worker_ok st" and "strikes (fst st) < MAX_STRIKES"
  shows "phase_ok st (strike_out (bad_packet host i e st))"
  using bad_packet_ok [OF assms, of host i e] by (auto simp: phase_ok_def strike_out_def)

lemma check_phases_ok:
  assumes "worker_ok st" and "strikes (fst st) < MAX_STRIKES"
  shows "phase_ok st (check_framing host h st)" "phase_ok st (check_payload host h st)"
  using assms strike_out_ok [OF assms] by (auto simp: check_framing_def check_payload_def phase_ok_def)

lemma check_framing_len: "check_framing host h st = (Proceed, st') \<Longrightarrow> st' = st \<and> unat (h_payload_len h) \<le> PL_MAX_PAYLOAD"
  by (auto simp: check_framing_def strike_out_def split: if_split_asm)

lemma read_payload_ok:
  assumes "worker_ok st" and "strikes (fst st) < MAX_STRIKES" and "unat (h_payload_len h) \<le> PL_MAX_PAYLOAD"
  shows "phase_ok st (read_payload h st)" "w_state (fst (snd (read_payload h st))) = w_state (fst st)"
    "w_dev (fst (snd (read_payload h st))) = w_dev (fst st)"
proof -
  obtain w s c where st: "st = (w, s, c)" by (cases st)
  obtain r buf s1 where r: "read_n (unat (h_payload_len h)) (w_payload w) s = (r, buf, s1)"
    by (cases "read_n (unat (h_payload_len h)) (w_payload w) s")
  have "length (w_payload w) = PL_MAX_PAYLOAD" using assms(1) by (simp add: worker_ok_def st)
  then have "buf = memcpy_at (w_payload w) 0 (take (unat (h_payload_len h)) (rx_bytes (rx s)))"
    using read_n_spec [OF r] assms(3) by simp
  then have "length buf = PL_MAX_PAYLOAD"
    using assms(3) \<open>length (w_payload w) = PL_MAX_PAYLOAD\<close> by simp
  with assms r show "phase_ok st (read_payload h st)" "w_state (fst (snd (read_payload h st))) = w_state (fst st)"
    "w_dev (fst (snd (read_payload h st))) = w_dev (fst st)"
    by (auto simp: read_payload_def st phase_ok_def worker_ok_def Let_def)
qed

lemma get_device_ok:
  assumes "dt_invar t" and "dt_get_or_create ok now i sid t = (d, t')"
  shows "dt_invar t'" "length (devices t) \<le> length (devices t')" "\<And>a. d = Some a \<Longrightarrow> a < length (devices t')"
    "ok \<Longrightarrow> d \<noteq> None"
proof -
  have c: "(d, t') = (case dt_addr t i of Some d \<Rightarrow> (Some d, t)
     | None \<Rightarrow> if ok then (Some (length (devices t)), dt_insert now i sid t) else (None, t))"
    using assms(2) by (simp add: dt_get_or_create_eq_create dt_create_cases [OF assms(1)])
  show "dt_invar t'" using reg.get_invar [OF assms(1), of ok now i sid] assms(2) by simp
  show "length (devices t) \<le> length (devices t')" "\<And>a. d = Some a \<Longrightarrow> a < length (devices t')" "ok \<Longrightarrow> d \<noteq> None"
    using c dt_addr_Some [OF assms(1)] by (auto split: option.split_asm if_split_asm)
qed

lemma on_wait_hello_ok:
  assumes "worker_ok st" and "strikes (fst st) < MAX_STRIKES"
  shows "phase_ok st (on_wait_hello host env h st)"
    "e_calloc_dev env \<Longrightarrow> fst (on_wait_hello host env h st) = Next \<Longrightarrow> w_dev (fst (snd (on_wait_hello host env h st))) \<noteq> None"
proof -
  obtain w s c where st: "st = (w, s, c)" by (cases st)
  obtain d t where g: "dt_get_or_create (e_calloc_dev env) (e_time env) (h_device_id h) (next_session c) (dtable c) = (d, t)"
    by (cases "dt_get_or_create (e_calloc_dev env) (e_time env) (h_device_id h) (next_session c) (dtable c)")
  have inv: "dt_invar (dtable c)" using assms(1) by (simp add: worker_ok_def st)
  note g_ok = get_device_ok [OF inv g]
  show "phase_ok st (on_wait_hello host env h st)"
    using assms g_ok by (auto simp: on_wait_hello_def st g phase_ok_def worker_ok_def Let_def MAX_STRIKES_def split: prod.split)
  show "e_calloc_dev env \<Longrightarrow> fst (on_wait_hello host env h st) = Next \<Longrightarrow> w_dev (fst (snd (on_wait_hello host env h st))) \<noteq> None"
    using g g_ok(4) by (auto simp: on_wait_hello_def st Let_def split: prod.split_asm if_split_asm)
qed

lemma on_sensor_ok:
  assumes "worker_ok st" and "w_state (fst st) = ACTIVE"
  shows "phase_ok st (on_sensor host env h st)" "w_dev (fst (snd (on_sensor host env h st))) = w_dev (fst st)"
  using assms by (auto simp: on_sensor_def phase_ok_def worker_ok_def Let_def dt_record_sensor_invar MAX_STRIKES_def
      split: prod.split option.split)

lemma dtable_save_frame [simp]: "dtable (save_frame env i img c) = dtable c"
  by (simp add: save_frame_def Let_def split: option.split prod.split)

lemma on_frame_ok:
  assumes "worker_ok st" and "strikes (fst st) < MAX_STRIKES" and "env_ok env" and "unat (h_payload_len h) \<le> PL_MAX_PAYLOAD"
  shows "phase_ok st (on_frame host env h st)" "w_dev (fst (snd (on_frame host env h st))) = w_dev (fst st)"
proof -
  obtain w s c where st: "st = (w, s, c)" by (cases st)
  obtain fr fa img where f: "frame_asm_feed (e_malloc_frame env) (e_calloc_seen env) (e_calloc_img env)
      (w_payload w) (h_payload_len h) (w_fa w, \<lparr>img_w = 0, img_h = 0, pix = None\<rparr>) = (fr, fa, img)"
    using prod_cases3 by blast
  have "fa_ok fa"
    using frame_feed_ok [OF _ _ _ f] assms by (auto simp: worker_ok_def st env_ok_def)
  moreover have "fr \<in> {-1, 0, 1}"
    using frame_feed_ok [OF _ _ _ f] assms by (auto simp: worker_ok_def st env_ok_def)
  ultimately show "phase_ok st (on_frame host env h st)" "w_dev (fst (snd (on_frame host env h st))) = w_dev (fst st)"
    using assms by (auto simp: on_frame_def st f phase_ok_def worker_ok_def bad_packet_def Let_def MAX_STRIKES_def dt_record_bad_invar)
qed

lemma on_other_ok:
  assumes "worker_ok st" and "strikes (fst st) < MAX_STRIKES"
  shows "phase_ok st (on_other host h st)" "w_dev (fst (snd (on_other host h st))) = w_dev (fst st)"
  using assms by (auto simp: on_other_def phase_ok_def worker_ok_def bad_packet_def Let_def dt_record_bad_invar split: prod.splits)

text \<open>A worker past the handshake has its device, if there was memory for it.\<close>

definition dev_ready :: "'s wstate \<Rightarrow> bool" where
  "dev_ready st \<longleftrightarrow> w_state (fst st) = WAIT_HELLO \<or> w_dev (fst st) \<noteq> None"

definition round_ok :: "wenv \<Rightarrow> 's wstate \<Rightarrow> outcome \<times> 's wstate \<Rightarrow> bool" where
  "round_ok env st r \<longleftrightarrow> phase_ok st r \<and> (dev_ready st \<and> e_calloc_dev env \<and> fst r = Next \<longrightarrow> dev_ready (snd r))"

lemma dispatch_not_proceed: "fst (dispatch host env h st) \<noteq> Proceed"
  by (auto simp: dispatch_def on_wait_hello_def on_sensor_def on_frame_def on_other_def Let_def
      split: prod.split option.split)

lemma dispatch_ok:
  assumes "worker_ok st" and "strikes (fst st) < MAX_STRIKES" and "w_state (fst st) \<noteq> CLOSING"
    and "env_ok env" and "unat (h_payload_len h) \<le> PL_MAX_PAYLOAD"
  shows "round_ok env st (dispatch host env h st)"
proof (cases "w_state (fst st) = WAIT_HELLO")
  case True
  then show ?thesis
    using on_wait_hello_ok [OF assms(1,2), where host = host and env = env and h = h] by (auto simp: round_ok_def dispatch_def dev_ready_def)
next
  case False
  with assms(3) have active: "w_state (fst st) = ACTIVE" by (cases "w_state (fst st)") simp_all
  have ready: "dev_ready st \<longleftrightarrow> w_dev (fst st) \<noteq> None" by (simp add: dev_ready_def active)
  have stay: "phase_ok st (Next, st)" using assms(1,2) by (simp add: phase_ok_def)
  show ?thesis
    using on_sensor_ok [OF assms(1) active, of host env h] on_frame_ok [OF assms(1,2,4,5), of host]
      on_other_ok [OF assms(1,2), of host h] stay
    unfolding round_ok_def dispatch_def ready using active by (simp add: dev_ready_def)
qed

lemma bad_round:
  assumes "worker_ok st" and "strikes (fst st) < MAX_STRIKES"
  shows "round_ok env st (strike_out (bad_packet host i e st))"
  using strike_out_ok [OF assms, of host i e] bad_packet_ok [OF assms, of host i e]
  by (auto simp: round_ok_def strike_out_def dev_ready_def)

lemma round_ok_trans:
  assumes "round_ok env st1 r" and "ctx_same (snd (snd st)) (snd (snd st1))"
    and "w_state (fst st1) = w_state (fst st)" and "w_dev (fst st1) = w_dev (fst st)"
  shows "round_ok env st r"
  using assms ctx_same_trans by (auto simp: round_ok_def phase_ok_def dev_ready_def)

lemma on_header_ok:
  assumes "worker_ok st" and "strikes (fst st) < MAX_STRIKES" and "w_state (fst st) \<noteq> CLOSING" and "env_ok env"
  shows "round_ok env st (on_header host env h st) \<and> fst (on_header host env h st) \<noteq> Proceed"
proof (cases "check_framing host h st = (Proceed, st)")
  case False
  then obtain e where "check_framing host h st = strike_out (bad_packet host (h_device_id h) e st)"
    by (auto simp: check_framing_def split: if_split_asm)
  moreover have "fst (strike_out (bad_packet host (h_device_id h) e st)) \<noteq> Proceed" by (simp add: strike_out_def)
  ultimately have "on_header host env h st = strike_out (bad_packet host (h_device_id h) e st)"
    by (cases "strike_out (bad_packet host (h_device_id h) e st)") (auto simp: on_header_def)
  then show ?thesis using bad_round [OF assms(1,2)] by (auto simp: strike_out_def)
next
  case True
  then have len: "unat (h_payload_len h) \<le> PL_MAX_PAYLOAD" using check_framing_len by blast
  obtain o2 st2 where p: "read_payload h st = (o2, st2)" by (cases "read_payload h st")
  note rp = read_payload_ok [OF assms(1,2) len, unfolded p, simplified]
  have same: "ctx_same (snd (snd st)) (snd (snd st2))" "worker_ok st2" using rp(1) by (simp_all add: phase_ok_def)
  have o2: "o2 \<in> {Proceed, Leave}" using p by (auto simp: read_payload_def Let_def split: prod.split_asm if_split_asm)
  show ?thesis
  proof (cases "o2 = Proceed")
    case False
    with o2 have "on_header host env h st = (Leave, st2)" by (simp add: on_header_def True p)
    with rp(1) False o2 show ?thesis by (auto simp: round_ok_def)
  next
    case go: True
    have st2: "strikes (fst st2) < MAX_STRIKES" using rp assms(3) go by (simp add: phase_ok_def)
    have oh: "on_header host env h st = andthen (check_payload host h st2) (dispatch host env h)"
      by (simp add: on_header_def True p go)
    have "round_ok env st2 (on_header host env h st) \<and> fst (on_header host env h st) \<noteq> Proceed"
    proof (cases "check_payload host h st2 = (Proceed, st2)")
      case ck: True
      then show ?thesis
        using dispatch_ok [OF same(2) st2 _ assms(4) len] dispatch_not_proceed rp(2) assms(3) by (simp add: oh)
    next
      case False
      then have "check_payload host h st2 = strike_out (bad_packet host (h_device_id h) PL_ERR_BAD_CHECKSUM st2)"
        by (auto simp: check_payload_def)
      moreover have "fst (strike_out (bad_packet host (h_device_id h) PL_ERR_BAD_CHECKSUM st2)) \<noteq> Proceed" by (simp add: strike_out_def)
      ultimately have "on_header host env h st = strike_out (bad_packet host (h_device_id h) PL_ERR_BAD_CHECKSUM st2)"
        unfolding oh by (cases "strike_out (bad_packet host (h_device_id h) PL_ERR_BAD_CHECKSUM st2)") auto
      then show ?thesis using bad_round [OF same(2) st2] by (auto simp: strike_out_def)
    qed
    then show ?thesis using round_ok_trans same(1) rp(2,3) by blast
  qed
qed

lemma worker_iter_ok:
  assumes "worker_ok st" and "strikes (fst st) < MAX_STRIKES" and "w_state (fst st) \<noteq> CLOSING" and "env_ok env"
  shows "round_ok env st (worker_iter host env st) \<and> fst (worker_iter host env st) \<noteq> Proceed"
proof -
  obtain w s c where st: "st = (w, s, c)" by (cases st)
  obtain r buf s1 where r: "read_n PL_HDR_SIZE (replicate PL_HDR_SIZE 0) s = (r, buf, s1)"
    by (cases "read_n PL_HDR_SIZE (replicate PL_HDR_SIZE 0) s")
  let ?st1 = "(w\<lparr>idle_ticks := 0\<rparr>, s1, c)"
  have st1: "worker_ok ?st1" "strikes (fst ?st1) < MAX_STRIKES" "w_state (fst ?st1) \<noteq> CLOSING"
    using assms(1-3) by (simp_all add: worker_ok_def st)
  show ?thesis
  proof (cases r)
    case (Inl e)
    then show ?thesis
      using assms r by (auto simp: st worker_iter_err round_ok_def phase_ok_def worker_ok_def dev_ready_def)
  next
    case (Inr n)
    show ?thesis
    proof (cases "n = PL_HDR_SIZE")
      case True
      have "round_ok env ?st1 (worker_iter host env st) \<and> fst (worker_iter host env st) \<noteq> Proceed"
        using on_header_ok [OF st1 assms(4)] r Inr True by (simp add: st worker_iter_header)
      then show ?thesis using round_ok_trans [of env ?st1 _ st] by (simp add: st)
    next
      case False
      with r Inr have "worker_iter host env st = (Leave, w, s1, c)" by (simp add: st worker_iter_short)
      then show ?thesis using assms by (auto simp: st round_ok_def phase_ok_def worker_ok_def)
    qed
  qed
qed

text \<open>The whole loop: it ends in good order, and it does not crash if there is memory for the device.\<close>

lemma worker_loop_ok:
  assumes "worker_ok st" and "w_state (fst st) \<noteq> CLOSING \<longrightarrow> strikes (fst st) < MAX_STRIKES" and "dev_ready st"
    and "\<forall>k. env_ok (envs k) \<and> e_calloc_dev (envs k)"
  shows "case worker_loop host envs k st of (out, st') \<Rightarrow> out = Leave \<and> worker_ok st' \<and> ctx_same (snd (snd st)) (snd (snd st'))"
  using assms
proof (induction host envs k st rule: worker_loop.induct)
  case (1 host envs k st)
  show ?case
  proof (cases "running (snd (snd st)) \<and> w_state (fst st) \<noteq> CLOSING")
    case False
    show ?thesis unfolding worker_loop.simps [of host envs k st] if_not_P [OF False] using "1.prems" by simp
  next
    case True
    obtain out st1 where it: "worker_iter host (envs k) st = (out, st1)" by (cases "worker_iter host (envs k) st")
    have env: "env_ok (envs k)" "e_calloc_dev (envs k)" using "1.prems"(4) by simp_all
    have "strikes (fst st) < MAX_STRIKES" using "1.prems"(2) True by simp
    from worker_iter_ok [OF "1.prems"(1) this _ env(1), of host] True it
    have ok: "round_ok (envs k) st (out, st1)" "out \<noteq> Proceed" by simp_all
    have same: "worker_ok st1" "ctx_same (snd (snd st)) (snd (snd st1))" using ok(1) by (simp_all add: round_ok_def phase_ok_def)
    show ?thesis
    proof (cases "out = Next")
      case next_round: True
      have "w_state (fst st1) \<noteq> CLOSING \<longrightarrow> strikes (fst st1) < MAX_STRIKES" "dev_ready st1"
        using ok(1) next_round "1.prems"(3) env(2) by (simp_all add: round_ok_def phase_ok_def)
      from "1.IH" [OF True it [symmetric] next_round same(1) this "1.prems"(4)] ctx_same_trans [OF same(2)]
      have "case worker_loop host envs (Suc k) st1 of (out, st') \<Rightarrow> out = Leave \<and> worker_ok st' \<and> ctx_same (snd (snd st)) (snd (snd st'))"
        by (auto split: prod.splits)
      then show ?thesis using True it next_round by (simp add: worker_loop.simps [of host envs k st])
    next
      case False
      have "out \<noteq> Crash" using ok(1) "1.prems"(3) by (auto simp: round_ok_def phase_ok_def dev_ready_def)
      with False ok(2) have "out = Leave" by (cases out) simp_all
      with same True it show ?thesis by (simp add: worker_loop.simps [of host envs k st])
    qed
  qed
qed

section \<open>A silent peer, and three strikes\<close>

lemma worker_loop_silent:
  assumes "rx s = []" and "running c" and "w_state w \<noteq> CLOSING" and "idle_ticks w < 15"
  shows "worker_loop host envs k (w, s, c) = (Leave, w\<lparr>idle_ticks := 15\<rparr>, s, c)"
  using assms(3,4)
proof (induction "15 - idle_ticks w" arbitrary: k w)
  case (Suc n)
  have r: "read_n PL_HDR_SIZE (replicate PL_HDR_SIZE 0) s = (Inl EAGAIN, replicate PL_HDR_SIZE 0, s)"
    using assms(1) by (simp add: read_n_def read_n_loop.simps [of _ 0 _ "[]"] pl_consts)
  show ?case
  proof (cases "idle_ticks w + 1 < 15")
    case True
    have "worker_loop host envs (Suc k) (w\<lparr>idle_ticks := idle_ticks w + 1\<rparr>, s, c) =
        (Leave, w\<lparr>idle_ticks := idle_ticks w + 1\<rparr>\<lparr>idle_ticks := 15\<rparr>, s, c)"
      by (rule Suc.hyps(1)) (use Suc True in simp_all)
    with True assms(2) Suc.prems show ?thesis
      by (simp add: worker_loop.simps [of host envs k] worker_iter_err [OF r])
  next
    case False
    with Suc have "idle_ticks w = 14" by simp
    with assms(2) Suc.prems show ?thesis by (simp add: worker_loop.simps [of host envs k] worker_iter_err [OF r])
  qed
qed simp

text \<open>
  Bytes that make the worker answer with an error and add a strike: a header with a wrong
  magic, a wrong version or too large a length (its payload, if any, is not skipped), or a
  whole packet whose checksum does not match.
\<close>

definition rejects :: "endian \<Rightarrow> u8 list \<Rightarrow> pl_error \<Rightarrow> bool" where
  "rejects host q e \<longleftrightarrow> PL_HDR_SIZE \<le> length q \<and> (let h = pl_parse_header host (take PL_HDR_SIZE q); p = drop PL_HDR_SIZE q in
     if h_magic h \<noteq> PL_MAGIC then e = PL_ERR_BAD_MAGIC \<and> p = []
     else if h_version h \<noteq> PL_VERSION then e = PL_ERR_BAD_VERSION \<and> p = []
     else if unat (h_payload_len h) > PL_MAX_PAYLOAD then e = PL_ERR_TOO_BIG \<and> p = []
     else e = PL_ERR_BAD_CHECKSUM \<and> length p = unat (h_payload_len h) \<and> pl_checksum p (length p) \<noteq> h_checksum h)"

definition error_packet :: "endian \<Rightarrow> u8 list \<Rightarrow> pl_error \<Rightarrow> u8 list" where
  "error_packet host q e = wire_packet PKT_ERROR (h_device_id (pl_parse_header host (take PL_HDR_SIZE q))) (mem_u16 BigEndian (err_code e))"

lemma send_error_ok:
  "txs s = [] \<Longrightarrow> send_error host i e s = (0, s\<lparr>tx_out := tx_out s @ wire_packet PKT_ERROR i (mem_u16 BigEndian (err_code e))\<rparr>)"
  using send_packet_ok [of s "mem_u16 BigEndian (err_code e)" host PKT_ERROR i]
  by (simp add: send_error_def Let_def mem_htons del: mem_u16.simps)

lemma andthen_strike_out: "andthen (strike_out st) f = strike_out st"
  by (simp add: strike_out_def)

lemma bad_packet_answer:
  assumes "txs s = []"
  shows "bad_packet host i e (w, s, c) = (w\<lparr>strikes := strikes w + 1\<rparr>,
    s\<lparr>tx_out := tx_out s @ wire_packet PKT_ERROR i (mem_u16 BigEndian (err_code e))\<rparr>,
    c\<lparr>dtable := dt_record_bad (w_dev w) (dtable c)\<rparr>)"
  using assms by (simp add: bad_packet_def send_error_ok)

lemma worker_iter_rejects:
  assumes bytes: "rx_bytes (rx s) = q @ rest" and rej: "rejects host q e"
    and buf: "length (w_payload w) = PL_MAX_PAYLOAD" and tx: "txs s = []"
  obtains w1 es where "worker_iter host env (w, s, c) = strike_out (w1\<lparr>strikes := strikes w + 1\<rparr>,
      s\<lparr>rx := es, tx_out := tx_out s @ error_packet host q e\<rparr>, c\<lparr>dtable := dt_record_bad (w_dev w) (dtable c)\<rparr>)"
    and "rx_bytes es = rest" and "rx_stop es = rx_stop (rx s)"
    and "w_state w1 = w_state w" and "w_dev w1 = w_dev w" and "length (w_payload w1) = PL_MAX_PAYLOAD"
proof -
  define hb p where "hb = take PL_HDR_SIZE q" and "p = drop PL_HDR_SIZE q"
  define h where "h = pl_parse_header host hb"
  have q: "rx_bytes (rx s) = hb @ p @ rest" "length hb = PL_HDR_SIZE"
    using rej bytes by (simp_all add: rejects_def hb_def p_def)
  have answer: "error_packet host q e = wire_packet PKT_ERROR (h_device_id h) (mem_u16 BigEndian (err_code e))"
    by (simp add: error_packet_def h_def hb_def)
  show ?thesis
  proof (cases "h_magic h = PL_MAGIC \<and> h_version h = PL_VERSION \<and> unat (h_payload_len h) \<le> PL_MAX_PAYLOAD")
    case False
    with rej have p: "p = []" and e: "check_framing host h st = strike_out (bad_packet host (h_device_id h) e st)" for st :: "'a wstate"
      by (auto simp: rejects_def Let_def check_framing_def h_def hb_def p_def split: if_split_asm)
    obtain es where es: "rx_bytes es = p @ rest" "rx_stop es = rx_stop (rx s)"
      "worker_iter host env (w, s, c) = on_header host env h (w\<lparr>idle_ticks := 0\<rparr>, s\<lparr>rx := es\<rparr>, c)"
      by (rule worker_iter_read_header [OF q, of host env w c]) (simp add: h_def)
    show ?thesis
      by (rule that [of "w\<lparr>idle_ticks := 0\<rparr>" es])
        (use es p buf tx in \<open>simp_all add: on_header_def e andthen_strike_out bad_packet_answer answer\<close>)
  next
    case True
    with rej have e: "e = PL_ERR_BAD_CHECKSUM" and len: "length p = unat (h_payload_len h)"
      and ck: "pl_checksum p (length p) \<noteq> h_checksum h"
      by (auto simp: rejects_def Let_def h_def hb_def p_def)
    let ?w1 = "w\<lparr>idle_ticks := 0, w_payload := p @ drop (length p) (w_payload w)\<rparr>"
    obtain es where es: "rx_bytes es = rest" "rx_stop es = rx_stop (rx s)"
      "worker_iter host env (w, s, c) = andthen (check_payload host h (?w1, s\<lparr>rx := es\<rparr>, c)) (dispatch host env h)"
      by (rule worker_iter_whole [OF q h_def _ _ len _ buf, of env c]) (use True len in simp_all)
    have "check_payload host h (?w1, s\<lparr>rx := es\<rparr>, c) = strike_out (bad_packet host (h_device_id h) e (?w1, s\<lparr>rx := es\<rparr>, c))"
      unfolding check_payload_def len [symmetric] e using ck by simp
    with es show ?thesis
      by (intro that [of ?w1 es]) (use buf len True tx in \<open>simp_all add: andthen_strike_out bad_packet_answer answer\<close>)
  qed
qed

section \<open>Whole connections\<close>

text \<open>The first round of a session, on the loop.\<close>

lemma worker_loop_hello:
  assumes "rx_bytes (rx s) = wire_packet PKT_HELLO i hello @ rest" and "length hello \<le> PL_MAX_PAYLOAD" and "txs s = []"
    and "running c" and "length payload0 = PL_MAX_PAYLOAD"
    and "dt_get_or_create (e_calloc_dev (envs 0)) (e_time (envs 0)) i (next_session c) (dtable c) = (d, t)"
  obtains w1 es where "worker_loop host envs 0 (worker_init payload0, s, worker_enter c) = worker_loop host envs 1
      (w1, s\<lparr>rx := es, tx_out := tx_out s @ wire_packet PKT_HELLO_ACK i (mem_u32 BigEndian (next_session c))\<rparr>,
       (worker_enter c)\<lparr>next_session := next_session c + 1, dtable := t\<rparr>)"
    and "rx_bytes es = rest" and "rx_stop es = rx_stop (rx s)" and "w_state w1 = ACTIVE" and "w_dev w1 = d"
    and "sensor_count w1 = 0" and "length (w_payload w1) = PL_MAX_PAYLOAD" and "w_fa w1 = frame_asm_init"
proof -
  let ?c = "worker_enter c"
  have c: "next_session ?c = next_session c" "dtable ?c = dtable c" "running ?c" using assms(4) by (simp_all add: worker_enter_def)
  obtain w1 es where it: "worker_iter host (envs 0) (worker_init payload0, s, ?c) = (Next, w1,
      s\<lparr>rx := es, tx_out := tx_out s @ wire_packet PKT_HELLO_ACK i (mem_u32 BigEndian (next_session ?c))\<rparr>,
      ?c\<lparr>next_session := next_session ?c + 1, dtable := t\<rparr>)"
    and es: "rx_bytes es = rest" "rx_stop es = rx_stop (rx s)" and w1: "w_state w1 = ACTIVE" "w_dev w1 = d"
      "sensor_count w1 = sensor_count (worker_init payload0)" "length (w_payload w1) = PL_MAX_PAYLOAD" "w_fa w1 = w_fa (worker_init payload0)"
    by (rule worker_iter_hello [OF assms(1,2), of "worker_init payload0" "envs 0" ?c d t host])
      (use assms c in \<open>simp_all add: worker_init_def\<close>)
  have "worker_loop host envs 0 (worker_init payload0, s, ?c) = worker_loop host envs 1
      (w1, s\<lparr>rx := es, tx_out := tx_out s @ wire_packet PKT_HELLO_ACK i (mem_u32 BigEndian (next_session c))\<rparr>,
       ?c\<lparr>next_session := next_session c + 1, dtable := t\<rparr>)"
    using c by (simp add: worker_loop.simps [of host envs 0] it worker_init_def [of payload0, THEN arg_cong [where f = w_state]] del: mem_u32.simps)
  then show ?thesis by (rule that) (use es w1 in \<open>simp_all add: worker_init_def\<close>)
qed

lemma client_session_run:
  assumes bytes: "rx_bytes (rx s) = wire_packet PKT_HELLO i hello @ sensor_packets i xs" and "length hello \<le> PL_MAX_PAYLOAD"
    and "fst (rx_stop (rx s)) = Closed" and "txs s = []" and "running c" and "length payload0 = PL_MAX_PAYLOAD"
    and "dt_invar (dtable c)" and "e_calloc_dev (envs 0)"
  shows "\<exists>w' s' c'. client_worker host envs payload0 fd (s, c) = (Leave, w', s', c') \<and>
    sink_st c' = sink_writes (ctx_sink c) (readings i envs 1 xs) (sink_st c) \<and>
    tx_out s' = tx_out s @ wire_packet PKT_HELLO_ACK i (mem_u32 BigEndian (next_session c)) @ acks i 0 xs \<and>
    dt_map (dtable c') = (dt_map (dtable c))(i \<mapsto> device_after envs 1 xs
      (case dt_map (dtable c) i of Some v \<Rightarrow> v | None \<Rightarrow> new_device (e_time (envs 0)) i (next_session c))) \<and>
    dt_invar (dtable c') \<and>
    next_session c' = next_session c + 1 \<and> open_fds c' = open_fds c - {fd} \<and>
    client_slots c' = client_slots c + 1 \<and> active_workers c' = active_workers c"
proof -
  define c0 where "c0 = worker_enter c"
  obtain d t where g: "dt_get_or_create (e_calloc_dev (envs 0)) (e_time (envs 0)) i (next_session c) (dtable c) = (d, t)"
    by (cases "dt_get_or_create (e_calloc_dev (envs 0)) (e_time (envs 0)) i (next_session c) (dtable c)")
  note eff = reg.get_effect [OF assms(7) g]
  obtain a where a: "d = Some a" using get_device_ok(4) [OF assms(7) g assms(8)] by auto
  define v where "v = (case dt_map (dtable c) i of Some v \<Rightarrow> v | None \<Rightarrow> new_device (e_time (envs 0)) i (next_session c))"
  have tv: "dt_invar t" "dt_addr t i = Some a" "dt_map t i = Some v" "\<forall>j. j \<noteq> i \<longrightarrow> dt_map t j = dt_map (dtable c) j"
    using eff a assms(8) by (auto simp: v_def split: option.splits)
  have c0: "next_session c0 = next_session c" "dtable c0 = dtable c" "running c0" "ctx_sink c0 = ctx_sink c"
    using assms(5) by (simp_all add: c0_def worker_enter_def)
  obtain w1 es where loop: "worker_loop host envs 0 (worker_init payload0, s, c0) = worker_loop host envs 1
      (w1, s\<lparr>rx := es, tx_out := tx_out s @ wire_packet PKT_HELLO_ACK i (mem_u32 BigEndian (next_session c))\<rparr>,
       c0\<lparr>next_session := next_session c + 1, dtable := t\<rparr>)"
    and es: "rx_bytes es = sensor_packets i xs" "rx_stop es = rx_stop (rx s)" and w1: "w_state w1 = ACTIVE" "w_dev w1 = d"
      "sensor_count w1 = 0" "length (w_payload w1) = PL_MAX_PAYLOAD"
    unfolding c0_def by (rule worker_loop_hello [where envs = envs and host = host, OF bytes assms(2,4-6) g])
  define s1 where "s1 = s\<lparr>rx := es, tx_out := tx_out s @ wire_packet PKT_HELLO_ACK i (mem_u32 BigEndian (next_session c))\<rparr>"
  define c1 where "c1 = c0\<lparr>next_session := next_session c + 1, dtable := t\<rparr>"
  obtain w' s' where run: "worker_loop host envs 1 (w1, s1, c1) = (Leave, w', s', c1\<lparr>dtable := recorded a envs 1 xs (dtable c1),
      sink_st := sink_writes (ctx_sink c1) (readings i envs 1 xs) (sink_st c1)\<rparr>)" "tx_out s' = tx_out s1 @ acks i 0 xs"
    using worker_loop_readings [of s1 i xs c1 w1 a 0 host envs 1] es w1 assms a c0 by (auto simp: s1_def c1_def)
  have "worker_loop host envs 0 (worker_init payload0, s, c0) = worker_loop host envs 1 (w1, s1, c1)"
    unfolding loop s1_def c1_def ..
  moreover define c2 where "c2 = worker_exit fd (c1\<lparr>dtable := recorded a envs 1 xs t,
    sink_st := sink_writes (ctx_sink c1) (readings i envs 1 xs) (sink_st c1)\<rparr>)"
  ultimately have "client_worker host envs payload0 fd (s, c) = (Leave, w'\<lparr>w_fa := frame_asm_reset (w_fa w')\<rparr>, s', c2)"
    using run(1) by (simp add: client_worker_def c1_def c2_def flip: c0_def)
  moreover have "dt_map (recorded a envs 1 xs t) = (dt_map (dtable c))(i \<mapsto> device_after envs 1 xs v)"
    using recorded_map(3) [OF tv(1-3)] tv(4) by (auto simp: fun_eq_iff)
  moreover have "dt_invar (recorded a envs 1 xs t)" by (rule recorded_map(1) [OF tv(1-3)])
  ultimately show ?thesis
    using run(2) by (intro exI [of _ "w'\<lparr>w_fa := frame_asm_reset (w_fa w')\<rparr>"] exI [of _ s'] exI [of _ c2])
      (simp add: c2_def s1_def c1_def c0_def worker_enter_def worker_exit_def del: mem_u32.simps flip: v_def)
qed

lemma worker_loop_strike:
  assumes "rx_bytes (rx s) = q @ rest" and "rejects host q e" and "length (w_payload w) = PL_MAX_PAYLOAD"
    and "txs s = []" and "running c" and "w_state w \<noteq> CLOSING"
  obtains w1 es where "worker_loop host envs k (w, s, c) =
      (let st = (w1, s\<lparr>rx := es, tx_out := tx_out s @ error_packet host q e\<rparr>, c\<lparr>dtable := dt_record_bad (w_dev w) (dtable c)\<rparr>)
       in if strikes w + 1 < MAX_STRIKES then worker_loop host envs (Suc k) st else (Leave, st))"
    and "rx_bytes es = rest" and "strikes w1 = strikes w + 1" and "w_state w1 = w_state w" and "w_dev w1 = w_dev w"
    and "length (w_payload w1) = PL_MAX_PAYLOAD"
proof -
  obtain w1 es where w1: "worker_iter host (envs k) (w, s, c) = strike_out (w1\<lparr>strikes := strikes w + 1\<rparr>,
      s\<lparr>rx := es, tx_out := tx_out s @ error_packet host q e\<rparr>, c\<lparr>dtable := dt_record_bad (w_dev w) (dtable c)\<rparr>)"
    "rx_bytes es = rest" "w_state w1 = w_state w" "w_dev w1 = w_dev w" "length (w_payload w1) = PL_MAX_PAYLOAD"
    by (rule worker_iter_rejects [OF assms(1-4), of "envs k" c])
  show ?thesis
    by (rule that [of "w1\<lparr>strikes := strikes w + 1\<rparr>" es])
      (use assms(5,6) w1 in \<open>simp_all add: worker_loop.simps [of host envs k] strike_out_def Let_def\<close>)
qed

section \<open>Properties\<close>

text \<open>
  C2. A session of a well-behaved device. Whatever bytes the device's HELLO and readings are
  cut into on the way, and however often the calls are interrupted: the worker answers the
  HELLO with the next session number, hands every reading to the sink exactly once, in order,
  under the device's id and stamped with the server's clock, acknowledges every eighth reading
  with its sequence number, brings the device's entry up to date without touching any other,
  and, when the device closes the connection, gives back the descriptor and the client slot.
\<close>

theorem client_session:
  assumes "rx_bytes (rx s) = wire_packet PKT_HELLO i hello @ sensor_packets i xs" and "length hello \<le> PL_MAX_PAYLOAD"
    and "fst (rx_stop (rx s)) = Closed" and "txs s = []" and "running c" and "length payload0 = PL_MAX_PAYLOAD"
    and "dt_invar (dtable c)" and "e_calloc_dev (envs 0)"
  shows "\<exists>w' s' c'. client_worker host envs payload0 fd (s, c) = (Leave, w', s', c') \<and>
    sink_st c' = sink_writes (ctx_sink c) (readings i envs 1 xs) (sink_st c) \<and>
    tx_out s' = tx_out s @ wire_packet PKT_HELLO_ACK i (mem_u32 BigEndian (next_session c)) @ acks i 0 xs \<and>
    dt_map (dtable c') = (dt_map (dtable c))(i \<mapsto> device_after envs 1 xs
      (case dt_map (dtable c) i of Some v \<Rightarrow> v | None \<Rightarrow> new_device (e_time (envs 0)) i (next_session c))) \<and>
    dt_invar (dtable c') \<and>
    next_session c' = next_session c + 1 \<and> open_fds c' = open_fds c - {fd} \<and>
    client_slots c' = client_slots c + 1 \<and> active_workers c' = active_workers c"
  using assms by (rule client_session_run)

text \<open>A server with an empty table and the in-memory sink, and rounds in which every call succeeds.\<close>

definition demo_ctx :: "ring_log server_ctx" where
  "demo_ctx = \<lparr>cfg = \<lparr>tcp_port = 9000, udp_port = 9001, max_clients = 16\<rparr>, running = True, dump_requested = False,
     active_workers = 0, client_slots = 15, listen_fd = 3, pipe_bytes = 0, dtable = empty_table, ctx_sink = sink_ring_log,
     sink_st = \<lparr>rl_ring = replicate 1024 zero_record, rl_head = 0, rl_written = 0, rl_overwritten = 0\<rparr>,
     frame_dir = None, next_session = 1, open_fds = {5}, files = (\<lambda>_. None)\<rparr>"

definition demo_env :: "nat \<Rightarrow> wenv" where
  "demo_env k = \<lparr>e_time = 100 + int k, e_clock = (of_nat k, 0), e_calloc_dev = True,
     e_malloc_frame = (\<lambda>n. Some (replicate n 0)), e_calloc_seen = True, e_calloc_img = True, e_calloc_edges = True,
     e_fopen_in = None, e_fopen_edges = None\<rparr>"

definition demo_reading :: "u32 \<Rightarrow> pl_sensor_payload" where
  "demo_reading n = \<lparr>s_seq = n, s_timestamp_ms = 1000 * n, s_temperature = 2500, s_humidity = 5000\<rparr>"

theorem client_session_witness:
  "let s = \<lparr>rx = [RxData (wire_packet PKT_HELLO 7 []), RxErr EINTR, RxData (sensor_packets 7 [demo_reading 1]), RxEof],
     txs = [], tx_out = []\<rparr> in
   \<exists>w' s' c'. client_worker LittleEndian demo_env (replicate 1100 0) 5 (s, demo_ctx) = (Leave, w', s', c') \<and>
     sink_st c' = sink_writes sink_ring_log [reading_record 7 (demo_env 1) (demo_reading 1)] (sink_st demo_ctx) \<and>
     tx_out s' = wire_packet PKT_HELLO_ACK 7 (mem_u32 BigEndian 1) \<and> open_fds c' = {} \<and> client_slots c' = 16"
proof -
  let ?s = "\<lparr>rx = [RxData (wire_packet PKT_HELLO 7 []), RxErr EINTR, RxData (sensor_packets 7 [demo_reading 1]), RxEof],
     txs = [], tx_out = []\<rparr> :: sock"
  have "\<exists>w' s' c'. client_worker LittleEndian demo_env (replicate 1100 0) 5 (?s, demo_ctx) = (Leave, w', s', c') \<and>
    sink_st c' = sink_writes (ctx_sink demo_ctx) (readings 7 demo_env 1 [demo_reading 1]) (sink_st demo_ctx) \<and>
    tx_out s' = tx_out ?s @ wire_packet PKT_HELLO_ACK 7 (mem_u32 BigEndian (next_session demo_ctx)) @ acks 7 0 [demo_reading 1] \<and>
    dt_map (dtable c') = (dt_map (dtable demo_ctx))(7 \<mapsto> device_after demo_env 1 [demo_reading 1]
      (case dt_map (dtable demo_ctx) 7 of Some v \<Rightarrow> v | None \<Rightarrow> new_device (e_time (demo_env 0)) 7 (next_session demo_ctx))) \<and>
    dt_invar (dtable c') \<and>
    next_session c' = next_session demo_ctx + 1 \<and> open_fds c' = open_fds demo_ctx - {5} \<and>
    client_slots c' = client_slots demo_ctx + 1 \<and> active_workers c' = active_workers demo_ctx"
    by (rule client_session [where hello = "[]"]) (simp_all add: pl_consts demo_ctx_def demo_env_def empty_table_invar)
  then show ?thesis by (auto simp: Let_def demo_ctx_def)
qed

text \<open>
  C7. Whatever bytes a peer sends, cut and delayed as it likes: if memory allocation succeeds,
  the worker ends without a crash, its payload buffer has kept its size (no read went past it),
  the frame reassembler has been within its buffers and is released, the device table is in
  order, and the connection's descriptor and client slot have been given back.
\<close>

theorem client_worker_safe:
  assumes "length payload0 = PL_MAX_PAYLOAD" and "dt_invar (dtable c)" and "\<forall>k. env_ok (envs k) \<and> e_calloc_dev (envs k)"
  shows "case client_worker host envs payload0 fd (s, c) of (out, w', s', c') \<Rightarrow>
    out = Leave \<and> length (w_payload w') = PL_MAX_PAYLOAD \<and> w_fa w' = frame_asm_init \<and> dt_invar (dtable c') \<and>
    open_fds c' = open_fds c - {fd} \<and> client_slots c' = client_slots c + 1 \<and> active_workers c' = active_workers c"
proof -
  let ?st = "(worker_init payload0, s, worker_enter c)"
  have "worker_ok ?st" "dev_ready ?st" "w_state (fst ?st) \<noteq> CLOSING \<longrightarrow> strikes (fst ?st) < MAX_STRIKES"
    using assms(1,2) by (simp_all add: worker_ok_def worker_init_def worker_enter_def dev_ready_def MAX_STRIKES_def fa_ok_def)
  from worker_loop_ok [OF this(1,3,2) assms(3), of host 0]
  show ?thesis
    by (auto simp: client_worker_def Let_def worker_ok_def ctx_same_def frame_asm_reset_def worker_enter_def worker_exit_def
        split: prod.splits)
qed

theorem client_worker_safe_witness:
  "let s = \<lparr>rx = [RxData (replicate 40 0xFF), RxErr ECONNRESET], txs = [], tx_out = []\<rparr> in
   (\<forall>k. env_ok (demo_env k) \<and> e_calloc_dev (demo_env k)) \<and>
   (case client_worker LittleEndian demo_env (replicate 1100 0) 5 (s, demo_ctx) of (out, w', s', c') \<Rightarrow>
     out = Leave \<and> length (w_payload w') = 1100 \<and> open_fds c' = {} \<and> client_slots c' = 16)"
proof -
  let ?s = "\<lparr>rx = [RxData (replicate 40 0xFF), RxErr ECONNRESET], txs = [], tx_out = []\<rparr> :: sock"
  have e: "\<forall>k. env_ok (demo_env k) \<and> e_calloc_dev (demo_env k)" by (auto simp: env_ok_def demo_env_def)
  have "dt_invar (dtable demo_ctx)" "open_fds demo_ctx = {5}" "client_slots demo_ctx = 15"
    by (simp_all add: demo_ctx_def empty_table_invar)
  with client_worker_safe [OF _ _ e, of "replicate 1100 0" demo_ctx, where host = LittleEndian and fd = 5 and s = ?s] e
  show ?thesis unfolding Let_def by (auto simp: pl_consts split: prod.splits)
qed

text \<open>
  C23. Three strikes. Three malformed packets in a row, each with a wrong magic, version, length
  or checksum, are each answered with the error that names the fault; then the worker stops
  reading, and what follows on the connection is never looked at. Nothing reaches the sink,
  and a device that had said HELLO has three more bad packets on its account.
\<close>

theorem client_three_strikes:
  assumes "rx_bytes (rx s) = q1 @ q2 @ q3 @ rest" and "rejects host q1 e1" and "rejects host q2 e2" and "rejects host q3 e3"
    and "length (w_payload w) = PL_MAX_PAYLOAD" and "txs s = []" and "running c" and "w_state w \<noteq> CLOSING" and "strikes w = 0"
  shows "\<exists>w' s'. worker_loop host envs k (w, s, c) =
      (Leave, w', s', c\<lparr>dtable := (dt_record_bad (w_dev w) ^^ 3) (dtable c)\<rparr>) \<and>
    tx_out s' = tx_out s @ error_packet host q1 e1 @ error_packet host q2 e2 @ error_packet host q3 e3 \<and>
    rx_bytes (rx s') = rest"
proof -
  obtain w1 es1 where 1: "worker_loop host envs k (w, s, c) = worker_loop host envs (Suc k)
        (w1, s\<lparr>rx := es1, tx_out := tx_out s @ error_packet host q1 e1\<rparr>, c\<lparr>dtable := dt_record_bad (w_dev w) (dtable c)\<rparr>)"
    "rx_bytes es1 = q2 @ q3 @ rest" "strikes w1 = 1" "w_state w1 = w_state w" "w_dev w1 = w_dev w" "length (w_payload w1) = PL_MAX_PAYLOAD"
    by (rule worker_loop_strike [OF assms(1,2,5-8), of envs k]) (use assms(9) in \<open>simp add: MAX_STRIKES_def Let_def\<close>)
  define s1 where "s1 = s\<lparr>rx := es1, tx_out := tx_out s @ error_packet host q1 e1\<rparr>"
  define c1 where "c1 = c\<lparr>dtable := dt_record_bad (w_dev w) (dtable c)\<rparr>"
  have "rx_bytes (rx s1) = q2 @ q3 @ rest" "txs s1 = []" "running c1" using 1(2) assms by (simp_all add: s1_def c1_def)
  then obtain w2 es2 where 2: "worker_loop host envs (Suc k) (w1, s1, c1) = worker_loop host envs (Suc (Suc k))
        (w2, s1\<lparr>rx := es2, tx_out := tx_out s1 @ error_packet host q2 e2\<rparr>, c1\<lparr>dtable := dt_record_bad (w_dev w) (dtable c1)\<rparr>)"
    "rx_bytes es2 = q3 @ rest" "strikes w2 = 2" "w_state w2 = w_state w" "w_dev w2 = w_dev w" "length (w_payload w2) = PL_MAX_PAYLOAD"
    by (rule worker_loop_strike [OF _ assms(3) 1(6), of s1 "q3 @ rest" c1 envs "Suc k"])
      (use assms(8) 1 in \<open>simp_all add: MAX_STRIKES_def Let_def\<close>)
  define s2 where "s2 = s1\<lparr>rx := es2, tx_out := tx_out s1 @ error_packet host q2 e2\<rparr>"
  define c2 where "c2 = c1\<lparr>dtable := dt_record_bad (w_dev w) (dtable c1)\<rparr>"
  have "rx_bytes (rx s2) = q3 @ rest" "txs s2 = []" "running c2"
    using 2(2) assms by (simp_all add: s2_def s1_def c2_def c1_def)
  then obtain w3 es3 where 3: "worker_loop host envs (Suc (Suc k)) (w2, s2, c2) =
        (Leave, w3, s2\<lparr>rx := es3, tx_out := tx_out s2 @ error_packet host q3 e3\<rparr>, c2\<lparr>dtable := dt_record_bad (w_dev w) (dtable c2)\<rparr>)"
    "rx_bytes es3 = rest"
    by (rule worker_loop_strike [OF _ assms(4) 2(6), of s2 rest c2 envs "Suc (Suc k)"])
      (use assms(8) 2 in \<open>simp_all add: MAX_STRIKES_def Let_def\<close>)
  have "c2\<lparr>dtable := dt_record_bad (w_dev w) (dtable c2)\<rparr> = c\<lparr>dtable := (dt_record_bad (w_dev w) ^^ 3) (dtable c)\<rparr>"
    by (simp add: c2_def c1_def numeral_3_eq_3)
  with 1(1) 2(1) 3 show ?thesis
    unfolding s1_def [symmetric] c1_def [symmetric] s2_def [symmetric] c2_def [symmetric]
    by (intro exI [of _ w3] exI [of _ "s2\<lparr>rx := es3, tx_out := tx_out s2 @ error_packet host q3 e3\<rparr>"]) (simp add: s2_def s1_def)
qed

theorem client_three_strikes_witness:
  "let bad = replicate 12 0; w = worker_init (replicate 1100 0);
       s = \<lparr>rx = [RxData (bad @ bad), RxData (bad @ [1])], txs = [], tx_out = []\<rparr> in
   rejects BigEndian bad PL_ERR_BAD_MAGIC \<and>
   (\<exists>w' s' c'. worker_loop BigEndian demo_env 0 (w, s, demo_ctx) = (Leave, w', s', c') \<and> rx_bytes (rx s') = [1] \<and>
     tx_out s' = concat (replicate 3 (wire_packet PKT_ERROR 0 (mem_u16 BigEndian 1))) \<and> sink_st c' = sink_st demo_ctx)"
proof -
  let ?bad = "replicate 12 0 :: u8 list" and ?w = "worker_init (replicate 1100 0)"
  let ?s = "\<lparr>rx = [RxData (?bad @ ?bad), RxData (?bad @ [1])], txs = [], tx_out = []\<rparr> :: sock"
  have h: "pl_parse_header BigEndian ?bad = \<lparr>h_magic = 0, h_version = 0, h_type = 0, h_device_id = 0, h_payload_len = 0, h_checksum = 0\<rparr>"
    by (simp add: pl_parse_header_host hdr_ld_def join_u16_def join_u32_def)
  have bad: "rejects BigEndian ?bad PL_ERR_BAD_MAGIC" using h by (simp add: rejects_def pl_consts)
  have "rx_bytes (rx ?s) = ?bad @ ?bad @ ?bad @ [1]" by simp
  from client_three_strikes [OF this bad bad bad, of ?w demo_ctx demo_env 0] bad h
  show ?thesis
    by (auto simp: Let_def worker_init_def demo_ctx_def pl_consts error_packet_def numeral_3_eq_3)
qed

text \<open>
  C32. A peer that stays connected and silent is dropped: after fifteen receive timeouts of two
  seconds, and not before, the worker leaves its loop, having sent nothing and changed nothing.
\<close>

theorem client_reaps_silent_peer:
  assumes "rx s = []" and "running c" and "w_state w \<noteq> CLOSING" and "idle_ticks w = 0"
  shows "worker_loop host envs k (w, s, c) = (Leave, w\<lparr>idle_ticks := 15\<rparr>, s, c) \<and>
    (\<forall>n < 14. worker_iter host (envs k) (w\<lparr>idle_ticks := n\<rparr>, s, c) = (Next, w\<lparr>idle_ticks := n + 1\<rparr>, s, c)) \<and>
    15 * WORKER_TICK_S = DEAD_PEER_S"
proof -
  have r: "read_n PL_HDR_SIZE (replicate PL_HDR_SIZE 0) s = (Inl EAGAIN, replicate PL_HDR_SIZE 0, s)"
    using assms(1) by (simp add: read_n_def read_n_loop.simps [of _ 0 _ "[]"] pl_consts)
  have "worker_iter host (envs k) (w\<lparr>idle_ticks := n\<rparr>, s, c) = (Next, w\<lparr>idle_ticks := n + 1\<rparr>, s, c)" if "n < 14" for n
    using worker_iter_err [OF r, of host "envs k" "w\<lparr>idle_ticks := n\<rparr>" c] that by simp
  then show ?thesis
    using worker_loop_silent [OF assms(1-3)] assms(4) by (simp add: WORKER_TICK_S_def DEAD_PEER_S_def)
qed

theorem client_reaps_silent_peer_witness:
  "let w = worker_init (replicate 1100 0); s = \<lparr>rx = [], txs = [], tx_out = []\<rparr> in
   worker_loop LittleEndian demo_env 0 (w, s, demo_ctx) = (Leave, w\<lparr>idle_ticks := 15\<rparr>, s, demo_ctx)"
  using client_reaps_silent_peer [of "\<lparr>rx = [], txs = [], tx_out = []\<rparr>" demo_ctx "worker_init (replicate 1100 0)" LittleEndian demo_env 0]
  by (simp add: Let_def worker_init_def demo_ctx_def)

text \<open>
  C37. The length of a SENSOR payload is not checked. A SENSOR packet with an empty payload (and
  the checksum of nothing) is accepted, and what is recorded is the reading still lying in the
  payload buffer from the packet before, under whatever device id the header carries: the same
  reading is handed to the sink a second time and counted as a good packet.
\<close>

theorem client_empty_sensor_repeats_reading:
  assumes "rx_bytes (rx s) = wire_packet PKT_SENSOR i [] @ rest" and "w_payload w = sensor_bytes x @ old"
    and "length (w_payload w) = PL_MAX_PAYLOAD" and "w_state w = ACTIVE" and "w_dev w = Some d" and "txs s = []"
  shows "\<exists>w' s' c'. worker_iter host env (w, s, c) = (Next, w', s', c') \<and> rx_bytes (rx s') = rest \<and>
    sink_st c' = snd (write_record (ctx_sink c) (reading_record i env x) (sink_st c)) \<and>
    dtable c' = dt_record_sensor d (s_seq x) (s_temperature x) (s_humidity x) (e_time env) (dtable c)"
proof -
  obtain es where es: "rx_bytes es = rest"
    "worker_iter host env (w, s, c) = dispatch host env (wire_header PKT_SENSOR i [])
      (w\<lparr>idle_ticks := 0, w_payload := [] @ drop (length ([]::u8 list)) (w_payload w)\<rparr>, s\<lparr>rx := es\<rparr>, c)"
    by (rule worker_iter_packet [OF assms(1) _ assms(3)]) (simp add: pl_consts, blast)
  let ?w = "w\<lparr>idle_ticks := 0, w_payload := [] @ drop (length ([]::u8 list)) (w_payload w)\<rparr>"
  have "dispatch host env (wire_header PKT_SENSOR i []) (?w, s\<lparr>rx := es\<rparr>, c) =
    (Next, ?w\<lparr>sensor_count := of_nat (Suc (unat (sensor_count w))), strikes := 0\<rparr>,
     s\<lparr>rx := es\<rparr>\<lparr>tx_out := tx_out (s\<lparr>rx := es\<rparr>) @ acks i (unat (sensor_count w)) [x]\<rparr>,
     c\<lparr>dtable := dt_record_sensor d (s_seq x) (s_temperature x) (s_humidity x) (e_time env) (dtable c),
       sink_st := snd (write_record (ctx_sink c) (reading_record i env x) (sink_st c))\<rparr>)"
    by (rule dispatch_sensor) (use assms in \<open>simp_all add: wire_header_def\<close>)
  with es show ?thesis by simp
qed

theorem client_empty_sensor_repeats_reading_witness:
  "let s = \<lparr>rx = [RxData (wire_packet PKT_SENSOR 9 [])], txs = [], tx_out = []\<rparr>;
       w = (worker_init (sensor_bytes (demo_reading 4) @ replicate 1084 0))\<lparr>w_state := ACTIVE, w_dev := Some 0\<rparr> in
   \<exists>w' s' c'. worker_iter LittleEndian (demo_env 0) (w, s, demo_ctx) = (Next, w', s', c') \<and>
     sink_st c' = snd (write_record sink_ring_log (reading_record 9 (demo_env 0) (demo_reading 4)) (sink_st demo_ctx))"
  using client_empty_sensor_repeats_reading [where s = "\<lparr>rx = [RxData (wire_packet PKT_SENSOR 9 [])], txs = [], tx_out = []\<rparr>"
      and i = 9 and rest = "[]" and x = "demo_reading 4" and old = "replicate 1084 0" and d = 0 and c = demo_ctx
      and w = "(worker_init (sensor_bytes (demo_reading 4) @ replicate 1084 0))\<lparr>w_state := ACTIVE, w_dev := Some 0\<rparr>"
      and host = LittleEndian and env = "demo_env 0"]
  by (auto simp: Let_def worker_init_def pl_consts demo_ctx_def)

end
