(* ===== verification/Frame_Session.thy ===== *)
theory Frame_Session
  imports Client_Session
begin

text \<open>
  A connection on which an image frame is sent: the worker of \<^verbatim>\<open>server/client_handler.c\<close> collects the
  chunks, in any order and with repetitions, and when the last one is in writes the image and its
  edges below the frame directory.
\<close>

section \<open>One chunk\<close>

abbreviation chunk_wire :: "u32 \<Rightarrow> u16 \<Rightarrow> u16 \<Rightarrow> u32 \<Rightarrow> u8 list \<Rightarrow> nat \<Rightarrow> u8 list" where
  "chunk_wire i w h fseq px j \<equiv> wire_packet PKT_FRAME i (chunk_payload w h fseq px j)"

abbreviation no_image :: image where
  "no_image \<equiv> \<lparr>img_w = 0, img_h = 0, pix = None\<rparr>"

text \<open>The allocations of the reassembler succeed in a round.\<close>

definition frame_memory :: "wenv \<Rightarrow> nat \<Rightarrow> bool" where
  "frame_memory env n \<longleftrightarrow> e_calloc_seen env \<and> e_calloc_img env \<and>
     (case e_malloc_frame env n of Some blk \<Rightarrow> length blk = n | None \<Rightarrow> False)"

lemma length_chunk_payload_max: "length (chunk_payload w h fseq px j) \<le> PL_MAX_PAYLOAD"
  by (simp add: length_chunk_payload length_chunk_of pl_consts)

text \<open>The state of the worker after a chunk.\<close>

definition after_chunk :: "frame_asm \<Rightarrow> u8 list \<Rightarrow> worker \<Rightarrow> worker" where
  "after_chunk fa p wk = wk\<lparr>idle_ticks := 0, w_payload := p @ drop (length p) (w_payload wk), w_fa := fa, strikes := 0\<rparr>"

lemma after_chunk_simps [simp]:
  "w_state (after_chunk fa p wk) = w_state wk" "w_fa (after_chunk fa p wk) = fa"
  "length p \<le> length (w_payload wk) \<Longrightarrow> length (w_payload (after_chunk fa p wk)) = length (w_payload wk)"
  by (simp_all add: after_chunk_def)

lemma worker_iter_chunk:
  assumes "rx_bytes (rx s) = chunk_wire i w h fseq px j @ rest" and "frame_ok w h px" and "j < nchunks (length px)"
    and "collecting w h fseq px S (w_fa wk)" and "S \<subseteq> {..<nchunks (length px)}" and "frame_memory env (length px)"
    and "w_state wk = ACTIVE" and "length (w_payload wk) = PL_MAX_PAYLOAD"
  obtains es fa where "rx_bytes es = rest" and "rx_stop es = rx_stop (rx s)"
    and "if insert j S = {..<nchunks (length px)} then fa = frame_asm_init else collecting w h fseq px (insert j S) fa"
    and "worker_iter host env (wk, s, c) = (Next, after_chunk fa (chunk_payload w h fseq px j) wk, s\<lparr>rx := es\<rparr>,
      if insert j S = {..<nchunks (length px)}
      then save_frame env i \<lparr>img_w = int (unat w), img_h = int (unat h), pix = Some px\<rparr> c else c)"
proof -
  let ?p = "chunk_payload w h fseq px j"
  obtain es where es: "rx_bytes es = rest" "rx_stop es = rx_stop (rx s)"
    "worker_iter host env (wk, s, c) = dispatch host env (wire_header PKT_FRAME i ?p)
      (wk\<lparr>idle_ticks := 0, w_payload := ?p @ drop (length ?p) (w_payload wk)\<rparr>, s\<lparr>rx := es\<rparr>, c)"
    by (rule worker_iter_packet [OF assms(1) length_chunk_payload_max assms(8), of host env c])
  from assms(6) obtain blk where mem: "e_malloc_frame env (length px) = Some blk" "length blk = length px"
    "e_calloc_seen env" "e_calloc_img env" by (auto simp: frame_memory_def split: option.splits)
  obtain rc fa img where feed: "frame_asm_feed (e_malloc_frame env) True True ?p (of_nat (length ?p)) (w_fa wk, no_image) = (rc, fa, img)"
    by (cases "frame_asm_feed (e_malloc_frame env) True True ?p (of_nat (length ?p)) (w_fa wk, no_image)")
  have res: "if insert j S = {..<nchunks (length px)}
      then rc = 1 \<and> fa = frame_asm_init \<and> img = \<lparr>img_w = int (unat w), img_h = int (unat h), pix = Some px\<rparr>
      else rc = 0 \<and> collecting w h fseq px (insert j S) fa"
    using feed_chunk [where malloc = "e_malloc_frame env", OF assms(2-5) mem(1,2), of no_image] feed by (auto split: if_splits)
  have "frame_asm_feed (e_malloc_frame env) True True (?p @ drop (length ?p) (w_payload wk)) (of_nat (length ?p)) (w_fa wk, no_image) = (rc, fa, img)"
    using feed_trailing [OF assms(2,3)] feed by (simp only: length_chunk_payload)
  then have "worker_iter host env (wk, s, c) = (Next, after_chunk fa ?p wk, s\<lparr>rx := es\<rparr>,
      if insert j S = {..<nchunks (length px)}
      then save_frame env i \<lparr>img_w = int (unat w), img_h = int (unat h), pix = Some px\<rparr> c else c)"
    unfolding es(3) using res mem(3,4) assms(7)
    by (auto simp: dispatch_def on_frame_def after_chunk_def wire_header_def Let_def split: if_splits)
  with es(1,2) res show ?thesis by (intro that [of es fa]) (auto split: if_splits)
qed

section \<open>A frame\<close>

lemma save_frame_same [simp]: "running (save_frame env i img c) = running c"
  by (auto simp: save_frame_def Let_def split: option.split prod.split)

lemma worker_loop_chunks:
  assumes "frame_ok w h px" and "\<forall>k. frame_memory (envs k) (length px)"
  shows "rx_bytes (rx s) = concat (map (chunk_wire i w h fseq px) idxs) @ rest \<Longrightarrow> running c \<Longrightarrow> w_state wk = ACTIVE \<Longrightarrow>
    length (w_payload wk) = PL_MAX_PAYLOAD \<Longrightarrow> collecting w h fseq px S (w_fa wk) \<Longrightarrow> set idxs \<subseteq> {..<nchunks (length px)} \<Longrightarrow>
    S \<subseteq> {..<nchunks (length px)} \<Longrightarrow> S \<union> set idxs \<noteq> {..<nchunks (length px)} \<Longrightarrow>
    \<exists>wk' es. worker_loop host envs k (wk, s, c) = worker_loop host envs (k + length idxs) (wk', s\<lparr>rx := es\<rparr>, c) \<and>
      rx_bytes es = rest \<and> rx_stop es = rx_stop (rx s) \<and> w_state wk' = ACTIVE \<and> length (w_payload wk') = PL_MAX_PAYLOAD \<and>
      collecting w h fseq px (S \<union> set idxs) (w_fa wk')"
proof (induction idxs arbitrary: S wk s k)
  case Nil
  then show ?case by (intro exI [of _ wk] exI [of _ "rx s"]) simp
next
  case (Cons j idxs)
  have more: "insert j S \<noteq> {..<nchunks (length px)}" using Cons.prems(6-8) by auto
  have "rx_bytes (rx s) = chunk_wire i w h fseq px j @ (concat (map (chunk_wire i w h fseq px) idxs) @ rest)" using Cons.prems(1) by simp
  then obtain es fa where es: "rx_bytes es = concat (map (chunk_wire i w h fseq px) idxs) @ rest" "rx_stop es = rx_stop (rx s)"
    and fa: "collecting w h fseq px (insert j S) fa"
    and it: "worker_iter host (envs k) (wk, s, c) = (Next, after_chunk fa (chunk_payload w h fseq px j) wk, s\<lparr>rx := es\<rparr>, c)"
    by (rule worker_iter_chunk [OF _ assms(1) _ Cons.prems(5,7), where env = "envs k" and host = host and c = c])
      (use Cons.prems assms(2) more in \<open>simp_all\<close>)
  let ?wk = "after_chunk fa (chunk_payload w h fseq px j) wk"
  have "\<exists>wk' es'. worker_loop host envs (Suc k) (?wk, s\<lparr>rx := es\<rparr>, c) = worker_loop host envs (Suc k + length idxs) (wk', s\<lparr>rx := es\<rparr>\<lparr>rx := es'\<rparr>, c) \<and>
      rx_bytes es' = rest \<and> rx_stop es' = rx_stop (rx (s\<lparr>rx := es\<rparr>)) \<and> w_state wk' = ACTIVE \<and> length (w_payload wk') = PL_MAX_PAYLOAD \<and>
      collecting w h fseq px (insert j S \<union> set idxs) (w_fa wk')"
    by (rule Cons.IH) (use Cons.prems es fa length_chunk_payload_max [of w h fseq px j] in auto)
  moreover have "worker_loop host envs k (wk, s, c) = worker_loop host envs (Suc k) (?wk, s\<lparr>rx := es\<rparr>, c)"
    using Cons.prems(2,3) by (simp add: worker_loop.simps [of host envs k] it)
  ultimately show ?case using es(2) by auto
qed

lemma worker_loop_frame:
  assumes "frame_ok w h px" and "\<forall>k. frame_memory (envs k) (length px)"
    and "rx_bytes (rx s) = concat (map (chunk_wire i w h fseq px) (idxs @ [j])) @ rest"
    and "j \<notin> set idxs" and "insert j (set idxs) = {..<nchunks (length px)}" and "running c"
    and "w_state wk = ACTIVE" and "length (w_payload wk) = PL_MAX_PAYLOAD" and "\<not> fa_active (w_fa wk)"
  shows "\<exists>wk' es. worker_loop host envs k (wk, s, c) = worker_loop host envs (k + length idxs + 1) (wk', s\<lparr>rx := es\<rparr>,
      save_frame (envs (k + length idxs)) i \<lparr>img_w = int (unat w), img_h = int (unat h), pix = Some px\<rparr> c) \<and>
    rx_bytes es = rest \<and> rx_stop es = rx_stop (rx s) \<and> w_state wk' = ACTIVE \<and> length (w_payload wk') = PL_MAX_PAYLOAD \<and>
    w_fa wk' = frame_asm_init"
proof -
  have sub: "set idxs \<subseteq> {..<nchunks (length px)}" "j < nchunks (length px)" using assms(5) by auto
  have "rx_bytes (rx s) = concat (map (chunk_wire i w h fseq px) idxs) @ (chunk_wire i w h fseq px j @ rest)" using assms(3) by simp
  moreover have "collecting w h fseq px {} (w_fa wk)" using assms(9) by (simp add: collecting_def)
  moreover have "{} \<union> set idxs \<noteq> {..<nchunks (length px)}" using assms(4) sub(2) by auto
  ultimately obtain wk1 es1 where loop: "worker_loop host envs k (wk, s, c) = worker_loop host envs (k + length idxs) (wk1, s\<lparr>rx := es1\<rparr>, c)"
    and es1: "rx_bytes es1 = chunk_wire i w h fseq px j @ rest" "rx_stop es1 = rx_stop (rx s)"
    and wk1: "w_state wk1 = ACTIVE" "length (w_payload wk1) = PL_MAX_PAYLOAD" "collecting w h fseq px (set idxs) (w_fa wk1)"
    using worker_loop_chunks [where envs = envs, OF assms(1,2) _ assms(6-8) _ sub(1), of s i fseq "chunk_wire i w h fseq px j @ rest" "{}" host k] by auto
  have "rx_bytes (rx (s\<lparr>rx := es1\<rparr>)) = chunk_wire i w h fseq px j @ rest" by (simp add: es1)
  then obtain es fa where es: "rx_bytes es = rest" "rx_stop es = rx_stop (rx s)" and fa: "fa = frame_asm_init"
    and it: "worker_iter host (envs (k + length idxs)) (wk1, s\<lparr>rx := es1\<rparr>, c) =
      (Next, after_chunk fa (chunk_payload w h fseq px j) wk1, s\<lparr>rx := es\<rparr>,
       save_frame (envs (k + length idxs)) i \<lparr>img_w = int (unat w), img_h = int (unat h), pix = Some px\<rparr> c)"
    by (rule worker_iter_chunk [OF _ assms(1) sub(2) wk1(3) sub(1), where env = "envs (k + length idxs)" and host = host and c = c])
      (use assms(2,5) wk1 es1 in \<open>simp_all\<close>)
  have "worker_loop host envs (k + length idxs) (wk1, s\<lparr>rx := es1\<rparr>, c) = worker_loop host envs (Suc (k + length idxs))
      (after_chunk fa (chunk_payload w h fseq px j) wk1, s\<lparr>rx := es\<rparr>,
       save_frame (envs (k + length idxs)) i \<lparr>img_w = int (unat w), img_h = int (unat h), pix = Some px\<rparr> c)"
    using assms(6) wk1(1) by (simp add: worker_loop.simps [of host envs "k + length idxs"] it)
  with loop es fa wk1 length_chunk_payload_max [of w h fseq px j] show ?thesis
    by (intro exI [of _ "after_chunk fa (chunk_payload w h fseq px j) wk1"] exI [of _ es]) simp
qed

section \<open>Storing it\<close>

lemma image_ok_sobel_blank:
  assumes "image_ok img" and "image_alloc True no_image (img_w img) (img_h img) = (rc, blank)"
  shows "rc = 0 \<and> image_ok blank \<and> image_ok (snd (sobel img blank))"
proof -
  have "rc = 0 \<and> image_ok blank \<and> img_w blank = img_w img \<and> img_h blank = img_h img"
    using assms by (auto simp: image_alloc_def image_ok_def image_size_def Let_def)
  then show ?thesis using assms(1) by (auto simp: sobel_def image_ok_def image_size_def)
qed

text \<open>The disk can take the two files in a round.\<close>

definition frame_disk :: "wenv \<Rightarrow> image \<Rightarrow> bool" where
  "frame_disk env img \<longleftrightarrow> e_calloc_edges env \<and>
     (\<exists>disk buf. e_fopen_in env = Some (disk, buf) \<and> length (bmp_bytes img) \<le> disk) \<and>
     (\<exists>disk buf. e_fopen_edges env = Some (disk, buf) \<and> length (bmp_bytes img) \<le> disk)"

lemma bmp_bytes_same_size:
  assumes "image_ok a" and "image_ok b" and "img_w a = img_w b" and "img_h a = img_h b"
  shows "length (bmp_bytes a) = length (bmp_bytes b)"
  using length_bmp_bytes [OF assms(1)] length_bmp_bytes [OF assms(2)] assms(3,4) by simp

lemma save_frame_files:
  assumes "image_ok img" and "frame_disk env img" and "frame_dir c = Some dir"
    and "blank = snd (image_alloc True no_image (img_w img) (img_h img))"
  shows "save_frame env i img c = c\<lparr>files := (files c)(frame_path dir i ''_in.bmp'' \<mapsto> bmp_bytes img,
    frame_path dir i ''_edges.bmp'' \<mapsto> bmp_bytes (snd (sobel img blank)))\<rparr>"
proof -
  obtain rc where alloc: "image_alloc True no_image (img_w img) (img_h img) = (rc, blank)"
    by (cases "image_alloc True no_image (img_w img) (img_h img)") (simp add: assms(4))
  note ok = image_ok_sobel_blank [OF assms(1) alloc]
  have "img_w (snd (sobel img blank)) = img_w img" "img_h (snd (sobel img blank)) = img_h img"
    using alloc ok by (auto simp: sobel_def image_alloc_def Let_def split: if_splits option.splits)
  with ok have len: "length (bmp_bytes (snd (sobel img blank))) = length (bmp_bytes img)"
    by (intro bmp_bytes_same_size) (use assms(1) in simp_all)
  from assms(2) obtain d1 b1 d2 b2 where open1: "e_fopen_in env = Some (d1, b1)" "length (bmp_bytes img) \<le> d1"
    and open2: "e_fopen_edges env = Some (d2, b2)" "length (bmp_bytes img) \<le> d2" and "e_calloc_edges env"
    by (auto simp: frame_disk_def)
  then show ?thesis
    using ok alloc assms(3) bmp_write_file [OF assms(1), of d1 b1] bmp_write_file [of "snd (sobel img blank)" d2 b2] len
    by (simp add: save_frame_def put_file_def)
qed

lemma frame_ok_image:
  assumes "frame_ok w h px"
  shows "image_ok \<lparr>img_w = int (unat w), img_h = int (unat h), pix = Some px\<rparr>"
proof -
  have "0 < unat w" "0 < unat h" "unat w * unat h \<le> 4194304" "length px = unat w * unat h"
    using assms by (auto simp: frame_ok_def unat_gt_0)
  moreover from this(3) have "int (unat w) * int (unat h) \<le> 4194304" by (simp only: flip: of_nat_mult)
  moreover from \<open>0 < unat w\<close> \<open>0 < unat h\<close> have "0 < int (unat w)" "0 < int (unat h)" by (simp_all only: of_nat_0_less_iff)
  ultimately show ?thesis by (simp only: image_ok_def image_size_def IMAGE_MAX_PIXELS_def image.select_convs) simp
qed

lemma frame_session_run:
  assumes "rx_bytes (rx s) = wire_packet PKT_HELLO i hello @ concat (map (\<lambda>n. wire_packet PKT_FRAME i (chunk_payload w h fseq px n)) (idxs @ [j]))"
    and "length hello \<le> PL_MAX_PAYLOAD" and "fst (rx_stop (rx s)) = Closed" and "txs s = []"
    and "running c" and "length payload0 = PL_MAX_PAYLOAD" and "frame_ok w h px"
    and "j \<notin> set idxs" and "insert j (set idxs) = {..<nchunks (length px)}"
    and "img = \<lparr>img_w = int (unat w), img_h = int (unat h), pix = Some px\<rparr>"
    and "blank = snd (image_alloc True \<lparr>img_w = 0, img_h = 0, pix = None\<rparr> (img_w img) (img_h img))"
    and "\<forall>k. frame_memory (envs k) (length px) \<and> frame_disk (envs k) img" and "frame_dir c = Some dir"
  shows "\<exists>wk' s' c'. client_worker host envs payload0 fd (s, c) = (Leave, wk', s', c') \<and>
    files c' = (files c)(frame_path dir i ''_in.bmp'' \<mapsto> bmp_bytes img,
      frame_path dir i ''_edges.bmp'' \<mapsto> bmp_bytes (snd (sobel img blank))) \<and>
    tx_out s' = tx_out s @ wire_packet PKT_HELLO_ACK i (mem_u32 BigEndian (next_session c)) \<and>
    sink_st c' = sink_st c \<and> open_fds c' = open_fds c - {fd} \<and> client_slots c' = client_slots c + 1 \<and>
    active_workers c' = active_workers c"
proof -
  obtain d t where g: "dt_get_or_create (e_calloc_dev (envs 0)) (e_time (envs 0)) i (next_session c) (dtable c) = (d, t)"
    by (cases "dt_get_or_create (e_calloc_dev (envs 0)) (e_time (envs 0)) i (next_session c) (dtable c)")
  let ?s = "\<lambda>es. s\<lparr>rx := es, tx_out := tx_out s @ wire_packet PKT_HELLO_ACK i (mem_u32 BigEndian (next_session c))\<rparr>"
  define c1 where "c1 = (worker_enter c)\<lparr>next_session := next_session c + 1, dtable := t\<rparr>"
  obtain wk1 es where hello: "worker_loop host envs 0 (worker_init payload0, s, worker_enter c) = worker_loop host envs 1 (wk1, ?s es, c1)"
    and es: "rx_bytes es = concat (map (chunk_wire i w h fseq px) (idxs @ [j]))" "rx_stop es = rx_stop (rx s)"
    and wk1: "w_state wk1 = ACTIVE" "length (w_payload wk1) = PL_MAX_PAYLOAD" "w_fa wk1 = frame_asm_init"
    unfolding c1_def by (rule worker_loop_hello [where envs = envs and host = host, OF assms(1,2,4-6) g])
  have c1: "running c1" "frame_dir c1 = Some dir" "files c1 = files c" using assms(5,13) by (simp_all add: c1_def worker_enter_def)
  define c2 where "c2 = save_frame (envs (1 + length idxs)) i img c1"
  have "rx_bytes (rx (?s es)) = concat (map (chunk_wire i w h fseq px) (idxs @ [j])) @ []" by (simp add: es)
  from worker_loop_frame [where envs = envs and k = 1 and host = host, OF assms(7) _ this assms(8,9) c1(1) wk1(1,2)]
  obtain wk2 es2 where frame: "worker_loop host envs 1 (wk1, ?s es, c1) = worker_loop host envs (1 + length idxs + 1) (wk2, (?s es)\<lparr>rx := es2\<rparr>, c2)"
    and es2: "rx_bytes es2 = []" "rx_stop es2 = rx_stop (rx s)" and wk2: "w_state wk2 = ACTIVE"
    using assms(10,12) es(2) wk1(3) unfolding c2_def by (auto simp: frame_asm_init_def)
  have "running c2" using c1(1) by (simp add: c2_def)
  then obtain s' where stop: "worker_loop host envs (1 + length idxs + 1) (wk2, (?s es)\<lparr>rx := es2\<rparr>, c2) = (Leave, wk2, s', c2)"
    and tx: "tx_out s' = tx_out (?s es)"
    using worker_loop_eof [of "(?s es)\<lparr>rx := es2\<rparr>" c2 wk2 host envs "1 + length idxs + 1"] es2 assms(3) wk2 by auto
  have run: "client_worker host envs payload0 fd (s, c) = (Leave, wk2\<lparr>w_fa := frame_asm_reset (w_fa wk2)\<rparr>, s', worker_exit fd c2)"
    by (simp add: client_worker_def hello frame [simplified] stop [simplified])
  have "image_ok img" using frame_ok_image [OF assms(7)] by (simp add: assms(10))
  then have "c2 = c1\<lparr>files := (files c)(frame_path dir i ''_in.bmp'' \<mapsto> bmp_bytes img,
      frame_path dir i ''_edges.bmp'' \<mapsto> bmp_bytes (snd (sobel img blank)))\<rparr>"
    unfolding c2_def using save_frame_files [OF _ _ c1(2) assms(11)] assms(12) c1(3) by simp
  with run tx show ?thesis by (simp add: worker_exit_def c1_def worker_enter_def)
qed

section \<open>Properties\<close>

text \<open>
  C11. A frame from the wire to the disk. A device says HELLO and sends the chunks of an image, in
  any order, some of them several times, the stream cut into segments in any way. If memory and
  disk suffice, the worker leaves below the frame directory the complete BMP file of the image and
  the one of its Sobel edges, and changes no other file; it answers with nothing but the HELLO_ACK,
  and gives back its descriptor and its slot.
\<close>

theorem frame_session:
  assumes "rx_bytes (rx s) = wire_packet PKT_HELLO i hello @ concat (map (\<lambda>n. wire_packet PKT_FRAME i (chunk_payload w h fseq px n)) (idxs @ [j]))"
    and "length hello \<le> PL_MAX_PAYLOAD" and "fst (rx_stop (rx s)) = Closed" and "txs s = []"
    and "running c" and "length payload0 = PL_MAX_PAYLOAD" and "frame_ok w h px"
    and "j \<notin> set idxs" and "insert j (set idxs) = {..<nchunks (length px)}"
    and "img = \<lparr>img_w = int (unat w), img_h = int (unat h), pix = Some px\<rparr>"
    and "blank = snd (image_alloc True \<lparr>img_w = 0, img_h = 0, pix = None\<rparr> (img_w img) (img_h img))"
    and "\<forall>k. frame_memory (envs k) (length px) \<and> frame_disk (envs k) img" and "frame_dir c = Some dir"
  shows "\<exists>wk' s' c'. client_worker host envs payload0 fd (s, c) = (Leave, wk', s', c') \<and>
    files c' = (files c)(frame_path dir i ''_in.bmp'' \<mapsto> bmp_bytes img,
      frame_path dir i ''_edges.bmp'' \<mapsto> bmp_bytes (snd (sobel img blank))) \<and>
    tx_out s' = tx_out s @ wire_packet PKT_HELLO_ACK i (mem_u32 BigEndian (next_session c)) \<and>
    sink_st c' = sink_st c \<and> open_fds c' = open_fds c - {fd} \<and> client_slots c' = client_slots c + 1 \<and>
    active_workers c' = active_workers c"
  using assms by (rule frame_session_run)

text \<open>An image of 50 by 41 pixels in three chunks, the second repeated.\<close>

definition frame_env :: "nat \<Rightarrow> wenv" where
  "frame_env k = \<lparr>e_time = 1000, e_clock = (1000, 0), e_calloc_dev = True, e_malloc_frame = (\<lambda>n. Some (replicate n 0)),
     e_calloc_seen = True, e_calloc_img = True, e_calloc_edges = True, e_fopen_in = Some (8192, 4096), e_fopen_edges = Some (8192, 4096)\<rparr>"

theorem frame_session_witness:
  "let px = replicate 2050 (7::u8); img = \<lparr>img_w = 50, img_h = 41, pix = Some px\<rparr>;
       s = \<lparr>rx = [RxData (wire_packet PKT_HELLO 9 []), RxData (concat (map (\<lambda>n. wire_packet PKT_FRAME 9 (chunk_payload 50 41 1 px n)) [2, 1, 1, 0])), RxEof],
            txs = [], tx_out = []\<rparr>
   in \<exists>wk' s' c'. client_worker LittleEndian frame_env (replicate 1100 0) 5 (s, demo_ctx\<lparr>frame_dir := Some ''/f''\<rparr>) = (Leave, wk', s', c') \<and>
     files c' (frame_path ''/f'' 9 ''_in.bmp'') \<noteq> None"
proof -
  let ?px = "replicate 2050 (7::u8)" and ?img = "\<lparr>img_w = 50, img_h = 41, pix = Some (replicate 2050 (7::u8))\<rparr>"
  let ?s = "\<lparr>rx = [RxData (wire_packet PKT_HELLO 9 []), RxData (concat (map (\<lambda>n. wire_packet PKT_FRAME 9 (chunk_payload 50 41 1 ?px n)) [2, 1, 1, 0])), RxEof],
     txs = [], tx_out = []\<rparr> :: sock"
  have ok: "frame_ok 50 41 ?px" by (simp add: frame_ok_def)
  have "length (bmp_bytes ?img) \<le> 8192"
    using length_bmp_bytes [of ?img] by (simp add: image_ok_def image_size_def IMAGE_MAX_PIXELS_def)
  then have env: "\<forall>k. frame_memory (frame_env k) (length ?px) \<and> frame_disk (frame_env k) ?img"
    by (simp add: frame_memory_def frame_disk_def frame_env_def)
  have all: "insert 0 (set [2, 1, 1]) = {..<nchunks (length ?px)}" by (auto simp: nchunks_def)
  from frame_session [where s = ?s and idxs = "[2, 1, 1]" and j = 0 and w = 50 and h = 41 and px = ?px and i = 9 and hello = "[]" and fseq = 1
      and envs = frame_env and ?payload0.0 = "replicate 1100 0" and c = "demo_ctx\<lparr>frame_dir := Some ''/f''\<rparr>" and img = ?img
      and dir = "''/f''" and host = LittleEndian and fd = 5, OF _ _ _ _ _ _ ok _ all _ refl env]
  show ?thesis by (auto simp: Let_def demo_ctx_def pl_consts)
qed

end
