(* ===== verification/Parse_Num.thy ===== *)
theory Parse_Num
  imports Printf
begin

text \<open>
  The options \<^verbatim>\<open>getopt\<close> delivers, and \<^verbatim>\<open>atoi\<close> and \<^verbatim>\<open>strtoul(.., 0)\<close>, with which \<^verbatim>\<open>server/main.c\<close> and \<^verbatim>\<open>tools/fake_client.c\<close> read their options. These read back
  what \<^verbatim>\<open>printf\<close> prints: a number in decimal, a device id in hexadecimal.
\<close>

section \<open>The functions\<close>

text \<open>An option: its letter and its argument, empty for an option that takes none. \<^verbatim>\<open>getopt\<close> delivers
  the letter \<^verbatim>\<open>?\<close> for an option it does not know or whose argument is missing.\<close>

datatype opt = Opt char string

definition isspace :: "char \<Rightarrow> bool" where
  "isspace x = (let n = of_char x :: nat in n = 32 \<or> 9 \<le> n \<and> n \<le> 13)"

text \<open>The value of a digit; 16 stands for no digit at all.\<close>

definition scan_digit :: "char \<Rightarrow> nat" where
  "scan_digit x =
     (let n = of_char x :: nat in
      if 48 \<le> n \<and> n \<le> 57 then n - 48
      else if 65 \<le> n \<and> n \<le> 70 then n - 55
      else if 97 \<le> n \<and> n \<le> 102 then n - 87
      else 16)"

fun scan_num :: "nat \<Rightarrow> nat \<Rightarrow> string \<Rightarrow> nat" where
  "scan_num b a [] = a"
| "scan_num b a (x # xs) = (if scan_digit x < b then scan_num b (b * a + scan_digit x) xs else a)"

text \<open>A value that is not an \<^verbatim>\<open>int\<close> is undefined behaviour of \<^verbatim>\<open>atoi\<close>; here it is the number itself.\<close>

definition atoi :: "string \<Rightarrow> int" where
  "atoi str =
     (case dropWhile isspace str of
        x # xs \<Rightarrow>
          if x = CHR ''-'' then - int (scan_num 10 0 xs)
          else if x = CHR ''+'' then int (scan_num 10 0 xs)
          else int (scan_num 10 0 (x # xs))
      | [] \<Rightarrow> 0)"

text \<open>\<^verbatim>\<open>strtoul\<close> with base 0: the prefix decides the base. Values beyond 64 bits saturate.\<close>

definition scan_prefixed :: "string \<Rightarrow> nat" where
  "scan_prefixed str =
     (case str of
        x # y # z # rest \<Rightarrow>
          if x = CHR ''0'' \<and> (y = CHR ''x'' \<or> y = CHR ''X'') \<and> scan_digit z < 16 then scan_num 16 0 (z # rest)
          else if x = CHR ''0'' then scan_num 8 0 str else scan_num 10 0 str
      | x # rest \<Rightarrow> if x = CHR ''0'' then scan_num 8 0 str else scan_num 10 0 str
      | [] \<Rightarrow> 0)"

definition strtoul :: "string \<Rightarrow> u64" where
  "strtoul str =
     (let body = dropWhile isspace str;
          neg = (case body of x # _ \<Rightarrow> x = CHR ''-'' | [] \<Rightarrow> False);
          digits = (case body of x # xs \<Rightarrow> if x = CHR ''-'' \<or> x = CHR ''+'' then xs else body | [] \<Rightarrow> []);
          v = scan_prefixed digits
      in if v \<ge> 2 ^ 64 then - 1 else if neg then - of_nat v else of_nat v)"

section \<open>Reading what was printed\<close>

lemma scan_digit_char: "d < 16 \<Longrightarrow> scan_digit (digit_char d) = d"
  by (auto simp: scan_digit_def digit_char_def)

lemma scan_num_append: "\<forall>x \<in> set xs. scan_digit x < b \<Longrightarrow> scan_num b a (xs @ ys) = scan_num b (scan_num b a xs) ys"
  by (induction xs arbitrary: a) simp_all

lemma base_str_scan: "2 \<le> b \<Longrightarrow> b \<le> 16 \<Longrightarrow> x \<in> set (base_str b n) \<Longrightarrow> scan_digit x < b"
  using base_str_digits [of b n] by (auto simp: scan_digit_char)

lemma scan_num_str: "2 \<le> b \<Longrightarrow> b \<le> 16 \<Longrightarrow> scan_num b 0 (base_str b n) = n"
proof (induction b n rule: base_str.induct)
  case (1 b n)
  show ?case
  proof (cases "n < b")
    case True
    with 1 show ?thesis by (simp add: base_str.simps [of b n] scan_digit_char)
  next
    case False
    then have eq: "base_str b n = base_str b (n div b) @ [digit_char (n mod b)]" using 1 by (simp add: base_str.simps [of b n])
    have "n mod b < b" using 1 by simp
    moreover from this have "n mod b < 16" using 1 by linarith
    ultimately have "scan_digit (digit_char (n mod b)) = n mod b" and "n mod b < b" by (simp_all add: scan_digit_char)
    with False 1 \<open>n mod b < b\<close> show ?thesis
      unfolding eq by (subst scan_num_append) (auto intro: base_str_scan)
  qed
qed

lemma scan_num_zeros: "2 \<le> b \<Longrightarrow> scan_num b 0 (replicate k CHR ''0'' @ xs) = scan_num b 0 xs"
  by (induction k) (simp_all add: scan_digit_def)

lemma digit_not_sign: "d < 10 \<Longrightarrow> digit_char d \<noteq> CHR ''-'' \<and> digit_char d \<noteq> CHR ''+'' \<and> \<not> isspace (digit_char d)"
proof -
  assume "d < 10"
  then have "of_char (digit_char d) = 48 + d" by (simp add: digit_char_def)
  then show ?thesis by (auto simp: isspace_def dest!: arg_cong [of _ _ "of_char :: char \<Rightarrow> nat"])
qed

lemma atoi_dec: "atoi (base_str 10 n) = int n"
proof -
  obtain x xs where x: "base_str 10 n = x # xs" by (cases "base_str 10 n") simp_all
  then obtain d where "x = digit_char d" "d < 10" using base_str_digits [of 10 n] by auto
  with digit_not_sign [of d] x scan_num_str [of 10 n] show ?thesis by (auto simp: atoi_def)
qed

lemma atoi_fmt_d: "atoi (fmt_d i) = i"
  by (auto simp: fmt_d_def atoi_dec) (simp add: atoi_def isspace_def scan_num_str)

text \<open>A device id, printed with \<^verbatim>\<open>0x%08X\<close> and read with \<^verbatim>\<open>strtoul(.., 0)\<close>.\<close>

lemma strtoul_hex: "(ucast (strtoul (''0x'' @ fmt_08X v)) :: u32) = v"
proof -
  obtain z zs where z: "fmt_08X v = z # zs" by (cases "fmt_08X v") (simp_all add: fmt_08X_def pad_left_def)
  have "x \<in> set (fmt_08X v) \<Longrightarrow> scan_digit x < 16" for x
    using base_str_scan [of 16 x "unat v"] by (auto simp: fmt_08X_def pad_left_def scan_digit_def [of "CHR ''0''"])
  then have "scan_digit z < 16" by (simp add: z)
  then have "scan_prefixed (''0x'' @ fmt_08X v) = scan_num 16 0 (fmt_08X v)" by (simp add: scan_prefixed_def z)
  also have "\<dots> = unat v" by (simp add: fmt_08X_def pad_left_def scan_num_zeros scan_num_str)
  finally have "strtoul (''0x'' @ fmt_08X v) = of_nat (unat v)"
    using unat_u32_less [of v] by (simp add: strtoul_def isspace_def Let_def)
  then show ?thesis using unat_u32_less [of v] by (simp add: word_unat_eq_iff unat_bytes)
qed

end
