(* ===== verification/Server.thy ===== *)
theory Server
  imports Client_Session Parse_Num
begin

text \<open>
  The other threads of the server: \<^verbatim>\<open>server/tcp_listener.c\<close>, \<^verbatim>\<open>server/udp_listener.c\<close>,
  \<^verbatim>\<open>server/reaper.c\<close> and \<^verbatim>\<open>server/main.c\<close> (options, choice of the sink, signal handlers, shutdown).
  One round of each loop is a function on the shared state; what the system calls of the round
  return is its argument. The threads together are the step relation \<open>server_step\<close>, in which
  one round of one thread is one step; the finer interleaving inside the device table is the
  subject of \<open>Device_Table_Conc\<close>.
\<close>

section \<open>TCP listener\<close>

text \<open>The results of \<^verbatim>\<open>socket\<close> (a descriptor), \<^verbatim>\<open>setsockopt\<close>, \<^verbatim>\<open>bind\<close> and \<^verbatim>\<open>listen\<close>; the second
  component of the result is whether a descriptor was opened and not closed again.\<close>

definition make_listen_socket :: "int \<Rightarrow> int \<Rightarrow> int \<Rightarrow> int \<Rightarrow> int \<times> bool" where
  "make_listen_socket fd sso bnd lsn =
     (if fd < 0 then (-1, False)
      else if sso < 0 then (-1, False)
      else if bnd < 0 then (-1, False)
      else if lsn < 0 then (-1, False)
      else (fd, True))"

text \<open>Before the loop: \<open>None\<close> when the thread returns.\<close>

definition tcp_listener_start :: "int \<times> bool \<Rightarrow> 's server_ctx \<Rightarrow> bool \<times> 's server_ctx" where
  "tcp_listener_start res c =
     (let c1 = c\<lparr>listen_fd := fst res\<rparr> in
      if listen_fd c1 < 0 then (False, c1\<lparr>running := False\<rparr>) else (True, c1))"

text \<open>What the calls of one round return: the events of \<^verbatim>\<open>poll\<close> on the socket and on the pipe.\<close>

record accept_env =
  a_poll :: "errno + bool \<times> bool"
  a_accept :: "errno + int"
  a_malloc :: bool
  a_pthread :: bool

text \<open>A round; the last component is the descriptor handed to a new worker thread.\<close>

definition tcp_listener_iter :: "accept_env \<Rightarrow> 's server_ctx \<Rightarrow> outcome \<times> 's server_ctx \<times> int option" where
  "tcp_listener_iter env c =
     (case a_poll env of
        Inl e \<Rightarrow> if e = EINTR then (Next, c, None) else (Leave, c, None)
      | Inr (on_socket, on_pipe) \<Rightarrow>
          if on_pipe then (Leave, c, None)
          else if \<not> on_socket then (Next, c, None)
          else (case a_accept env of
                  Inl e \<Rightarrow> (Next, c, None)
                | Inr cfd \<Rightarrow>
                    let c1 = c\<lparr>open_fds := open_fds c \<union> {cfd}\<rparr> in
                    if client_slots c1 = 0 then (Next, c1\<lparr>open_fds := open_fds c1 - {cfd}\<rparr>, None)
                    else let c2 = c1\<lparr>client_slots := client_slots c1 - 1\<rparr> in
                      if \<not> a_malloc env then
                        (Next, c2\<lparr>client_slots := client_slots c2 + 1, open_fds := open_fds c2 - {cfd}\<rparr>, None)
                      else if \<not> a_pthread env then
                        (Next, c2\<lparr>client_slots := client_slots c2 + 1, open_fds := open_fds c2 - {cfd}\<rparr>, None)
                      else (Next, c2, Some cfd)))"

definition tcp_listener_stop :: "'s server_ctx \<Rightarrow> 's server_ctx" where
  "tcp_listener_stop c = c\<lparr>listen_fd := -1\<rparr>"

section \<open>UDP listener\<close>

text \<open>
  The checks on a received datagram of at most 1112 bytes: the device of a heartbeat, or \<open>None\<close>
  for the branches that go on with the next datagram.
\<close>

definition udp_heartbeat :: "endian \<Rightarrow> u8 list \<Rightarrow> u32 option" where
  "udp_heartbeat host buf =
     (let n = length buf in
      if n < PL_HDR_SIZE then None
      else let h = pl_parse_header host buf in
        if h_magic h \<noteq> PL_MAGIC \<or> h_version h \<noteq> PL_VERSION then None
        else if n < PL_HDR_SIZE + unat (h_payload_len h) then None
        else if pl_checksum (drop PL_HDR_SIZE buf) (unat (h_payload_len h)) \<noteq> h_checksum h then None
        else if h_type h \<noteq> pkt_code PKT_HEARTBEAT then None
        else Some (h_device_id h))"

text \<open>A round: \<^verbatim>\<open>recvfrom\<close> fails, or cuts a datagram to the buffer.\<close>

definition udp_listener_iter :: "endian \<Rightarrow> bool \<Rightarrow> int \<Rightarrow> int \<Rightarrow> errno + u8 list \<Rightarrow> 's server_ctx \<Rightarrow> 's server_ctx" where
  "udp_listener_iter host calloc_ok clock now received c =
     (case received of
        Inl e \<Rightarrow> c
      | Inr dgram \<Rightarrow>
          (case udp_heartbeat host (take (PL_HDR_SIZE + PL_MAX_PAYLOAD) dgram) of
             None \<Rightarrow> c
           | Some i \<Rightarrow> c\<lparr>dtable := dt_touch calloc_ok clock i now (dtable c)\<rparr>))"

section \<open>Reaper\<close>

definition HEARTBEAT_TIMEOUT_S :: int where "HEARTBEAT_TIMEOUT_S = 15"
definition SWEEP_PERIOD_TICKS :: nat where "SWEEP_PERIOD_TICKS = 10"

text \<open>One tick, after the sleep: the tick counter, the shared state and the text dumped to stderr.\<close>

definition reaper_tick :: "int \<Rightarrow> nat \<times> 's server_ctx \<Rightarrow> nat \<times> 's server_ctx \<times> string" where
  "reaper_tick now tc =
     (case tc of (ticks, c) \<Rightarrow>
      let c1 = c\<lparr>dump_requested := False\<rparr>;
          out = (if dump_requested c then
                   dt_dump (dtable c) @ (case sink_dump (ctx_sink c) of Some f \<Rightarrow> f (sink_st c) | None \<Rightarrow> [])
                 else [])
      in if ticks + 1 \<ge> SWEEP_PERIOD_TICKS
         then (0, c1\<lparr>dtable := dt_sweep_offline now HEARTBEAT_TIMEOUT_S (dtable c1)\<rparr>, out)
         else (ticks + 1, c1, out))"

section \<open>Main\<close>

definition on_stop :: "'s server_ctx \<Rightarrow> 's server_ctx" where
  "on_stop c = c\<lparr>running := False, pipe_bytes := pipe_bytes c + 1\<rparr>"

definition on_dump :: "'s server_ctx \<Rightarrow> 's server_ctx" where
  "on_dump c = c\<lparr>dump_requested := True\<rparr>"

text \<open>What the options set.\<close>

datatype sink_choice = MemSink | DevSink

record options =
  o_cfg :: server_config
  o_sink :: sink_choice
  o_frame_dir :: "string option"
  o_deadline :: int

definition default_options :: options where
  "default_options = \<lparr>o_cfg = \<lparr>tcp_port = 9000, udp_port = 9001, max_clients = 16\<rparr>, o_sink = MemSink,
     o_frame_dir = None, o_deadline = 0\<rparr>"

fun parse_options :: "opt list \<Rightarrow> options \<Rightarrow> int + options" where
  "parse_options [] os = (if tcp_port (o_cfg os) = 0 \<or> max_clients (o_cfg os) \<le> 0 then Inl 2 else Inr os)"
| "parse_options (Opt x arg # rest) os =
     (if x = CHR ''p'' then parse_options rest (os\<lparr>o_cfg := (o_cfg os)\<lparr>tcp_port := of_int (atoi arg)\<rparr>\<rparr>)
      else if x = CHR ''u'' then parse_options rest (os\<lparr>o_cfg := (o_cfg os)\<lparr>udp_port := of_int (atoi arg)\<rparr>\<rparr>)
      else if x = CHR ''n'' then parse_options rest (os\<lparr>o_cfg := (o_cfg os)\<lparr>max_clients := atoi arg\<rparr>\<rparr>)
      else if x = CHR ''T'' then parse_options rest (os\<lparr>o_deadline := atoi arg\<rparr>)
      else if x = CHR ''s'' then
        (if arg = ''mem'' then parse_options rest (os\<lparr>o_sink := MemSink\<rparr>)
         else if arg = ''dev'' then parse_options rest (os\<lparr>o_sink := DevSink\<rparr>)
         else Inl 2)
      else if x = CHR ''F'' then parse_options rest (os\<lparr>o_frame_dir := Some arg\<rparr>)
      else if x = CHR ''h'' then Inl 0
      else Inl 2)"

text \<open>Opening the sink, with the fallback to memory; the arguments are the results of the two \<^verbatim>\<open>open\<close> calls.\<close>

definition choose_sink :: "int \<Rightarrow> int \<Rightarrow> sink_choice \<Rightarrow> int + sink_choice" where
  "choose_sink mem_rc dev_rc choice =
     (case choice of
        MemSink \<Rightarrow> if mem_rc \<noteq> 0 then Inl 1 else Inr MemSink
      | DevSink \<Rightarrow> if dev_rc \<noteq> 0 then (if mem_rc \<noteq> 0 then Inl 1 else Inr MemSink) else Inr DevSink)"

text \<open>The shared state when the threads are started.\<close>

definition server_init :: "options \<Rightarrow> 's sink \<Rightarrow> 's \<Rightarrow> 's server_ctx" where
  "server_init os sk sk_st =
     \<lparr>cfg = o_cfg os, running = True, dump_requested = False, active_workers = 0,
      client_slots = nat (max_clients (o_cfg os)), listen_fd = -1, pipe_bytes = 0,
      dtable = dt_init \<lparr>devices = [], buckets = [], device_count = 0\<rparr>, ctx_sink = sk, sink_st = sk_st,
      frame_dir = o_frame_dir os, next_session = 1, open_fds = {}, files = (\<lambda>_. None)\<rparr>"

text \<open>The drain loop: \<open>obs k\<close> is the value of \<^verbatim>\<open>active_workers\<close> the \<open>k\<close>-th test reads.\<close>

function drain_loop :: "(nat \<Rightarrow> int) \<Rightarrow> nat \<Rightarrow> nat \<Rightarrow> nat" where
  "drain_loop obs k waited_ms =
     (if obs k > 0 \<and> waited_ms < 5000 then drain_loop obs (Suc k) (waited_ms + 100) else waited_ms)"
  by pat_completeness auto

termination
  by (relation "measure (\<lambda>(obs, k, waited_ms). 5000 - waited_ms)") auto

declare drain_loop.simps [simp del]

text \<open>After the drain: the sink is closed, the table destroyed, the pipe closed.\<close>

definition server_shutdown :: "'s server_ctx \<Rightarrow> 's server_ctx" where
  "server_shutdown c = c\<lparr>sink_st := sink_close (ctx_sink c) (sink_st c), dtable := dt_destroy (dtable c), pipe_bytes := 0\<rparr>"

section \<open>The threads together\<close>

text \<open>A connection: its worker thread has been created but has not run yet, or it runs.\<close>

datatype conn = Spawned sock | Running worker sock

record 's server_sys =
  sy_ctx :: "'s server_ctx"
  sy_workers :: "int \<Rightarrow> conn option"
  sy_listening :: bool
  sy_ticks :: nat

definition running_fds :: "(int \<Rightarrow> conn option) \<Rightarrow> int set" where
  "running_fds W = {fd. \<exists>w s. W fd = Some (Running w s)}"

inductive server_step :: "endian \<Rightarrow> 's server_sys \<Rightarrow> 's server_sys \<Rightarrow> bool" for host where
  Reject: "sy_listening S \<Longrightarrow> running (sy_ctx S) \<Longrightarrow> (\<forall>cfd. a_accept env = Inr cfd \<longrightarrow> cfd \<notin> open_fds (sy_ctx S)) \<Longrightarrow>
     tcp_listener_iter env (sy_ctx S) = (Next, c', None) \<Longrightarrow> server_step host S (S\<lparr>sy_ctx := c'\<rparr>)"
| Spawn: "sy_listening S \<Longrightarrow> running (sy_ctx S) \<Longrightarrow> (\<forall>cfd. a_accept env = Inr cfd \<longrightarrow> cfd \<notin> open_fds (sy_ctx S)) \<Longrightarrow>
     tcp_listener_iter env (sy_ctx S) = (Next, c', Some fd) \<Longrightarrow>
     server_step host S (S\<lparr>sy_ctx := c', sy_workers := (sy_workers S)(fd \<mapsto> Spawned s)\<rparr>)"
| Stop_listening: "sy_listening S \<Longrightarrow> \<not> running (sy_ctx S) \<or> fst (tcp_listener_iter env (sy_ctx S)) = Leave \<Longrightarrow>
     server_step host S (S\<lparr>sy_ctx := tcp_listener_stop (sy_ctx S), sy_listening := False\<rparr>)"
| Start: "sy_workers S fd = Some (Spawned s) \<Longrightarrow> length payload0 = PL_MAX_PAYLOAD \<Longrightarrow>
     server_step host S (S\<lparr>sy_ctx := worker_enter (sy_ctx S),
       sy_workers := (sy_workers S)(fd \<mapsto> Running (worker_init payload0) s)\<rparr>)"
| Round: "sy_workers S fd = Some (Running w s) \<Longrightarrow> running (sy_ctx S) \<Longrightarrow> w_state w \<noteq> CLOSING \<Longrightarrow> env_ok env \<Longrightarrow>
     worker_iter host env (w, s, sy_ctx S) = (Next, w', s', c') \<Longrightarrow>
     server_step host S (S\<lparr>sy_ctx := c', sy_workers := (sy_workers S)(fd \<mapsto> Running w' s')\<rparr>)"
| Finish: "sy_workers S fd = Some (Running w s) \<Longrightarrow> running (sy_ctx S) \<Longrightarrow> w_state w \<noteq> CLOSING \<Longrightarrow> env_ok env \<Longrightarrow>
     worker_iter host env (w, s, sy_ctx S) = (Leave, w', s', c') \<Longrightarrow>
     server_step host S (S\<lparr>sy_ctx := worker_exit fd c', sy_workers := (sy_workers S)(fd := None)\<rparr>)"
| Finish_stopped: "sy_workers S fd = Some (Running w s) \<Longrightarrow> \<not> running (sy_ctx S) \<or> w_state w = CLOSING \<Longrightarrow>
     server_step host S (S\<lparr>sy_ctx := worker_exit fd (sy_ctx S), sy_workers := (sy_workers S)(fd := None)\<rparr>)"
| Datagram: "server_step host S (S\<lparr>sy_ctx := udp_listener_iter host calloc_ok clock now received (sy_ctx S)\<rparr>)"
| Tick: "reaper_tick now (sy_ticks S, sy_ctx S) = (n, c', out) \<Longrightarrow> server_step host S (S\<lparr>sy_ctx := c', sy_ticks := n\<rparr>)"
| Stop: "server_step host S (S\<lparr>sy_ctx := on_stop (sy_ctx S)\<rparr>)"
| Dump: "server_step host S (S\<lparr>sy_ctx := on_dump (sy_ctx S)\<rparr>)"

inductive server_reach :: "endian \<Rightarrow> 's server_sys \<Rightarrow> 's server_sys \<Rightarrow> bool" for host where
  Refl: "server_reach host S S"
| Step: "server_reach host S T \<Longrightarrow> server_step host T U \<Longrightarrow> server_reach host S U"

definition sys_init :: "options \<Rightarrow> 's sink \<Rightarrow> 's \<Rightarrow> int \<Rightarrow> 's server_sys" where
  "sys_init os sk sk_st fd = \<lparr>sy_ctx = (server_init os sk sk_st)\<lparr>listen_fd := fd\<rparr>, sy_workers = Map.empty,
     sy_listening = True, sy_ticks = 0\<rparr>"

section \<open>Each round, on its own\<close>

lemma worker_ok_other:
  assumes "worker_ok (w, s, c)" and "dt_invar (dtable c')" and "length (devices (dtable c)) \<le> length (devices (dtable c'))"
  shows "worker_ok (w, s, c')"
  using assms by (auto simp: worker_ok_def dest: order.strict_trans2)

lemma tcp_iter_effect:
  assumes "tcp_listener_iter env c = (out, c', r)" and "\<forall>cfd. a_accept env = Inr cfd \<longrightarrow> cfd \<notin> open_fds c"
  shows "case r of
      None \<Rightarrow> c' = c
    | Some fd \<Rightarrow> out = Next \<and> fd \<notin> open_fds c \<and> 0 < client_slots c \<and>
        c' = c\<lparr>open_fds := insert fd (open_fds c), client_slots := client_slots c - 1\<rparr>"
proof -
  have "c\<lparr>open_fds := open_fds c\<rparr> = c" "c\<lparr>open_fds := open_fds c, client_slots := client_slots c\<rparr> = c" by simp_all
  then show ?thesis
    using assms by (auto simp: tcp_listener_iter_def Let_def split: sum.split_asm if_split_asm prod.split_asm option.split)
qed

lemma devices_touch: "length (devices t) \<le> length (devices (dt_touch ok clock i now t))"
  by (auto simp: dt_touch_def dt_get_or_create_def dt_create_locked_def Let_def split: option.split prod.split)

lemma devices_sweep: "dt_invar t \<Longrightarrow> length (devices (dt_sweep_offline now timeout t)) = length (devices t)"
  by (simp add: dt_sweep_eq)

lemma udp_effect:
  assumes "dt_invar (dtable c)"
  shows "\<exists>t. udp_listener_iter host calloc_ok clock now received c = c\<lparr>dtable := t\<rparr> \<and> dt_invar t \<and>
    length (devices (dtable c)) \<le> length (devices t)"
proof (cases "\<exists>i dgram. received = Inr dgram \<and> udp_heartbeat host (take (PL_HDR_SIZE + PL_MAX_PAYLOAD) dgram) = Some i")
  case True
  then obtain i where "udp_listener_iter host calloc_ok clock now received c = c\<lparr>dtable := dt_touch calloc_ok clock i now (dtable c)\<rparr>"
    by (auto simp: udp_listener_iter_def)
  then show ?thesis using conjunct1 [OF dt_touch_effect [OF assms]] devices_touch by blast
next
  case False
  then have "udp_listener_iter host calloc_ok clock now received c = c\<lparr>dtable := dtable c\<rparr>"
    by (auto simp: udp_listener_iter_def split: sum.split option.split)
  then show ?thesis using assms by blast
qed

lemma reaper_effect:
  assumes "reaper_tick now (ticks, c) = (n, c', out)" and "dt_invar (dtable c)"
  shows "\<exists>t. c' = c\<lparr>dump_requested := False, dtable := t\<rparr> \<and> dt_invar t \<and> length (devices t) = length (devices (dtable c))"
proof -
  have "c' = c\<lparr>dump_requested := False, dtable := dtable c\<rparr> \<or>
      c' = c\<lparr>dump_requested := False, dtable := dt_sweep_offline now HEARTBEAT_TIMEOUT_S (dtable c)\<rparr>"
    using assms(1) by (auto simp: reaper_tick_def Let_def split: if_split_asm)
  then show ?thesis using assms(2) dt_sweep_invar devices_sweep by blast
qed

section \<open>The invariant of the server\<close>

text \<open>
  Every connection that is open has a worker and every worker an open connection; the free
  slots and the workers add up to the configured maximum; the count of active workers is the
  number of workers that have started; the table is in order and every worker within it.
\<close>

definition slots_ok :: "'s server_ctx \<Rightarrow> (int \<Rightarrow> conn option) \<Rightarrow> bool" where
  "slots_ok c W \<longleftrightarrow> finite (dom W) \<and> open_fds c = dom W \<and> client_slots c + card (dom W) = nat (max_clients (cfg c)) \<and>
     active_workers c = int (card (running_fds W))"

definition workers_ok :: "'s server_ctx \<Rightarrow> (int \<Rightarrow> conn option) \<Rightarrow> bool" where
  "workers_ok c W \<longleftrightarrow> dt_invar (dtable c) \<and>
     (\<forall>fd w s. W fd = Some (Running w s) \<longrightarrow> worker_ok (w, s, c) \<and> (w_state w \<noteq> CLOSING \<longrightarrow> strikes w < MAX_STRIKES))"

definition server_inv :: "'s server_sys \<Rightarrow> bool" where
  "server_inv S \<longleftrightarrow> slots_ok (sy_ctx S) (sy_workers S) \<and> workers_ok (sy_ctx S) (sy_workers S)"

lemma running_fds_upd:
  "running_fds (W(fd := None)) = running_fds W - {fd}"
  "running_fds (W(fd \<mapsto> Spawned s)) = running_fds W - {fd}"
  "running_fds (W(fd \<mapsto> Running w s)) = insert fd (running_fds W)"
  by (auto simp: running_fds_def)

lemma slots_ok_same:
  assumes "slots_ok c W" and "open_fds c' = open_fds c" and "client_slots c' = client_slots c"
    and "active_workers c' = active_workers c" and "cfg c' = cfg c" and "dom W' = dom W" and "running_fds W' = running_fds W"
  shows "slots_ok c' W'"
  using assms by (simp add: slots_ok_def)

lemma slots_ok_finite:
  assumes "slots_ok c W"
  shows "finite (dom W)" "finite (running_fds W)"
proof -
  show fin: "finite (dom W)" using assms by (simp add: slots_ok_def)
  show "finite (running_fds W)" by (rule finite_subset [OF _ fin]) (auto simp: running_fds_def)
qed

lemma slots_ok_spawn:
  assumes "slots_ok c W" and "fd \<notin> open_fds c" and "0 < client_slots c"
  shows "slots_ok (c\<lparr>open_fds := insert fd (open_fds c), client_slots := client_slots c - 1\<rparr>) (W(fd \<mapsto> Spawned s))"
proof -
  have "fd \<notin> dom W" using assms by (simp add: slots_ok_def)
  moreover from this have "running_fds (W(fd \<mapsto> Spawned s)) = running_fds W" by (auto simp: running_fds_def)
  ultimately show ?thesis using assms by (auto simp: slots_ok_def)
qed

lemma slots_ok_start:
  assumes "slots_ok c W" and "W fd = Some (Spawned s)"
  shows "slots_ok (worker_enter c) (W(fd \<mapsto> Running w s'))"
proof -
  have "fd \<notin> running_fds W" "insert fd (dom W) = dom W" using assms(2) by (auto simp: running_fds_def)
  then show ?thesis
    using assms(1) slots_ok_finite [OF assms(1)] by (simp add: slots_ok_def worker_enter_def running_fds_upd)
qed

lemma slots_ok_exit:
  assumes "slots_ok c W" and "W fd = Some (Running w s)"
  shows "slots_ok (worker_exit fd c) (W(fd := None))"
proof -
  have mem: "fd \<in> running_fds W" "fd \<in> dom W" using assms(2) by (auto simp: running_fds_def)
  note fin = slots_ok_finite [OF assms(1)]
  show ?thesis
    using assms(1) card.remove [OF fin(1) mem(2)] card.remove [OF fin(2) mem(1)]
    by (simp add: slots_ok_def worker_exit_def running_fds_upd)
qed

lemma workers_ok_ctx:
  assumes "workers_ok c W" and "dt_invar (dtable c')" and "length (devices (dtable c)) \<le> length (devices (dtable c'))"
  shows "workers_ok c' W"
  using assms(1,2) worker_ok_other [OF _ assms(2,3)] unfolding workers_ok_def by blast

lemma workers_ok_upd:
  assumes "workers_ok c W" and "\<And>w s. x = Some (Running w s) \<Longrightarrow> worker_ok (w, s, c) \<and> (w_state w \<noteq> CLOSING \<longrightarrow> strikes w < MAX_STRIKES)"
  shows "workers_ok c (W(fd := x))"
  using assms unfolding workers_ok_def by auto

lemma workers_ok_invar: "workers_ok c W \<Longrightarrow> dt_invar (dtable c)"
  by (simp add: workers_ok_def)

lemma server_inv_ctx:
  assumes "server_inv S" and "dt_invar (dtable c')" and "length (devices (dtable (sy_ctx S))) \<le> length (devices (dtable c'))"
    and "open_fds c' = open_fds (sy_ctx S)" and "client_slots c' = client_slots (sy_ctx S)"
    and "active_workers c' = active_workers (sy_ctx S)" and "cfg c' = cfg (sy_ctx S)"
  shows "slots_ok c' (sy_workers S) \<and> workers_ok c' (sy_workers S)"
proof
  show "slots_ok c' (sy_workers S)"
    by (rule slots_ok_same [where c = "sy_ctx S"]) (use assms in \<open>auto simp: server_inv_def\<close>)
  show "workers_ok c' (sy_workers S)"
    by (rule workers_ok_ctx [where c = "sy_ctx S"]) (use assms in \<open>auto simp: server_inv_def\<close>)
qed

text \<open>What a round of a running worker does, from the results on the worker alone.\<close>

lemma round_effect:
  assumes "server_inv S" and "sy_workers S fd = Some (Running w s)" and "w_state w \<noteq> CLOSING" and "env_ok env"
    and "worker_iter host env (w, s, sy_ctx S) = (out, w', s', c')"
  shows "worker_ok (w', s', c')" "ctx_same (sy_ctx S) c'" "out = Next \<Longrightarrow> w_state w' \<noteq> CLOSING \<Longrightarrow> strikes w' < MAX_STRIKES"
proof -
  have "worker_ok (w, s, sy_ctx S)" "strikes w < MAX_STRIKES"
    using assms(1-3) by (auto simp: server_inv_def workers_ok_def)
  with worker_iter_ok [of "(w, s, sy_ctx S)" env host] assms(3-5)
  show "worker_ok (w', s', c')" "ctx_same (sy_ctx S) c'" "out = Next \<Longrightarrow> w_state w' \<noteq> CLOSING \<Longrightarrow> strikes w' < MAX_STRIKES"
    by (simp_all add: round_ok_def phase_ok_def)
qed

lemma ctx_same_inv:
  assumes "server_inv S" and "ctx_same (sy_ctx S) c'" and "dt_invar (dtable c')"
  shows "slots_ok c' (sy_workers S)" "workers_ok c' (sy_workers S)"
  using server_inv_ctx [OF assms(1,3)] assms(2) by (auto simp: ctx_same_def)

lemma inv_invar: "server_inv S \<Longrightarrow> dt_invar (dtable (sy_ctx S))"
  by (simp add: server_inv_def workers_ok_def)

lemma spawn_inv:
  assumes "server_inv S" and "fd \<notin> open_fds (sy_ctx S)" and "0 < client_slots (sy_ctx S)"
    and "c' = (sy_ctx S)\<lparr>open_fds := insert fd (open_fds (sy_ctx S)), client_slots := client_slots (sy_ctx S) - 1\<rparr>"
  shows "server_inv (S\<lparr>sy_ctx := c', sy_workers := (sy_workers S)(fd \<mapsto> Spawned s)\<rparr>)"
proof -
  have "workers_ok c' (sy_workers S)"
    by (rule workers_ok_ctx [where c = "sy_ctx S"]) (use assms in \<open>auto simp: server_inv_def dest: workers_ok_invar\<close>)
  then have "workers_ok c' ((sy_workers S)(fd \<mapsto> Spawned s))" by (rule workers_ok_upd) simp
  moreover have "slots_ok c' ((sy_workers S)(fd \<mapsto> Spawned s))"
    unfolding assms(4) by (rule slots_ok_spawn) (use assms in \<open>simp_all add: server_inv_def\<close>)
  ultimately show ?thesis by (simp add: server_inv_def)
qed

lemma start_inv:
  assumes "server_inv S" and "sy_workers S fd = Some (Spawned s)" and "length payload0 = PL_MAX_PAYLOAD"
  shows "server_inv (S\<lparr>sy_ctx := worker_enter (sy_ctx S),
    sy_workers := (sy_workers S)(fd \<mapsto> Running (worker_init payload0) s)\<rparr>)"
proof -
  let ?c = "worker_enter (sy_ctx S)"
  have "workers_ok ?c (sy_workers S)"
    by (rule workers_ok_ctx [where c = "sy_ctx S"]) (use assms in \<open>auto simp: server_inv_def worker_enter_def dest: workers_ok_invar\<close>)
  then have "workers_ok ?c ((sy_workers S)(fd \<mapsto> Running (worker_init payload0) s))"
    by (rule workers_ok_upd)
      (use assms inv_invar [OF assms(1)] in \<open>auto simp: worker_ok_def worker_init_def MAX_STRIKES_def fa_ok_def worker_enter_def\<close>)
  moreover have "slots_ok ?c ((sy_workers S)(fd \<mapsto> Running (worker_init payload0) s))"
    by (rule slots_ok_start) (use assms in \<open>simp_all add: server_inv_def\<close>)
  ultimately show ?thesis by (simp add: server_inv_def)
qed

lemma round_inv:
  assumes "server_inv S" and "sy_workers S fd = Some (Running w s)" and "ctx_same (sy_ctx S) c'" and "worker_ok (w', s', c')"
    and "w_state w' \<noteq> CLOSING \<Longrightarrow> strikes w' < MAX_STRIKES"
  shows "server_inv (S\<lparr>sy_ctx := c', sy_workers := (sy_workers S)(fd \<mapsto> Running w' s')\<rparr>)"
proof -
  have inv': "dt_invar (dtable c')" using assms(4) by (simp add: worker_ok_def)
  have "workers_ok c' ((sy_workers S)(fd \<mapsto> Running w' s'))"
    by (rule workers_ok_upd [OF ctx_same_inv(2) [OF assms(1,3) inv']]) (use assms in auto)
  moreover have "slots_ok c' ((sy_workers S)(fd \<mapsto> Running w' s'))"
    by (rule slots_ok_same [OF ctx_same_inv(1) [OF assms(1,3) inv']]) (use assms(2) in \<open>auto simp: running_fds_def\<close>)
  ultimately show ?thesis by (simp add: server_inv_def)
qed

lemma exit_inv:
  assumes "server_inv S" and "sy_workers S fd = Some (Running w s)" and "ctx_same (sy_ctx S) c'" and "dt_invar (dtable c')"
  shows "server_inv (S\<lparr>sy_ctx := worker_exit fd c', sy_workers := (sy_workers S)(fd := None)\<rparr>)"
proof -
  have "workers_ok (worker_exit fd c') (sy_workers S)"
    by (rule workers_ok_ctx [OF ctx_same_inv(2) [OF assms(1,3,4)]]) (use assms(4) in \<open>simp_all add: worker_exit_def\<close>)
  then have "workers_ok (worker_exit fd c') ((sy_workers S)(fd := None))" by (rule workers_ok_upd) simp
  moreover have "slots_ok (worker_exit fd c') ((sy_workers S)(fd := None))"
    using ctx_same_inv(1) [OF assms(1,3,4)] assms(2) by (rule slots_ok_exit)
  ultimately show ?thesis by (simp add: server_inv_def)
qed

lemma server_step_inv:
  assumes "server_step host S T" and inv: "server_inv S"
  shows "server_inv T"
proof -
  have ctx: "server_inv (S\<lparr>sy_ctx := c'\<rparr>) \<and> server_inv (S\<lparr>sy_ctx := c', sy_ticks := n\<rparr>) \<and> server_inv (S\<lparr>sy_ctx := c', sy_listening := l\<rparr>)"
    if "dt_invar (dtable c')" "length (devices (dtable (sy_ctx S))) \<le> length (devices (dtable c'))"
      "open_fds c' = open_fds (sy_ctx S)" "client_slots c' = client_slots (sy_ctx S)"
      "active_workers c' = active_workers (sy_ctx S)" "cfg c' = cfg (sy_ctx S)" for c' n l
    using server_inv_ctx [OF inv that] by (simp add: server_inv_def)
  note dt = inv_invar [OF inv]
  from assms(1) show ?thesis
  proof cases
    case (Reject env c')
    then show ?thesis using tcp_iter_effect [of env "sy_ctx S" Next c' None] inv by simp
  next
    case (Spawn env c' fd s)
    then show ?thesis using tcp_iter_effect [of env "sy_ctx S" Next c' "Some fd"] spawn_inv [OF inv, of fd c' s] by simp
  next
    case (Stop_listening env)
    then show ?thesis using ctx [of "tcp_listener_stop (sy_ctx S)"] dt by (simp add: tcp_listener_stop_def)
  next
    case (Start fd s payload0)
    then show ?thesis using start_inv [OF inv] by simp
  next
    case (Round fd w s env w' s' c')
    then show ?thesis using round_effect [OF inv Round(2,4-6)] round_inv [OF inv Round(2)] by simp
  next
    case (Finish fd w s env w' s' c')
    note eff = round_effect [OF inv Finish(2,4-6)]
    then show ?thesis using exit_inv [OF inv Finish(2) eff(2)] Finish(1) by (simp add: worker_ok_def)
  next
    case (Finish_stopped fd w s)
    then show ?thesis using exit_inv [OF inv Finish_stopped(2), of "sy_ctx S"] dt by simp
  next
    case (Datagram calloc_ok clock now received)
    obtain t where t: "udp_listener_iter host calloc_ok clock now received (sy_ctx S) = (sy_ctx S)\<lparr>dtable := t\<rparr>" "dt_invar t"
      "length (devices (dtable (sy_ctx S))) \<le> length (devices t)" using udp_effect [OF dt] by blast
    with Datagram ctx [of "(sy_ctx S)\<lparr>dtable := t\<rparr>"] show ?thesis by simp
  next
    case (Tick now n c' out)
    with reaper_effect [OF Tick(2) dt] ctx [of c'] show ?thesis by auto
  next
    case Stop
    with ctx [of "on_stop (sy_ctx S)"] dt show ?thesis by (simp add: on_stop_def)
  next
    case Dump
    with ctx [of "on_dump (sy_ctx S)"] dt show ?thesis by (simp add: on_dump_def)
  qed
qed

lemma server_reach_inv: "server_reach host S T \<Longrightarrow> server_inv S \<Longrightarrow> server_inv T"
  by (induction rule: server_reach.induct) (auto intro: server_step_inv)

lemma sys_init_inv: "server_inv (sys_init os sk sk_st fd)"
proof -
  let ?t = "\<lparr>devices = [], buckets = [], device_count = 0\<rparr> :: device_table"
  have "dt_invar (dt_init ?t)" using dt_init_invar [of ?t] by simp
  then show ?thesis by (simp add: server_inv_def slots_ok_def workers_ok_def sys_init_def server_init_def running_fds_def)
qed

section \<open>Packets in a datagram\<close>

definition starts_with_packet :: "pkt_type \<Rightarrow> u8 list \<Rightarrow> bool" where
  "starts_with_packet t bs \<longleftrightarrow> (\<exists>i p rest. bs = wire_packet t i p @ rest \<and> length p < 65536)"

lemma starts_with_packet_iff:
  "starts_with_packet t bs \<longleftrightarrow> PL_HDR_SIZE \<le> length bs \<and> (let h = pl_parse_header host bs in
     h_magic h = PL_MAGIC \<and> h_version h = PL_VERSION \<and> PL_HDR_SIZE + unat (h_payload_len h) \<le> length bs \<and>
     pl_checksum (drop PL_HDR_SIZE bs) (unat (h_payload_len h)) = h_checksum h \<and> h_type h = pkt_code t)"
  (is "_ \<longleftrightarrow> ?checks")
proof
  assume "starts_with_packet t bs"
  then obtain i p rest where bs: "bs = wire_packet t i p @ rest" "length p < 65536" by (auto simp: starts_with_packet_def)
  have "pl_parse_header host bs = wire_header t i p" unfolding bs(1) by (rule pl_parse_header_wire_packet)
  moreover have "drop PL_HDR_SIZE bs = p @ rest" by (simp add: bs(1) wire_packet_def)
  ultimately show ?checks using bs by (simp add: wire_header_def length_u16 Let_def)
next
  assume c: ?checks
  define h where "h = pl_parse_header host bs"
  define n where "n = unat (h_payload_len h)"
  define p where "p = take n (drop PL_HDR_SIZE bs)"
  have len: "PL_HDR_SIZE + n \<le> length bs" using c by (simp add: h_def n_def Let_def)
  then have p: "length p = n" by (simp add: p_def)
  have n: "n < 65536" unfolding n_def by (rule unat_u16_less)
  have "h = wire_header t (h_device_id h) p"
  proof -
    have "pl_checksum p n = pl_checksum (drop PL_HDR_SIZE bs) n"
      using pl_checksum_append [of p "drop n (drop PL_HDR_SIZE bs)"] p by (simp add: p_def)
    moreover have "of_nat n = h_payload_len h" by (simp add: n_def)
    ultimately show ?thesis using c p by (simp add: wire_header_def h_def n_def Let_def)
  qed
  moreover have "hdr_mem BigEndian h = take PL_HDR_SIZE bs" using hdr.enc_dec [of bs host] len by (simp add: h_def)
  ultimately have "wire_packet t (h_device_id h) p = take PL_HDR_SIZE bs @ p" by (simp add: wire_packet_def)
  then have "bs = wire_packet t (h_device_id h) p @ drop n (drop PL_HDR_SIZE bs)"
    by (simp only: p_def append_assoc append_take_drop_id)
  then show "starts_with_packet t bs" using p n unfolding starts_with_packet_def by blast
qed

section \<open>Properties\<close>

text \<open>
  C3. Connections, slots and workers always add up. In every state the server can reach from
  its start, whatever the peers send, whatever the system calls return and in whatever order
  the threads run: the open client descriptors are exactly those of the worker threads that
  exist, there are never more than \<^verbatim>\<open>max_clients\<close> of them, the semaphore holds the rest, the
  counter \<^verbatim>\<open>active_workers\<close> is the number of workers that have started and not finished, and
  the device table is in order.
\<close>

theorem server_slots_invariant:
  assumes "server_reach host (sys_init os sk sk_st lfd) S"
  shows "let c = sy_ctx S; W = sy_workers S in
    open_fds c = dom W \<and> int (card (dom W)) \<le> max 0 (max_clients (cfg c)) \<and>
    client_slots c = nat (max_clients (cfg c)) - card (dom W) \<and>
    active_workers c = int (card (running_fds W)) \<and> dt_invar (dtable c)"
  using server_reach_inv [OF assms sys_init_inv]
  by (auto simp: server_inv_def slots_ok_def workers_ok_def Let_def)

definition demo_sys :: "ring_log server_sys" where
  "demo_sys = sys_init default_options sink_ring_log (sink_st demo_ctx) 3"

definition accept_five :: accept_env where
  "accept_five = \<lparr>a_poll = Inr (True, False), a_accept = Inr 5, a_malloc = True, a_pthread = True\<rparr>"

text \<open>The server after one connection has been accepted and the stop signal has come, before the
  new worker thread has run.\<close>

definition late_sys :: "ring_log server_sys" where
  "late_sys = (let c = (sy_ctx demo_sys)\<lparr>open_fds := {5}, client_slots := 15\<rparr> in
     demo_sys\<lparr>sy_ctx := tcp_listener_stop (on_stop c), sy_workers := [5 \<mapsto> Spawned \<lparr>rx = [], txs = [], tx_out = []\<rparr>], sy_listening := False\<rparr>)"

lemma late_sys_reachable: "server_reach host demo_sys late_sys"
proof -
  let ?c1 = "(sy_ctx demo_sys)\<lparr>open_fds := {5}, client_slots := 15\<rparr>"
  let ?s = "\<lparr>rx = [], txs = [], tx_out = []\<rparr> :: sock"
  let ?S1 = "demo_sys\<lparr>sy_ctx := ?c1, sy_workers := (sy_workers demo_sys)(5 \<mapsto> Spawned ?s)\<rparr>"
  have acc: "tcp_listener_iter accept_five (sy_ctx demo_sys) = (Next, ?c1, Some 5)"
    by (simp add: tcp_listener_iter_def accept_five_def demo_sys_def sys_init_def server_init_def default_options_def Let_def)
  have 1: "server_step host demo_sys ?S1"
    by (rule server_step.Spawn [OF _ _ _ acc]) (simp_all add: demo_sys_def sys_init_def server_init_def)
  have 2: "server_step host ?S1 (?S1\<lparr>sy_ctx := on_stop (sy_ctx ?S1)\<rparr>)" by (rule server_step.Stop)
  let ?S2 = "?S1\<lparr>sy_ctx := on_stop (sy_ctx ?S1)\<rparr>"
  have 3: "server_step host ?S2 (?S2\<lparr>sy_ctx := tcp_listener_stop (sy_ctx ?S2), sy_listening := False\<rparr>)"
    by (rule server_step.Stop_listening) (simp_all add: demo_sys_def sys_init_def on_stop_def)
  have "?S2\<lparr>sy_ctx := tcp_listener_stop (sy_ctx ?S2), sy_listening := False\<rparr> = late_sys"
    by (simp add: late_sys_def Let_def demo_sys_def sys_init_def)
  with 1 2 3 show ?thesis
    using server_reach.Step [OF server_reach.Step [OF server_reach.Step [OF server_reach.Refl 1] 2] 3] by simp
qed

theorem server_slots_invariant_witness:
  "server_reach LittleEndian demo_sys late_sys \<and> open_fds (sy_ctx late_sys) = dom (sy_workers late_sys) \<and>
   client_slots (sy_ctx late_sys) = 15 \<and> card (dom (sy_workers late_sys)) = 1"
  using server_slots_invariant [OF late_sys_reachable [unfolded demo_sys_def]] late_sys_reachable
  by (simp add: Let_def late_sys_def on_stop_def tcp_listener_stop_def)

text \<open>
  C35. The drain at shutdown can miss a worker. A worker counts itself only when its thread
  runs, so there is a reachable state in which the listener has stopped, a connection's thread
  exists, and \<^verbatim>\<open>active_workers\<close> is zero: the drain loop does not wait at all, the device table
  is destroyed, and the worker starts afterwards.
\<close>

theorem server_drain_misses_worker:
  "\<exists>S. server_reach host demo_sys S \<and> \<not> running (sy_ctx S) \<and> \<not> sy_listening S \<and> card (dom (sy_workers S)) = 1 \<and>
     drain_loop (\<lambda>k. active_workers (sy_ctx S)) 0 0 = 0 \<and>
     (\<exists>T. server_step host (S\<lparr>sy_ctx := server_shutdown (sy_ctx S)\<rparr>) T \<and> active_workers (sy_ctx T) = 1)"
proof (rule exI [of _ late_sys], intro conjI)
  show "server_reach host demo_sys late_sys" by (rule late_sys_reachable)
  show "drain_loop (\<lambda>k. active_workers (sy_ctx late_sys)) 0 0 = 0"
    by (simp add: drain_loop.simps [of _ 0] late_sys_def Let_def on_stop_def tcp_listener_stop_def demo_sys_def sys_init_def server_init_def)
  let ?S = "late_sys\<lparr>sy_ctx := server_shutdown (sy_ctx late_sys)\<rparr>"
  let ?T = "?S\<lparr>sy_ctx := worker_enter (sy_ctx ?S),
      sy_workers := (sy_workers ?S)(5 \<mapsto> Running (worker_init (replicate PL_MAX_PAYLOAD 0)) \<lparr>rx = [], txs = [], tx_out = []\<rparr>)\<rparr>"
  have "server_step host ?S ?T" by (rule server_step.Start) (simp_all add: late_sys_def Let_def)
  moreover have "active_workers (sy_ctx ?T) = 1"
    by (simp add: worker_enter_def server_shutdown_def late_sys_def Let_def on_stop_def tcp_listener_stop_def
        demo_sys_def sys_init_def server_init_def)
  ultimately show "\<exists>T. server_step host ?S T \<and> active_workers (sy_ctx T) = 1" by blast
qed (simp_all add: late_sys_def Let_def on_stop_def tcp_listener_stop_def)

text \<open>
  The UDP listener acts on nothing but heartbeats. A datagram that starts with a well-formed
  heartbeat packet of a device refreshes that device, whatever follows the packet; any other
  datagram, be it too short, damaged, truncated or of another type, changes nothing.
\<close>

lemma udp_only_heartbeats:
  "udp_listener_iter host calloc_ok clock now (Inr dgram) c =
    (if starts_with_packet PKT_HEARTBEAT (take 1112 dgram)
     then c\<lparr>dtable := dt_touch calloc_ok clock (h_device_id (pl_parse_header host (take 1112 dgram))) now (dtable c)\<rparr>
     else c)"
proof -
  have "PL_HDR_SIZE + PL_MAX_PAYLOAD = 1112" by (simp add: pl_consts)
  moreover have "udp_heartbeat host buf = (if starts_with_packet PKT_HEARTBEAT buf then Some (h_device_id (pl_parse_header host buf)) else None)" for buf
    unfolding starts_with_packet_iff [of PKT_HEARTBEAT buf host] udp_heartbeat_def Let_def by (simp add: not_less)
  ultimately show ?thesis by (simp add: udp_listener_iter_def)
qed

end
