(* ===== verification/Server_Main.thy ===== *)
theory Server_Main
  imports Server
begin

text \<open>
  \<^verbatim>\<open>main\<close> of \<^verbatim>\<open>server/main.c\<close> from its arguments to its exit status, with the log line of
  \<^verbatim>\<open>server/log.h\<close> and the start of the two listeners: the start-up with every failure that ends
  it, the threads at work (the steps of theory \<open>Server\<close>), and the end after the threads have
  been joined. Shown here: what a server that comes up has been configured with, what the exit
  status says, and that a stop always leads to a server without connections.
\<close>

section \<open>Log lines\<close>

text \<open>\<open>hms\<close> is the local time \<^verbatim>\<open>localtime_r\<close> gives: hours, minutes, seconds.\<close>

definition two_digits :: "nat \<Rightarrow> string" where
  "two_digits n = pad_left 2 CHR ''0'' (fmt_u n)"

definition LOGF :: "nat \<times> nat \<times> nat \<Rightarrow> string \<Rightarrow> string" where
  "LOGF hms msg = (case hms of (h, m, s) \<Rightarrow>
     ''['' @ two_digits h @ '':'' @ two_digits m @ '':'' @ two_digits s @ ''] '' @ msg @ newline)"

section \<open>The start of the UDP listener\<close>

text \<open>The results of \<^verbatim>\<open>socket\<close> and \<^verbatim>\<open>bind\<close>; \<open>None\<close> when the thread returns before its loop. The results of
  the two \<^verbatim>\<open>setsockopt\<close> calls are not looked at. Unlike the TCP listener, a failure leaves
  \<^verbatim>\<open>running\<close> as it is.\<close>

definition udp_listener_start :: "int \<Rightarrow> int \<Rightarrow> 's server_ctx \<Rightarrow> (int \<times> string) option" where
  "udp_listener_start fd bnd c =
     (if fd < 0 then None
      else if bnd < 0 then None
      else Some (fd, ''UDP heartbeat listener up on port '' @ fmt_u (unat (udp_port (cfg c)))))"

section \<open>Start and end of main\<close>

text \<open>What the calls of the start-up return: \<^verbatim>\<open>pipe\<close>, \<^verbatim>\<open>sem_init\<close>, the two \<^verbatim>\<open>open\<close> functions of the
  sinks, the three \<^verbatim>\<open>pthread_create\<close> calls, and \<^verbatim>\<open>getpid\<close>.\<close>

record start_env =
  se_pipe :: int
  se_sem :: int
  se_mem_open :: int
  se_dev_open :: int
  se_tcp :: int
  se_udp :: int
  se_reaper :: int
  se_pid :: int

text \<open>The line logged before the threads are created.\<close>

definition starting_line :: "'s server_ctx \<Rightarrow> int \<Rightarrow> string" where
  "starting_line c pid =
     ''telemetryd starting: tcp='' @ fmt_u (unat (tcp_port (cfg c))) @ '' udp='' @ fmt_u (unat (udp_port (cfg c))) @
     '' max_clients='' @ fmt_d (max_clients (cfg c)) @ '' sink='' @ sink_name (ctx_sink c) @ '' (pid '' @ fmt_d pid @ '')''"

text \<open>
  From the options to the threads: an exit status, or the shared state, the seconds of the alarm
  when one is set, and the line logged. \<open>sinks\<close> gives for either choice the v-table and the state
  of the sink after its \<^verbatim>\<open>open\<close>.
\<close>

definition server_start ::
    "opt list \<Rightarrow> start_env \<Rightarrow> (sink_choice \<Rightarrow> 's sink \<times> 's) \<Rightarrow> int + ('s server_ctx \<times> u32 option \<times> string)" where
  "server_start args env sinks =
     (case parse_options args default_options of
        Inl rc \<Rightarrow> Inl rc
      | Inr os \<Rightarrow>
          if se_pipe env < 0 then Inl 1
          else if se_sem env < 0 then Inl 1
          else (case choose_sink (se_mem_open env) (se_dev_open env) (o_sink os) of
                  Inl rc \<Rightarrow> Inl rc
                | Inr choice \<Rightarrow>
                    let c = server_init os (fst (sinks choice)) (snd (sinks choice));
                        deadline = (if o_deadline os > 0 then Some (of_int (o_deadline os)) else None)
                    in if se_tcp env \<noteq> 0 then Inl 1
                       else if se_udp env \<noteq> 0 then Inl 1
                       else if se_reaper env \<noteq> 0 then Inl 1
                       else Inr (c, deadline, starting_line c (se_pid env))))"

text \<open>The threads as they enter their loops; \<open>sock\<close> is the result of \<^verbatim>\<open>make_listen_socket\<close>.\<close>

definition sys_start :: "int \<times> bool \<Rightarrow> 's server_ctx \<Rightarrow> 's server_sys" where
  "sys_start sock c = (case tcp_listener_start sock c of (up, c1) \<Rightarrow>
     \<lparr>sy_ctx = c1, sy_workers = Map.empty, sy_listening = up, sy_ticks = 0\<rparr>)"

text \<open>After the joins: \<open>leftover\<close> is read once the drain loop has ended. The result is the shared
  state, the messages logged and the exit status.\<close>

definition server_finish :: "int \<Rightarrow> 's server_ctx \<Rightarrow> 's server_ctx \<times> string list \<times> int" where
  "server_finish leftover c =
     (server_shutdown c,
      (if leftover > 0 then [''warning: '' @ fmt_d leftover @ '' worker(s) still active at shutdown''] else []) @
      [''telemetryd stopped cleanly''], 0)"

text \<open>
  The whole program. The joins return in a state in which no listener is at work and \<^verbatim>\<open>running\<close> is
  cleared; while the drain loop waits, the remaining workers go on: its \<open>k\<close>-th test reads the
  counter in the state \<open>Q k\<close>, and the last state is the one the end works on.
\<close>

definition drain_rounds :: "(nat \<Rightarrow> 's server_sys) \<Rightarrow> nat" where
  "drain_rounds Q = drain_loop (\<lambda>k. active_workers (sy_ctx (Q k))) 0 0 div 100"

inductive server_main ::
    "endian \<Rightarrow> opt list \<Rightarrow> start_env \<Rightarrow> (sink_choice \<Rightarrow> 's sink \<times> 's) \<Rightarrow> int \<times> bool \<Rightarrow>
     's server_ctx option \<Rightarrow> string list \<Rightarrow> int \<Rightarrow> bool"
  for host args env sinks sock where
  Refused: "server_start args env sinks = Inl rc \<Longrightarrow> server_main host args env sinks sock None [] rc"
| Served: "server_start args env sinks = Inr (c, deadline, line) \<Longrightarrow> server_reach host (sys_start sock c) (Q 0) \<Longrightarrow>
     \<not> sy_listening (Q 0) \<Longrightarrow> \<not> running (sy_ctx (Q 0)) \<Longrightarrow> (\<forall>k. server_reach host (Q k) (Q (Suc k))) \<Longrightarrow>
     server_finish (active_workers (sy_ctx (Q (drain_rounds Q)))) (sy_ctx (Q (drain_rounds Q))) = (c', msgs, rc) \<Longrightarrow>
     server_main host args env sinks sock (Some c') (line # msgs) rc"

inductive_cases server_mainE: "server_main host args env sinks sock res msgs rc"

section \<open>What a started server looks like\<close>

lemma two_digits_length: "n < 100 \<Longrightarrow> length (two_digits n) = 2"
  by (cases "n < 10") (simp_all add: two_digits_def pad_left_def fmt_u_def base_str.simps [of 10 n] base_str.simps [of 10 "n div 10"])

text \<open>A line is a stamp of eleven characters, the message and the line end.\<close>

lemma LOGF_stamp:
  assumes "h < 100" and "m < 100" and "s < 100"
  shows "\<exists>stamp. length stamp = 11 \<and> (\<forall>msg. LOGF (h, m, s) msg = stamp @ msg @ newline)"
proof (intro exI conjI allI)
  let ?stamp = "''['' @ two_digits h @ '':'' @ two_digits m @ '':'' @ two_digits s @ ''] ''"
  show "length ?stamp = 11" using assms by (simp add: two_digits_length)
  show "LOGF (h, m, s) msg = ?stamp @ msg @ newline" for msg by (simp add: LOGF_def)
qed

lemma parse_options_Cons:
  "parse_options (a # rest) os \<in> {Inl 0, Inl 2} \<or> (\<exists>os1. parse_options (a # rest) os = parse_options rest os1)"
proof (cases a)
  case (Opt x arg)
  define P where "P r \<longleftrightarrow> r \<in> {Inl 0, Inl 2} \<or> (\<exists>os1. r = parse_options rest os1)" for r
  have branch: "P (if b then r1 else r2)" if "P r1" "P r2" for b r1 r2 using that by simp
  have "P (parse_options rest os1)" "P (Inl 0)" "P (Inl 2)" for os1 by (auto simp: P_def)
  then have "P (parse_options (Opt x arg # rest) os)"
    unfolding parse_options.simps(2) by (intro branch)
  then show ?thesis unfolding P_def Opt .
qed

lemma parse_options_result:
  "case parse_options args os of Inl rc \<Rightarrow> rc = 0 \<or> rc = 2 | Inr os' \<Rightarrow> tcp_port (o_cfg os') \<noteq> 0 \<and> 0 < max_clients (o_cfg os')"
proof (induction args arbitrary: os)
  case (Cons a rest)
  show ?case using parse_options_Cons [of a rest os] Cons.IH by (elim disjE exE) auto
qed auto

lemma parse_options_ok: "parse_options args os = Inr os' \<Longrightarrow> tcp_port (o_cfg os') \<noteq> 0 \<and> 0 < max_clients (o_cfg os')"
  using parse_options_result [of args os] by simp

lemma parse_options_code: "parse_options args os = Inl rc \<Longrightarrow> rc = 0 \<or> rc = 2"
  using parse_options_result [of args os] by simp

lemma choose_sink_code: "choose_sink m d ch = Inl rc \<Longrightarrow> rc = 1"
  by (auto simp: choose_sink_def split: sink_choice.split_asm if_split_asm)

lemma server_start_Inr:
  assumes "server_start args env sinks = Inr (c, deadline, line)"
  obtains os choice where "parse_options args default_options = Inr os"
    "choose_sink (se_mem_open env) (se_dev_open env) (o_sink os) = Inr choice"
    "c = server_init os (fst (sinks choice)) (snd (sinks choice))" "line = starting_line c (se_pid env)"
  using assms by (auto simp: server_start_def Let_def split: sum.split_asm if_split_asm)

lemma sys_start_up: "0 \<le> fd \<Longrightarrow> sys_start (fd, True) (server_init os sk st) = sys_init os sk st fd"
  by (simp add: sys_start_def sys_init_def tcp_listener_start_def Let_def)

lemma sys_start_inv: "server_inv (sys_start sock (server_init os sk st))"
proof -
  have "server_inv (sys_init os sk st 0)" by (rule sys_init_inv)
  then show ?thesis
    by (simp add: server_inv_def slots_ok_def workers_ok_def sys_start_def sys_init_def tcp_listener_start_def Let_def)
qed

section \<open>A stopped server\<close>

text \<open>The steps the listener and the workers still have to take: one for the listener, one for
  a worker that runs and two for one whose thread has not begun.\<close>

definition pending :: "'s server_sys \<Rightarrow> nat" where
  "pending S = (if sy_listening S then 1 else 0) + card (dom (sy_workers S)) + card (dom (sy_workers S) - running_fds (sy_workers S))"

lemma pending_start:
  assumes "finite (dom W)" and "W fd = Some (Spawned s)"
  shows "card (dom (W(fd \<mapsto> Running w s')) - running_fds (W(fd \<mapsto> Running w s'))) < card (dom W - running_fds W)"
proof -
  have mem: "fd \<in> dom W - running_fds W" using assms(2) by (auto simp: running_fds_def)
  then have "dom (W(fd \<mapsto> Running w s')) - running_fds (W(fd \<mapsto> Running w s')) = (dom W - running_fds W) - {fd}"
    by (auto simp: running_fds_upd)
  then show ?thesis using card_Diff1_less [OF _ mem] assms(1) by simp
qed

lemma pending_exit:
  assumes "finite (dom W)" and "W fd = Some (Running w s)"
  shows "card (dom (W(fd := None))) < card (dom W)"
    and "dom (W(fd := None)) - running_fds (W(fd := None)) = dom W - running_fds W"
proof -
  have mem: "fd \<in> dom W" "fd \<in> running_fds W" using assms(2) by (auto simp: running_fds_def)
  show "card (dom (W(fd := None))) < card (dom W)" using card_Diff1_less [OF assms(1) mem(1)] by simp
  show "dom (W(fd := None)) - running_fds (W(fd := None)) = dom W - running_fds W" using mem by (auto simp: running_fds_upd)
qed

lemma stopped_step:
  assumes "server_step host S T" and "server_inv S" and "\<not> running (sy_ctx S)"
  shows "\<not> running (sy_ctx T) \<and>
    (sy_workers T = sy_workers S \<and> sy_listening T = sy_listening S \<or> pending T < pending S)"
proof -
  have fin: "finite (dom (sy_workers S))" using assms(2) by (simp add: server_inv_def slots_ok_def)
  note dt = inv_invar [OF assms(2)]
  from assms(1) show ?thesis
  proof cases
    case (Stop_listening env)
    with assms(3) show ?thesis by (simp add: tcp_listener_stop_def pending_def)
  next
    case (Start fd s payload0)
    with pending_start [OF fin Start(2)] assms(3) show ?thesis
      by (auto simp: pending_def worker_enter_def insert_absorb domI)
  next
    case (Finish_stopped fd w s)
    with pending_exit [OF fin Finish_stopped(2)] assms(3) show ?thesis by (simp add: pending_def worker_exit_def)
  next
    case (Datagram calloc_ok clock now received)
    with udp_effect [OF dt, of host calloc_ok clock now received] assms(3) show ?thesis by auto
  next
    case (Tick now n c' out)
    with reaper_effect [OF Tick(2) dt] assms(3) show ?thesis by auto
  qed (use assms(3) in \<open>auto simp: on_stop_def on_dump_def\<close>)
qed

lemma stopped_progress:
  assumes "server_inv S" and "\<not> running (sy_ctx S)" and "0 < pending S"
  shows "\<exists>T. server_step host S T \<and> pending T < pending S"
proof -
  note fin = assms(1) [unfolded server_inv_def slots_ok_def, THEN conjunct1, THEN conjunct1]
  consider "sy_listening S" | fd s where "sy_workers S fd = Some (Spawned s)" | fd w s where "sy_workers S fd = Some (Running w s)"
  proof (cases "dom (sy_workers S) = {}")
    case True
    then show ?thesis using that(1) assms(3) by (simp add: pending_def split: if_split_asm)
  next
    case False
    then obtain fd cn where "sy_workers S fd = Some cn" by (meson domD ex_in_conv)
    then show ?thesis using that(2,3) by (cases cn) auto
  qed
  then show ?thesis
  proof cases
    case 1
    let ?T = "S\<lparr>sy_ctx := tcp_listener_stop (sy_ctx S), sy_listening := False\<rparr>"
    have "server_step host S ?T" using 1 assms(2) by (rule server_step.Stop_listening [OF _ disjI1])
    moreover have "pending ?T < pending S" using 1 by (simp add: pending_def)
    ultimately show ?thesis by blast
  next
    case 2
    let ?T = "S\<lparr>sy_ctx := worker_enter (sy_ctx S),
        sy_workers := (sy_workers S)(fd \<mapsto> Running (worker_init (replicate PL_MAX_PAYLOAD 0)) s)\<rparr>"
    have "server_step host S ?T" by (rule server_step.Start [OF 2]) simp
    moreover have "pending ?T < pending S" using pending_start [OF fin 2] 2 by (auto simp: pending_def insert_absorb domI)
    ultimately show ?thesis by blast
  next
    case 3
    let ?T = "S\<lparr>sy_ctx := worker_exit fd (sy_ctx S), sy_workers := (sy_workers S)(fd := None)\<rparr>"
    have "server_step host S ?T" by (rule server_step.Finish_stopped [OF 3 disjI1 [OF assms(2)]])
    moreover have "pending ?T < pending S" using pending_exit [OF fin 3] by (simp add: pending_def)
    ultimately show ?thesis by blast
  qed
qed

lemma server_reach_trans: "server_reach host T U \<Longrightarrow> server_reach host S T \<Longrightarrow> server_reach host S U"
  by (induction rule: server_reach.induct) (auto intro: server_reach.Step)

lemma stopped_reach:
  assumes "server_reach host S T" and "server_inv S" and "\<not> running (sy_ctx S)"
  shows "server_inv T \<and> \<not> running (sy_ctx T) \<and> pending T \<le> pending S \<and> (\<not> sy_listening S \<longrightarrow> \<not> sy_listening T)"
  using assms
proof (induction rule: server_reach.induct)
  case (Step S T U)
  then have T: "server_inv T" "\<not> running (sy_ctx T)" "pending T \<le> pending S" "\<not> sy_listening S \<longrightarrow> \<not> sy_listening T" by auto
  have "pending U = pending T" if "sy_workers U = sy_workers T" "sy_listening U = sy_listening T"
    using that by (simp add: pending_def)
  moreover have "sy_listening U \<longrightarrow> sy_listening T" using Step.hyps(2) by cases auto
  ultimately show ?case
    using stopped_step [OF Step.hyps(2) T(1,2)] server_step_inv [OF Step.hyps(2) T(1)] T(3,4) by auto
qed auto

lemma stopped_quiesces:
  assumes "server_inv S" and "\<not> running (sy_ctx S)"
  shows "\<exists>T. server_reach host S T \<and> pending T = 0"
  using assms
proof (induction "pending S" arbitrary: S rule: less_induct)
  case less
  show ?case
  proof (cases "pending S = 0")
    case True
    then show ?thesis using server_reach.Refl by blast
  next
    case False
    then obtain T where T: "server_step host S T" "pending T < pending S"
      using stopped_progress [OF less.prems, of host] by auto
    obtain U where U: "server_reach host T U" "pending U = 0"
      using less.hyps [OF T(2) server_step_inv [OF T(1) less.prems(1)]] stopped_step [OF T(1) less.prems] by blast
    have "server_reach host S T" by (rule server_reach.Step [OF server_reach.Refl T(1)])
    with U show ?thesis using server_reach_trans by blast
  qed
qed

lemma pending_zero:
  assumes "server_inv S" and "pending S = 0"
  shows "sy_workers S = Map.empty \<and> \<not> sy_listening S \<and> open_fds (sy_ctx S) = {} \<and> active_workers (sy_ctx S) = 0 \<and>
    client_slots (sy_ctx S) = nat (max_clients (cfg (sy_ctx S)))"
proof -
  have s: "slots_ok (sy_ctx S) (sy_workers S)" using assms(1) by (simp add: server_inv_def)
  then have d: "dom (sy_workers S) = {}" "\<not> sy_listening S"
    using assms(2) slots_ok_finite [OF s] by (auto simp: pending_def split: if_split_asm)
  then have "sy_workers S = Map.empty" by simp
  with d s show ?thesis by (simp add: slots_ok_def running_fds_def)
qed

section \<open>A server whose listener does not come up\<close>

lemma failed_sys: "fst sock < 0 \<Longrightarrow> pending (sys_start sock c) = 0 \<and> \<not> running (sy_ctx (sys_start sock c))"
  by (simp add: sys_start_def tcp_listener_start_def pending_def Let_def)

lemma failed_reach:
  assumes "server_start args env sinks = Inr (c, deadline, line)" and "fst sock < 0" and "server_reach host (sys_start sock c) S"
  shows "sy_workers S = Map.empty \<and> active_workers (sy_ctx S) = 0"
proof -
  have inv: "server_inv (sys_start sock c)" using assms(1) by (elim server_start_Inr) (simp add: sys_start_inv)
  from stopped_reach [OF assms(3) inv] failed_sys [OF assms(2), of c] have "server_inv S" "pending S = 0" by simp_all
  then show ?thesis using pending_zero by blast
qed

lemma failed_main:
  assumes "server_start args env sinks = Inr (c, deadline, line)" and "fst sock < 0"
  shows "\<exists>c'. server_main host args env sinks sock (Some c') [line, ''telemetryd stopped cleanly''] 0"
proof -
  let ?S = "sys_start sock c"
  have "active_workers (sy_ctx ?S) = 0" using failed_reach [OF assms server_reach.Refl] by blast
  then have "server_finish (active_workers (sy_ctx ?S)) (sy_ctx ?S) = (server_shutdown (sy_ctx ?S), [''telemetryd stopped cleanly''], 0)"
    by (simp add: server_finish_def)
  with server_main.Served [OF assms(1), where host = host and sock = sock and Q = "\<lambda>_. ?S"] server_reach.Refl [of host ?S] show ?thesis
    using failed_sys [OF assms(2), of c] by (auto simp: pending_def split: if_split_asm)
qed

section \<open>Properties\<close>



text \<open>
  C36. A listener that cannot be set up ends the program with status 0. When the start-up
  succeeds and \<^verbatim>\<open>make_listen_socket\<close> then fails (the port is in use, say), the program does end,
  it never serves a connection, and every way it ends logs a clean stop and returns 0.
\<close>

theorem server_listen_failure_status:
  assumes "server_start args env sinks = Inr (c, deadline, line)"
    and "sock = make_listen_socket fd sso bnd lsn" and "bnd < 0"
  shows "(\<exists>res msgs rc. server_main host args env sinks sock res msgs rc) \<and>
    (\<forall>res msgs rc. server_main host args env sinks sock res msgs rc \<longrightarrow> rc = 0 \<and> msgs = [line, ''telemetryd stopped cleanly'']) \<and>
    (\<forall>S. server_reach host (sys_start sock c) S \<longrightarrow> sy_workers S = Map.empty)"
proof -
  have neg: "fst sock < 0" using assms(2,3) by (simp add: make_listen_socket_def)
  note reach = failed_reach [OF assms(1) neg, of host]
  have "rc = 0 \<and> msgs = [line, ''telemetryd stopped cleanly'']" if "server_main host args env sinks sock res msgs rc" for res msgs rc
    using that
  proof cases
    case (Served c1 deadline1 line1 Q c' msgs')
    have same: "c1 = c" "line1 = line" using Served(3) assms(1) by auto
    have "server_reach host (sys_start sock c) (Q k)" for k
      by (induction k) (use Served same server_reach_trans in blast)+
    then have "active_workers (sy_ctx (Q (drain_rounds Q))) = 0" using reach by blast
    then show ?thesis using Served same by (simp add: server_finish_def)
  qed (use assms(1) in simp)
  with failed_main [OF assms(1) neg, of host] reach show ?thesis by blast
qed

definition demo_start :: start_env where
  "demo_start = \<lparr>se_pipe = 0, se_sem = 0, se_mem_open = 0, se_dev_open = -1, se_tcp = 0, se_udp = 0, se_reaper = 0, se_pid = 7\<rparr>"

theorem server_listen_failure_status_witness:
  "let sinks = (\<lambda>_. (sink_ring_log, sink_st demo_ctx)) in
   \<exists>c line. server_start [Opt CHR ''s'' ''dev'', Opt CHR ''T'' ''5''] demo_start sinks = Inr (c, Some 5, line) \<and>
     (\<exists>res msgs. server_main LittleEndian [Opt CHR ''s'' ''dev'', Opt CHR ''T'' ''5''] demo_start sinks
        (make_listen_socket 3 0 (-1) 0) res msgs 0)"
proof -
  let ?args = "[Opt CHR ''s'' ''dev'', Opt CHR ''T'' ''5'']" and ?sinks = "\<lambda>_::sink_choice. (sink_ring_log, sink_st demo_ctx)"
  have five: "atoi ''5'' = 5" by code_simp
  obtain c line where c: "server_start ?args demo_start ?sinks = Inr (c, Some 5, line)"
    by (simp add: server_start_def default_options_def choose_sink_def demo_start_def five Let_def)
  have "(- 1 :: int) < 0" by simp
  from server_listen_failure_status [OF c refl this, of LittleEndian 3 0 0] c show ?thesis unfolding Let_def by blast
qed

end
