(* ===== verification/Server_Account.thy ===== *)
theory Server_Account
  imports Server
begin

text \<open>
  What the threads of the server record together. The readings of all connections go through one
  sink, one session counter and one device table; the theory relates the three over any
  interleaving of rounds: what the sink holds is one sequence of records, every device's counter
  says how many of them its sessions wrote, and no two live sessions have the same number. The
  finer interleaving inside one update of a device is the subject of \<open>Device_Fields_Conc\<close>.
\<close>

section \<open>What a round of a worker does to the shared records\<close>

definition ok_count :: "device_table \<Rightarrow> u32 \<Rightarrow> u64" where
  "ok_count t i = (case dt_map t i of None \<Rightarrow> 0 | Some v \<Rightarrow> packets_ok v)"

definition worker_same :: "worker \<Rightarrow> worker \<Rightarrow> bool" where
  "worker_same w w' \<longleftrightarrow> (w_state w' = WAIT_HELLO \<longleftrightarrow> w_state w = WAIT_HELLO) \<and> w_session w' = w_session w \<and> w_dev w' = w_dev w"

text \<open>The parts of the server's state that matter here are untouched.\<close>

definition quiet :: "'s wstate \<Rightarrow> 's wstate \<Rightarrow> bool" where
  "quiet st st' \<longleftrightarrow> (case (st, st') of ((w, s, c), (w', s', c')) \<Rightarrow> worker_same w w' \<and>
     next_session c' = next_session c \<and> sink_st c' = sink_st c \<and> ok_count (dtable c') = ok_count (dtable c) \<and>
     dom (dt_map (dtable c)) \<subseteq> dom (dt_map (dtable c')))"

text \<open>A session number has been taken; the worker has it unless the answer could not be sent.\<close>

definition said_hello :: "outcome \<Rightarrow> 's wstate \<Rightarrow> 's wstate \<Rightarrow> bool" where
  "said_hello out st st' \<longleftrightarrow> (case (st, st') of ((w, s, c), (w', s', c')) \<Rightarrow> w_state w = WAIT_HELLO \<and>
     (out = Next \<longrightarrow> w_state w' = ACTIVE) \<and> w_session w' = next_session c \<and> next_session c' = next_session c + 1 \<and>
     sink_st c' = sink_st c \<and> ok_count (dtable c') = ok_count (dtable c) \<and>
     dom (dt_map (dtable c)) \<subseteq> dom (dt_map (dtable c')))"

text \<open>A record has been written, and counted for the device of the session.\<close>

definition wrote_record :: "u32 \<Rightarrow> sensor_record \<Rightarrow> 's wstate \<Rightarrow> 's wstate \<Rightarrow> bool" where
  "wrote_record i r st st' \<longleftrightarrow> (case (st, st') of ((w, s, c), (w', s', c')) \<Rightarrow> worker_same w w' \<and>
     next_session c' = next_session c \<and> sink_st c' = snd (write_record (ctx_sink c) r (sink_st c)) \<and>
     i \<in> dom (dt_map (dtable c)) \<and> dom (dt_map (dtable c)) \<subseteq> dom (dt_map (dtable c')) \<and>
     (\<exists>d. w_dev w = Some d \<and> dt_addr (dtable c) i = Some d) \<and>
     ok_count (dtable c') = (ok_count (dtable c))(i := ok_count (dtable c) i + 1))"

subsection \<open>The counters of the table\<close>

lemma ok_count_upd:
  assumes "dt_invar t" and "d < length (devices t)" and "dev_id v = dev_id (devices t ! d)"
  shows "ok_count (dt_upd d v t) = (ok_count t)(dev_id v := packets_ok v)"
proof -
  have "dt_addr t (dev_id v) = Some d" using assms by (simp add: dt_addr_Some)
  from dt_map_upd [OF assms(1) this refl] show ?thesis by (auto simp: ok_count_def fun_eq_iff)
qed

lemma ok_count_device:
  assumes "dt_invar t" and "d < length (devices t)"
  shows "ok_count t (dev_id (devices t ! d)) = packets_ok (devices t ! d)" "dev_id (devices t ! d) \<in> dom (dt_map t)"
proof -
  have "dt_map t (dev_id (devices t ! d)) = Some (devices t ! d)"
    by (rule dt_map_Some) (simp add: dt_addr_Some assms)
  then show "ok_count t (dev_id (devices t ! d)) = packets_ok (devices t ! d)" "dev_id (devices t ! d) \<in> dom (dt_map t)"
    by (auto simp: ok_count_def)
qed

lemma ok_count_sensor:
  assumes "dt_invar t" and "d < length (devices t)"
  shows "ok_count (dt_record_sensor d sq temp humid now t) =
    (ok_count t)(dev_id (devices t ! d) := ok_count t (dev_id (devices t ! d)) + 1)"
  using ok_count_upd [OF assms] ok_count_device [OF assms] by (simp add: dt_record_sensor_def Let_def)

lemma ok_count_bad:
  assumes "dt_invar t" and "\<And>d. dv = Some d \<Longrightarrow> d < length (devices t)"
  shows "ok_count (dt_record_bad dv t) = ok_count t"
proof (cases dv)
  case (Some d)
  with assms(2) have d: "d < length (devices t)" by simp
  show ?thesis using ok_count_upd [OF assms(1) d] ok_count_device [OF assms(1) d] Some
    by (simp add: dt_record_bad_def fun_upd_idem)
qed (simp add: dt_record_bad_def)

lemma ok_count_get:
  assumes "dt_invar t" and "dt_get_or_create ok now i sid t = (d, t')"
  shows "ok_count t' = ok_count t" "dom (dt_map t) \<subseteq> dom (dt_map t')"
proof -
  note eff = reg.get_effect [OF assms]
  have "ok_count t' j = ok_count t j" for j
    using eff by (cases "j = i") (auto simp: ok_count_def new_device_def split: option.splits if_splits)
  then show "ok_count t' = ok_count t" by (simp add: fun_eq_iff)
  show "dom (dt_map t) \<subseteq> dom (dt_map t')"
  proof
    fix j
    assume "j \<in> dom (dt_map t)"
    then show "j \<in> dom (dt_map t')" using eff by (cases "j = i") (auto simp: domIff split: option.splits if_splits)
  qed
qed

lemma ok_count_touch:
  assumes "dt_invar t"
  shows "ok_count (dt_touch ok clock i now t) = ok_count t" "dom (dt_map t) \<subseteq> dom (dt_map (dt_touch ok clock i now t))"
  using dt_touch_effect [OF assms, of ok clock i now]
  by (auto simp: ok_count_def new_device_def fun_eq_iff split: option.splits if_splits)

lemma ok_count_sweep:
  assumes "dt_invar t"
  shows "ok_count (dt_sweep_offline now timeout_s t) = ok_count t" "dom (dt_map (dt_sweep_offline now timeout_s t)) = dom (dt_map t)"
proof -
  have "packets_ok (sweep_device now timeout_s v) = packets_ok v" for v by (simp add: sweep_device_def)
  then show "ok_count (dt_sweep_offline now timeout_s t) = ok_count t"
    "dom (dt_map (dt_sweep_offline now timeout_s t)) = dom (dt_map t)"
    by (auto simp: ok_count_def dt_sweep_map [OF assms] fun_eq_iff split: option.splits)
qed

lemma dom_sensor: "dt_invar t \<Longrightarrow> dom (dt_map (dt_record_sensor d sq temp humid now t)) = dom (dt_map t)"
  using dt_record_sensor_addr [of t d sq temp humid now] by (auto simp: dt_map_def dom_def)

lemma dom_bad: "dt_invar t \<Longrightarrow> dom (dt_map (dt_record_bad dv t)) = dom (dt_map t)"
  using dt_record_bad_addr [of t dv] by (auto simp: dt_map_def dom_def)

subsection \<open>The round\<close>

text \<open>
  A round ends before the dispatch with the shared state as it was or with a bad packet counted,
  or it is the dispatch of a packet on the state in which the round began, but for the
  worker's buffer and idle count.
\<close>

definition worker_eq :: "worker \<Rightarrow> worker \<Rightarrow> bool" where
  "worker_eq w w' \<longleftrightarrow> w_state w' = w_state w \<and> w_session w' = w_session w \<and> w_dev w' = w_dev w"

lemma check_cases:
  "check_framing host h (w, s, c) = (Proceed, w, s, c) \<or>
     (\<exists>out s1. out \<noteq> Proceed \<and> check_framing host h (w, s, c) =
        (out, w\<lparr>strikes := strikes w + 1\<rparr>, s1, c\<lparr>dtable := dt_record_bad (w_dev w) (dtable c)\<rparr>))"
  "check_payload host h (w, s, c) = (Proceed, w, s, c) \<or>
     (\<exists>out s1. out \<noteq> Proceed \<and> check_payload host h (w, s, c) =
        (out, w\<lparr>strikes := strikes w + 1\<rparr>, s1, c\<lparr>dtable := dt_record_bad (w_dev w) (dtable c)\<rparr>))"
  by (auto simp: check_framing_def check_payload_def strike_out_def bad_packet_def)

lemma read_payload_cases:
  "\<exists>out w1 s1. read_payload h (w, s, c) = (out, w1, s1, c) \<and> worker_eq w w1 \<and> out \<in> {Proceed, Leave}"
  by (auto simp: read_payload_def Let_def worker_eq_def split: prod.split)

lemma on_header_cases:
  assumes "on_header host env h (w, s, c) = (out, w', s', c')"
  shows "worker_eq w w' \<and> (c' = c \<or> c' = c\<lparr>dtable := dt_record_bad (w_dev w) (dtable c)\<rparr>) \<or>
    (\<exists>w1 s1. worker_eq w w1 \<and> dispatch host env h (w1, s1, c) = (out, w', s', c'))"
proof (cases "check_framing host h (w, s, c) = (Proceed, w, s, c)")
  case False
  then obtain out1 s1 where "out1 \<noteq> Proceed" "check_framing host h (w, s, c) =
      (out1, w\<lparr>strikes := strikes w + 1\<rparr>, s1, c\<lparr>dtable := dt_record_bad (w_dev w) (dtable c)\<rparr>)"
    using check_cases(1) by blast
  with assms show ?thesis by (auto simp: on_header_def worker_eq_def)
next
  case True
  obtain out1 w1 s1 where rp: "read_payload h (w, s, c) = (out1, w1, s1, c)" "worker_eq w w1" "out1 \<in> {Proceed, Leave}"
    using read_payload_cases by blast
  show ?thesis
  proof (cases "out1 = Proceed \<and> check_payload host h (w1, s1, c) = (Proceed, w1, s1, c)")
    case go: True
    with assms True rp show ?thesis by (auto simp: on_header_def)
  next
    case stop: False
    show ?thesis
    proof (cases "out1 = Proceed")
      case ck: True
      with stop obtain out2 s2 where "out2 \<noteq> Proceed" "check_payload host h (w1, s1, c) =
          (out2, w1\<lparr>strikes := strikes w1 + 1\<rparr>, s2, c\<lparr>dtable := dt_record_bad (w_dev w1) (dtable c)\<rparr>)"
        using check_cases(2) by blast
      with assms True rp ck show ?thesis by (auto simp: on_header_def worker_eq_def)
    next
      case False
      with assms True rp show ?thesis by (auto simp: on_header_def)
    qed
  qed
qed

lemma worker_iter_cases:
  assumes "worker_iter host env (w, s, c) = (out, w', s', c')"
  shows "worker_eq w w' \<and> (c' = c \<or> c' = c\<lparr>dtable := dt_record_bad (w_dev w) (dtable c)\<rparr>) \<or>
    (\<exists>h w1 s1. worker_eq w w1 \<and> dispatch host env h (w1, s1, c) = (out, w', s', c'))"
proof -
  obtain r buf s1 where r: "read_n PL_HDR_SIZE (replicate PL_HDR_SIZE 0) s = (r, buf, s1)"
    by (cases "read_n PL_HDR_SIZE (replicate PL_HDR_SIZE 0) s")
  show ?thesis
  proof (cases "r = Inr PL_HDR_SIZE")
    case True
    with r assms have "on_header host env (pl_parse_header host buf) (w\<lparr>idle_ticks := 0\<rparr>, s1, c) = (out, w', s', c')"
      by (simp add: worker_iter_header)
    from on_header_cases [OF this] show ?thesis by (auto simp: worker_eq_def)
  next
    case False
    with r assms show ?thesis by (cases r) (auto simp: worker_iter_err worker_iter_short worker_eq_def split: if_splits)
  qed
qed

lemma save_frame_frame [simp]:
  "sink_st (save_frame env i img c) = sink_st c" "next_session (save_frame env i img c) = next_session c"
  by (simp_all add: save_frame_def Let_def split: option.split prod.split)

lemma hello_effect:
  assumes "dt_invar (dtable c)" and "w_state w = WAIT_HELLO" and "on_wait_hello host env h (w, s, c) = (out, w', s', c')"
  shows "quiet (w, s, c) (w', s', c') \<or> said_hello out (w, s, c) (w', s', c')"
proof -
  obtain d t where g: "dt_get_or_create (e_calloc_dev env) (e_time env) (h_device_id h) (next_session c) (dtable c) = (d, t)"
    by (cases "dt_get_or_create (e_calloc_dev env) (e_time env) (h_device_id h) (next_session c) (dtable c)")
  note cnt = ok_count_get [OF assms(1) g]
  show ?thesis
  proof (cases "h_type h = pkt_code PKT_HELLO")
    case False
    with assms(3) have "w' = w" "c' = c" by (auto simp: on_wait_hello_def)
    then show ?thesis by (simp add: quiet_def worker_same_def)
  next
    case True
    with assms(2,3) cnt have "said_hello out (w, s, c) (w', s', c')"
      by (auto simp: on_wait_hello_def said_hello_def g Let_def split: prod.split_asm if_split_asm)
    then show ?thesis ..
  qed
qed

lemma sensor_effect:
  assumes "dt_invar (dtable c)" and "\<And>d. w_dev w = Some d \<Longrightarrow> d < length (devices (dtable c))"
    and "on_sensor host env h (w, s, c) = (out, w', s', c')"
  shows "quiet (w, s, c) (w', s', c') \<or> (\<exists>i r. wrote_record i r (w, s, c) (w', s', c'))"
proof (cases "w_dev w")
  case None
  with assms(3) show ?thesis by (simp add: on_sensor_def quiet_def worker_same_def Let_def)
next
  case (Some d)
  note t = assms(1) assms(2) [OF Some]
  let ?i = "dev_id (devices (dtable c) ! d)"
  from Some assms(3) obtain sq temp hum r where
    "c' = c\<lparr>dtable := dt_record_sensor d sq temp hum (e_time env) (dtable c), sink_st := snd (write_record (ctx_sink c) r (sink_st c))\<rparr>"
    "worker_same w w'" by (auto simp: on_sensor_def Let_def worker_same_def)
  then have "wrote_record ?i r (w, s, c) (w', s', c')"
    using ok_count_sensor [OF t] ok_count_device(2) [OF t] dom_sensor [OF t(1)] Some t
    by (simp add: wrote_record_def dt_addr_Some)
  then show ?thesis by blast
qed

lemma bad_quiet:
  assumes "dt_invar (dtable c)" and "\<And>d. w_dev w = Some d \<Longrightarrow> d < length (devices (dtable c))" and "worker_same w w'"
  shows "quiet (w, s, c) (w', s', c\<lparr>dtable := dt_record_bad (w_dev w) (dtable c)\<rparr>)"
  using ok_count_bad [OF assms(1,2)] dom_bad [OF assms(1)] assms(3) by (simp add: quiet_def)

lemma dispatch_effect:
  assumes "dt_invar (dtable c)" and "\<And>d. w_dev w = Some d \<Longrightarrow> d < length (devices (dtable c))"
    and "dispatch host env h (w, s, c) = (out, w', s', c')"
  shows "quiet (w, s, c) (w', s', c') \<or> said_hello out (w, s, c) (w', s', c') \<or> (\<exists>i r. wrote_record i r (w, s, c) (w', s', c'))"
proof -
  have frame: ?thesis if "on_frame host env h (w, s, c) = (out, w', s', c')" "w_state w \<noteq> WAIT_HELLO"
  proof -
    have "worker_same w w' \<and> (c' = c\<lparr>dtable := dt_record_bad (w_dev w) (dtable c)\<rparr> \<or> c' = c \<or> (\<exists>i img. c' = save_frame env i img c))"
      using that by (auto simp: on_frame_def bad_packet_def Let_def worker_same_def split: prod.split_asm if_split_asm)
    then show ?thesis
    proof (elim conjE disjE exE)
      assume "worker_same w w'" "c' = c\<lparr>dtable := dt_record_bad (w_dev w) (dtable c)\<rparr>"
      then show ?thesis using bad_quiet [OF assms(1,2)] by simp
    qed (simp_all add: quiet_def)
  qed
  have other: ?thesis if "on_other host h (w, s, c) = (out, w', s', c')" "w_state w \<noteq> WAIT_HELLO"
  proof -
    have "worker_same w w' \<and> c' = c\<lparr>dtable := dt_record_bad (w_dev w) (dtable c)\<rparr>"
      using that by (auto simp: on_other_def bad_packet_def Let_def worker_same_def split: if_split_asm)
    then show ?thesis using bad_quiet [OF assms(1,2)] by blast
  qed
  have again: ?thesis if "(Next, w, s, c) = (out, w', s', c')" using that by (auto simp: quiet_def worker_same_def)
  consider "w_state w = WAIT_HELLO" "on_wait_hello host env h (w, s, c) = (out, w', s', c')"
    | "on_sensor host env h (w, s, c) = (out, w', s', c')"
    | "on_frame host env h (w, s, c) = (out, w', s', c')" "w_state w \<noteq> WAIT_HELLO"
    | "(Next, w, s, c) = (out, w', s', c')" | "on_other host h (w, s, c) = (out, w', s', c')" "w_state w \<noteq> WAIT_HELLO"
    using assms(3) unfolding dispatch_def by (auto split: if_split_asm)
  then show ?thesis
  proof cases
    case 1
    from hello_effect [OF assms(1) this] show ?thesis by blast
  next
    case 2
    from sensor_effect [OF assms(1,2) this] show ?thesis by blast
  next
    case 3
    then show ?thesis by (rule frame)
  next
    case 4
    then show ?thesis by (rule again)
  next
    case 5
    then show ?thesis by (rule other)
  qed
qed

lemma round_account:
  assumes "dt_invar (dtable c)" and "\<And>d. w_dev w = Some d \<Longrightarrow> d < length (devices (dtable c))"
    and "worker_iter host env (w, s, c) = (out, w', s', c')"
  shows "quiet (w, s, c) (w', s', c') \<or> said_hello out (w, s, c) (w', s', c') \<or> (\<exists>i r. wrote_record i r (w, s, c) (w', s', c'))"
  using worker_iter_cases [OF assms(3)]
proof (elim disjE conjE exE)
  assume "worker_eq w w'" "c' = c"
  then show ?thesis by (simp add: quiet_def worker_eq_def worker_same_def)
next
  assume "worker_eq w w'" "c' = c\<lparr>dtable := dt_record_bad (w_dev w) (dtable c)\<rparr>"
  then show ?thesis using bad_quiet [OF assms(1,2), where w' = w'] by (simp add: worker_eq_def worker_same_def)
next
  fix h w1 s1
  assume w1: "worker_eq w w1" and d: "dispatch host env h (w1, s1, c) = (out, w', s', c')"
  have "\<And>d. w_dev w1 = Some d \<Longrightarrow> d < length (devices (dtable c))" using w1 assms(2) by (simp add: worker_eq_def)
  from dispatch_effect [OF assms(1) this d] w1 show ?thesis
    by (simp add: quiet_def said_hello_def wrote_record_def worker_eq_def worker_same_def)
qed

section \<open>Accounting\<close>

text \<open>
  \<open>hist\<close> is the sequence of records handed to the sink, each with the device of the session that
  wrote it.
\<close>

definition accounted :: "'s sink \<Rightarrow> 's \<Rightarrow> (u32 \<times> sensor_record) list \<Rightarrow> 's server_ctx \<Rightarrow> bool" where
  "accounted sk st0 hist c \<longleftrightarrow> ctx_sink c = sk \<and> sink_st c = sink_writes sk (map snd hist) st0 \<and>
     set (map fst hist) \<subseteq> dom (dt_map (dtable c)) \<and> (\<forall>i. ok_count (dtable c) i = of_nat (count_list (map fst hist) i))"

lemma accounted_sink: "accounted sk st0 hist c \<Longrightarrow> sink_st c = sink_writes sk (map snd hist) st0"
  by (simp add: accounted_def)

lemma accounted_counters:
  "accounted sk st0 hist c \<Longrightarrow> dt_map (dtable c) i = Some v \<Longrightarrow> packets_ok v = of_nat (count_list (map fst hist) i)"
  by (auto simp: accounted_def ok_count_def dest: spec [of _ i])

lemma accounted_quiet:
  assumes "accounted sk st0 hist c" and "ctx_sink c' = ctx_sink c" and "sink_st c' = sink_st c"
    and "ok_count (dtable c') = ok_count (dtable c)" and "dom (dt_map (dtable c)) \<subseteq> dom (dt_map (dtable c'))"
  shows "accounted sk st0 hist c'"
proof -
  have "set (map fst hist) \<subseteq> dom (dt_map (dtable c'))" using assms(1,5) unfolding accounted_def by (blast intro: subset_trans)
  with assms show ?thesis by (simp add: accounted_def)
qed

lemma count_list_snoc: "count_list (xs @ [y]) x = count_list xs x + (if x = y then 1 else 0)"
  by (induction xs) auto

lemma accounted_record:
  assumes "accounted sk st0 hist c" and "ctx_sink c' = ctx_sink c" and "sink_st c' = snd (write_record (ctx_sink c) r (sink_st c))"
    and "i \<in> dom (dt_map (dtable c))" and "dom (dt_map (dtable c)) \<subseteq> dom (dt_map (dtable c'))"
    and "ok_count (dtable c') = (ok_count (dtable c))(i := ok_count (dtable c) i + 1)"
  shows "accounted sk st0 (hist @ [(i, r)]) c'"
proof -
  have "set (map fst (hist @ [(i, r)])) \<subseteq> dom (dt_map (dtable c'))"
    using assms(1,4,5) unfolding accounted_def by (simp add: subset_iff)
  moreover have "ok_count (dtable c') j = of_nat (count_list (map fst (hist @ [(i, r)])) j)" for j
    using assms(1,6) by (simp add: accounted_def count_list_snoc del: count_list_append)
  ultimately show ?thesis using assms(1-3) by (simp add: accounted_def sink_writes_def)
qed

lemma accounted_round:
  assumes "accounted sk st0 hist c" and "ctx_same c c'" and "dt_invar (dtable c)"
    and "\<And>d. w_dev w = Some d \<Longrightarrow> d < length (devices (dtable c))" and "worker_iter host env (w, s, c) = (out, w', s', c')"
  shows "\<exists>new. length new \<le> 1 \<and> accounted sk st0 (hist @ new) c' \<and>
    (\<forall>i \<in> set (map fst new). \<exists>d. w_dev w = Some d \<and> dt_addr (dtable c) i = Some d)"
proof -
  have sk: "ctx_sink c' = ctx_sink c" using assms(2) by (simp add: ctx_same_def)
  from round_account [OF assms(3-5)] consider "quiet (w, s, c) (w', s', c') \<or> said_hello out (w, s, c) (w', s', c')"
    | i r where "wrote_record i r (w, s, c) (w', s', c')" by blast
  then show ?thesis
  proof cases
    case 1
    then have "accounted sk st0 (hist @ []) c'"
      using accounted_quiet [OF assms(1) sk] by (auto simp: quiet_def said_hello_def)
    then show ?thesis by (intro exI [of _ "[]"]) simp
  next
    case (2 i r)
    then have "accounted sk st0 (hist @ [(i, r)]) c'" "\<exists>d. w_dev w = Some d \<and> dt_addr (dtable c) i = Some d"
      using accounted_record [OF assms(1) sk] by (auto simp: wrote_record_def)
    then show ?thesis by (intro exI [of _ "[(i, r)]"]) simp
  qed
qed

lemma running_worker:
  assumes "server_inv S" and "sy_workers S fd = Some (Running w s)"
  shows "\<And>d. w_dev w = Some d \<Longrightarrow> d < length (devices (dtable (sy_ctx S)))"
  using assms by (auto simp: server_inv_def workers_ok_def worker_ok_def)

text \<open>A worker is connected whose session was opened for device \<open>i\<close>.\<close>

definition in_session :: "'s server_sys \<Rightarrow> u32 \<Rightarrow> bool" where
  "in_session S i \<longleftrightarrow> (\<exists>fd w s d. sy_workers S fd = Some (Running w s) \<and> w_dev w = Some d \<and>
     dt_addr (dtable (sy_ctx S)) i = Some d)"

text \<open>Every step of the server appends at most one record to the history, for a device in session.\<close>

lemma server_step_accounted:
  assumes "server_step host S T" and inv: "server_inv S" and acc: "accounted sk st0 hist (sy_ctx S)"
  shows "\<exists>new. length new \<le> 1 \<and> accounted sk st0 (hist @ new) (sy_ctx T) \<and> (\<forall>i \<in> set (map fst new). in_session S i)"
proof -
  note dt = inv_invar [OF inv]
  have none: ?thesis if "accounted sk st0 hist (sy_ctx T)" using that by (intro exI [of _ "[]"]) simp
  have same: ?thesis if "ctx_sink (sy_ctx T) = ctx_sink (sy_ctx S)" "sink_st (sy_ctx T) = sink_st (sy_ctx S)" "dtable (sy_ctx T) = dtable (sy_ctx S)"
    by (rule none, rule accounted_quiet [OF acc]) (simp_all add: that)
  from assms(1) show ?thesis
  proof cases
    case (Reject env c')
    then show ?thesis using tcp_iter_effect [of env "sy_ctx S" Next c' None] same by simp
  next
    case (Spawn env c' fd s)
    then show ?thesis using tcp_iter_effect [of env "sy_ctx S" Next c' "Some fd"] same by simp
  next
    case (Round fd w s env w' s' c')
    from accounted_round [OF acc round_effect(2) [OF inv Round(2,4-6)] dt running_worker [OF inv Round(2)] Round(6)]
    obtain new where "length new \<le> 1" "accounted sk st0 (hist @ new) c'" "\<forall>i \<in> set (map fst new). in_session S i"
      using Round(2) unfolding in_session_def by blast
    then show ?thesis using Round(1) by (intro exI [of _ new]) simp
  next
    case (Finish fd w s env w' s' c')
    from accounted_round [OF acc round_effect(2) [OF inv Finish(2,4-6)] dt running_worker [OF inv Finish(2)] Finish(6)]
    obtain new where "length new \<le> 1" "accounted sk st0 (hist @ new) c'" "\<forall>i \<in> set (map fst new). in_session S i"
      using Finish(2) unfolding in_session_def by blast
    moreover from this(2) have "accounted sk st0 (hist @ new) (worker_exit fd c')"
      by (rule accounted_quiet) (simp_all add: worker_exit_def)
    ultimately show ?thesis using Finish(1) by (intro exI [of _ new]) simp
  next
    case (Datagram calloc_ok clock now received)
    have "accounted sk st0 hist (udp_listener_iter host calloc_ok clock now received (sy_ctx S))"
      by (rule accounted_quiet [OF acc])
        (use ok_count_touch [OF dt] in \<open>simp_all add: udp_listener_iter_def split: sum.split option.split\<close>)
    then show ?thesis using none Datagram by simp
  next
    case (Tick now n c' out)
    then have "ctx_sink c' = ctx_sink (sy_ctx S)" "sink_st c' = sink_st (sy_ctx S)"
      "dtable c' \<in> {dtable (sy_ctx S), dt_sweep_offline now HEARTBEAT_TIMEOUT_S (dtable (sy_ctx S))}"
      by (auto simp: reaper_tick_def Let_def split: if_split_asm)
    then have "accounted sk st0 hist c'"
      by (intro accounted_quiet [OF acc]) (elim insertE; simp add: ok_count_sweep [OF dt])+
    then show ?thesis using none Tick by simp
  qed (rule same; simp add: tcp_listener_stop_def worker_enter_def worker_exit_def on_stop_def on_dump_def)+
qed

lemma server_reach_accounted:
  assumes "server_reach host S T" and "server_inv S" and "accounted sk st0 [] (sy_ctx S)"
  shows "\<exists>hist. accounted sk st0 hist (sy_ctx T)"
  using assms
proof (induction rule: server_reach.induct)
  case (Step S T U)
  then obtain hist where "accounted sk st0 hist (sy_ctx T)" by blast
  from server_step_accounted [OF Step.hyps(2) server_reach_inv [OF Step.hyps(1) Step.prems(1)] this] show ?case by blast
qed blast

lemma sys_init_accounted: "accounted sk st0 [] (sy_ctx (sys_init os sk st0 fd))"
  using dt_init_invar [of "\<lparr>devices = [], buckets = [], device_count = 0\<rparr>"]
  by (simp add: accounted_def sys_init_def server_init_def sink_writes_def ok_count_def)

text \<open>Summed over the table, the counters are the length of the history.\<close>

lemma sum_one:
  "x \<notin> set ids \<Longrightarrow> sum_list (map (\<lambda>i. if i = x then 1 else 0 :: u64) ids) = 0"
  "distinct ids \<Longrightarrow> x \<in> set ids \<Longrightarrow> sum_list (map (\<lambda>i. if i = x then 1 else 0 :: u64) ids) = 1"
proof -
  show none: "x \<notin> set ids \<Longrightarrow> sum_list (map (\<lambda>i. if i = x then 1 else 0 :: u64) ids) = 0" for ids by (induction ids) auto
  show "distinct ids \<Longrightarrow> x \<in> set ids \<Longrightarrow> sum_list (map (\<lambda>i. if i = x then 1 else 0 :: u64) ids) = 1"
    by (induction ids) (auto simp: none)
qed

lemma sum_counts:
  assumes "distinct ids" and "set xs \<subseteq> set ids"
  shows "sum_list (map (\<lambda>i. of_nat (count_list xs i) :: u64) ids) = of_nat (length xs)"
  using assms(2)
proof (induction xs)
  case (Cons x xs)
  have "sum_list (map (\<lambda>i. if i = x then 1 else 0 :: u64) ids) = 1"
    by (rule sum_one) (use assms(1) Cons.prems in simp_all)
  moreover have "map (\<lambda>i. of_nat (count_list (x # xs) i) :: u64) ids =
      map (\<lambda>i. of_nat (count_list xs i) + (if i = x then 1 else 0)) ids" by auto
  ultimately show ?case using Cons by (simp only: sum_list_addf) simp
qed simp

section \<open>Session numbers\<close>

text \<open>A worker past its handshake holds a session.\<close>

definition live_session :: "(int \<Rightarrow> conn option) \<Rightarrow> int \<Rightarrow> u32 \<Rightarrow> bool" where
  "live_session W fd sid \<longleftrightarrow> (\<exists>w s. W fd = Some (Running w s) \<and> w_state w \<noteq> WAIT_HELLO \<and> w_session w = sid)"

text \<open>After \<open>n\<close> steps; the counter starts at 1.\<close>

definition sessions_ok :: "nat \<Rightarrow> 's server_sys \<Rightarrow> bool" where
  "sessions_ok n S \<longleftrightarrow> 0 < unat (next_session (sy_ctx S)) \<and> unat (next_session (sy_ctx S)) \<le> Suc n \<and>
     (\<forall>fd sid. live_session (sy_workers S) fd sid \<longrightarrow> 0 < unat sid \<and> unat sid < unat (next_session (sy_ctx S))) \<and>
     (\<forall>fd fd' sid. live_session (sy_workers S) fd sid \<and> live_session (sy_workers S) fd' sid \<longrightarrow> fd = fd')"

lemma unat_next: "unat (x :: u32) + 1 < 2 ^ 32 \<Longrightarrow> unat (x + 1) = unat x + 1"
  by (simp add: unat_word_ariths)

lemma sessions_fewer:
  assumes "sessions_ok n S" and "Suc n + 1 < 2 ^ 32" and "next_session (sy_ctx T) \<in> {next_session (sy_ctx S), next_session (sy_ctx S) + 1}"
    and "\<And>fd sid. live_session (sy_workers T) fd sid \<Longrightarrow> live_session (sy_workers S) fd sid"
  shows "sessions_ok (Suc n) T"
proof -
  have "unat (next_session (sy_ctx S) + 1) = unat (next_session (sy_ctx S)) + 1"
    by (rule unat_next) (use assms(1,2) in \<open>simp add: sessions_ok_def\<close>)
  then have "unat (next_session (sy_ctx S)) \<le> unat (next_session (sy_ctx T))" "unat (next_session (sy_ctx T)) \<le> unat (next_session (sy_ctx S)) + 1"
    using assms(3) by auto
  then show ?thesis using assms(1,4) unfolding sessions_ok_def by (fastforce dest: assms(4))
qed

lemma sessions_new:
  assumes "sessions_ok n S" and "Suc n + 1 < 2 ^ 32" and "next_session (sy_ctx T) = next_session (sy_ctx S) + 1"
    and "\<And>fd' sid. live_session (sy_workers T) fd' sid \<Longrightarrow> fd' \<noteq> fd \<Longrightarrow> live_session (sy_workers S) fd' sid"
    and "\<And>sid. live_session (sy_workers T) fd sid \<Longrightarrow> sid = next_session (sy_ctx S)"
  shows "sessions_ok (Suc n) T"
proof -
  let ?n = "next_session (sy_ctx S)"
  have next1: "unat (next_session (sy_ctx T)) = unat ?n + 1"
    unfolding assms(3) by (rule unat_next) (use assms(1,2) in \<open>simp add: sessions_ok_def\<close>)
  have old: "live_session (sy_workers T) fd' sid \<Longrightarrow> fd' \<noteq> fd \<Longrightarrow> 0 < unat sid \<and> unat sid < unat ?n" for fd' sid
    using assms(1,4) unfolding sessions_ok_def by blast
  have range: "0 < unat sid \<and> unat sid < unat (next_session (sy_ctx T))" if "live_session (sy_workers T) fd' sid" for fd' sid
    using that old [OF that] assms(5) [of sid] assms(1) by (cases "fd' = fd") (auto simp: next1 sessions_ok_def)
  have "fd1 = fd2" if "live_session (sy_workers T) fd1 sid" "live_session (sy_workers T) fd2 sid" for fd1 fd2 sid
  proof (cases "sid = ?n")
    case True
    with old [OF that(1)] old [OF that(2)] show ?thesis by auto
  next
    case False
    then have "fd1 \<noteq> fd" "fd2 \<noteq> fd" using that assms(5) by blast+
    with assms(4) [OF that(1)] assms(4) [OF that(2)] assms(1) show ?thesis unfolding sessions_ok_def by blast
  qed
  with range next1 assms(1) show ?thesis unfolding sessions_ok_def by auto
qed

lemma live_session_upd:
  "live_session (W(fd := x)) fd' sid \<longleftrightarrow>
     (if fd' = fd then \<exists>w s. x = Some (Running w s) \<and> w_state w \<noteq> WAIT_HELLO \<and> w_session w = sid else live_session W fd' sid)"
  by (simp add: live_session_def)

lemma round_sessions:
  assumes "sessions_ok n S" and "Suc n + 1 < 2 ^ 32" and "server_inv S" and "sy_workers S fd = Some (Running w s)"
    and "worker_iter host env (w, s, sy_ctx S) = (Next, w', s', c')"
  shows "sessions_ok (Suc n) (S\<lparr>sy_ctx := c', sy_workers := (sy_workers S)(fd \<mapsto> Running w' s')\<rparr>)"
    (is "sessions_ok _ ?T")
proof -
  have keep: "sessions_ok (Suc n) ?T" if "worker_same w w'" "next_session c' = next_session (sy_ctx S)"
  proof (rule sessions_fewer [OF assms(1,2)])
    show "next_session (sy_ctx ?T) \<in> {next_session (sy_ctx S), next_session (sy_ctx S) + 1}" using that by simp
    show "live_session (sy_workers S) fd' sid" if "live_session (sy_workers ?T) fd' sid" for fd' sid
      using that \<open>worker_same w w'\<close> assms(4) by (auto simp: live_session_def worker_same_def split: if_splits)
  qed
  have hello: "sessions_ok (Suc n) ?T" if "said_hello Next (w, s, sy_ctx S) (w', s', c')"
    by (rule sessions_new [OF assms(1,2), of _ fd])
      (use that in \<open>auto simp: said_hello_def live_session_upd\<close>)
  from round_account [OF inv_invar [OF assms(3)] running_worker [OF assms(3,4)] assms(5)] show ?thesis
    using keep hello by (auto simp: quiet_def wrote_record_def)
qed

lemma round_next_session:
  assumes "server_inv S" and "sy_workers S fd = Some (Running w s)" and "worker_iter host env (w, s, sy_ctx S) = (out, w', s', c')"
  shows "next_session c' \<in> {next_session (sy_ctx S), next_session (sy_ctx S) + 1}"
  using round_account [OF inv_invar [OF assms(1)] running_worker [OF assms(1,2)] assms(3)]
  by (auto simp: quiet_def said_hello_def wrote_record_def)

lemma server_step_sessions:
  assumes "server_step host S T" and inv: "server_inv S" and ok: "sessions_ok n S" and n: "Suc n + 1 < 2 ^ 32"
  shows "sessions_ok (Suc n) T"
proof -
  note fewer = sessions_fewer [OF ok n]
  have same: "sessions_ok (Suc n) T" if "next_session (sy_ctx T) = next_session (sy_ctx S)" "sy_workers T = sy_workers S"
    by (rule fewer) (simp_all add: that)
  from assms(1) show ?thesis
  proof cases
    case (Reject env c')
    then show ?thesis using tcp_iter_effect [of env "sy_ctx S" Next c' None] same by simp
  next
    case (Spawn env c' fd s)
    then have "next_session c' = next_session (sy_ctx S)" using tcp_iter_effect [of env "sy_ctx S" Next c' "Some fd"] by simp
    with Spawn(1) show ?thesis by (intro fewer) (auto simp: live_session_upd split: if_splits)
  next
    case (Start fd s payload0)
    then show ?thesis by (intro fewer) (auto simp: live_session_upd worker_init_def worker_enter_def split: if_splits)
  next
    case (Round fd w s env w' s' c')
    then show ?thesis using round_sessions [OF ok n inv Round(2,6)] by simp
  next
    case (Finish fd w s env w' s' c')
    from round_next_session [OF inv Finish(2,6)] Finish(1) show ?thesis
      by (intro fewer) (auto simp: live_session_upd worker_exit_def split: if_splits)
  next
    case (Finish_stopped fd w s)
    then show ?thesis by (intro fewer) (auto simp: live_session_upd worker_exit_def split: if_splits)
  next
    case (Datagram calloc_ok clock now received)
    then show ?thesis by (intro same) (simp_all add: udp_listener_iter_def split: sum.split option.split)
  next
    case (Tick now k c' out)
    then have "next_session c' = next_session (sy_ctx S)" by (auto simp: reaper_tick_def Let_def split: if_split_asm)
    with Tick show ?thesis by (intro same) simp_all
  qed (rule same; simp add: tcp_listener_stop_def on_stop_def on_dump_def)+
qed

lemma server_steps_sessions:
  assumes "(server_step host ^^ n) S T" and "server_inv S" and "sessions_ok 0 S" and "n + 1 < 2 ^ 32"
  shows "server_inv T \<and> sessions_ok n T"
  using assms
proof (induction n arbitrary: T)
  case (Suc n)
  from Suc.prems(1) obtain U where U: "(server_step host ^^ n) S U" "server_step host U T" by (auto elim: relpowp_Suc_E)
  with Suc have "server_inv U" "sessions_ok n U" by simp_all
  with U(2) Suc.prems(4) show ?case using server_step_inv server_step_sessions by auto
qed simp

lemma sys_init_sessions: "sessions_ok 0 (sys_init os sk st0 fd)"
  by (simp add: sessions_ok_def live_session_def sys_init_def server_init_def)

section \<open>Two devices connect\<close>

text \<open>A reading, received in a live session.\<close>

lemma sensor_round:
  assumes "rx_bytes (rx s) = wire_packet PKT_SENSOR i (sensor_bytes x) @ rest" and "length (w_payload w) = PL_MAX_PAYLOAD"
    and "w_state w = ACTIVE" and "w_dev w = Some d" and "txs s = []"
  shows "\<exists>w' s' c'. worker_iter host env (w, s, c) = (Next, w', s', c') \<and>
    sink_st c' = snd (write_record (ctx_sink c) (reading_record i env x) (sink_st c)) \<and>
    dtable c' = dt_record_sensor d (s_seq x) (s_temperature x) (s_humidity x) (e_time env) (dtable c)"
proof -
  have len: "length (sensor_bytes x) \<le> PL_MAX_PAYLOAD" by (simp add: pl_consts)
  obtain es where es: "worker_iter host env (w, s, c) = dispatch host env (wire_header PKT_SENSOR i (sensor_bytes x))
      (w\<lparr>idle_ticks := 0, w_payload := sensor_bytes x @ drop (length (sensor_bytes x)) (w_payload w)\<rparr>, s\<lparr>rx := es\<rparr>, c)"
    by (rule worker_iter_packet [OF assms(1) len assms(2)])
  show ?thesis
    unfolding es
    by (subst dispatch_sensor [where d = d and n = "unat (sensor_count w)" and x = x and i = i])
      (use assms in \<open>simp_all add: wire_header_def\<close>)
qed

text \<open>A possibility: from a server that listens and has a free slot, three steps lead to one with a further session.\<close>

lemma device_connects:
  assumes "sy_listening S" and "running (sy_ctx S)" and "fd \<notin> open_fds (sy_ctx S)" and "0 < client_slots (sy_ctx S)"
    and "server_inv S"
  obtains T w s where "(server_step host ^^ 3) S T" and "sy_workers T = (sy_workers S)(fd \<mapsto> Running w s)"
    and "w_state w = ACTIVE" and "w_dev w \<noteq> None" and "length (w_payload w) = PL_MAX_PAYLOAD"
    and "rx_bytes (rx s) = rest" and "txs s = []" and "sy_listening T" and "running (sy_ctx T)"
    and "open_fds (sy_ctx T) = insert fd (open_fds (sy_ctx S))" and "client_slots (sy_ctx T) = client_slots (sy_ctx S) - 1"
    and "ctx_sink (sy_ctx T) = ctx_sink (sy_ctx S)" and "sink_st (sy_ctx T) = sink_st (sy_ctx S)"
proof -
  define s0 :: sock where "s0 = \<lparr>rx = [RxData (wire_packet PKT_HELLO 7 [] @ rest)], txs = [], tx_out = []\<rparr>"
  define w0 where "w0 = worker_init (replicate PL_MAX_PAYLOAD 0)"
  define c1 where "c1 = (sy_ctx S)\<lparr>open_fds := insert fd (open_fds (sy_ctx S)), client_slots := client_slots (sy_ctx S) - 1\<rparr>"
  define S1 where "S1 = S\<lparr>sy_ctx := c1, sy_workers := (sy_workers S)(fd \<mapsto> Spawned s0)\<rparr>"
  define S2 where "S2 = S1\<lparr>sy_ctx := worker_enter (sy_ctx S1), sy_workers := (sy_workers S1)(fd \<mapsto> Running w0 s0)\<rparr>"
  let ?env = "accept_five\<lparr>a_accept := Inr fd\<rparr>"
  have acc: "tcp_listener_iter ?env (sy_ctx S) = (Next, c1, Some fd)"
    using assms(4) by (simp add: tcp_listener_iter_def accept_five_def c1_def Let_def)
  have 1: "server_step host S S1"
    unfolding S1_def by (rule server_step.Spawn [OF assms(1,2) _ acc]) (use assms(3) in simp)
  have 2: "server_step host S1 S2"
    unfolding S2_def w0_def by (rule server_step.Start) (simp_all add: S1_def)
  have dt: "dt_invar (dtable (sy_ctx S2))" using inv_invar [OF assms(5)] by (simp add: S2_def S1_def c1_def worker_enter_def)
  obtain d t where g: "dt_get_or_create (e_calloc_dev (demo_env 0)) (e_time (demo_env 0)) 7 (next_session (sy_ctx S2)) (dtable (sy_ctx S2)) = (d, t)"
    by (cases "dt_get_or_create (e_calloc_dev (demo_env 0)) (e_time (demo_env 0)) 7 (next_session (sy_ctx S2)) (dtable (sy_ctx S2))")
  have d: "d \<noteq> None" using get_device_ok(4) [OF dt g] by (simp add: demo_env_def)
  have pre: "rx_bytes (rx s0) = wire_packet PKT_HELLO 7 [] @ rest" "length ([] :: u8 list) \<le> PL_MAX_PAYLOAD"
    "length (w_payload w0) = PL_MAX_PAYLOAD" "w_state w0 = WAIT_HELLO" "txs s0 = []" by (simp_all add: worker_init_def s0_def w0_def)
  define c3 where "c3 = (sy_ctx S2)\<lparr>next_session := next_session (sy_ctx S2) + 1, dtable := t\<rparr>"
  obtain w1 es where hello0: "worker_iter host (demo_env 0) (w0, s0, sy_ctx S2) = (Next, w1,
      s0\<lparr>rx := es, tx_out := tx_out s0 @ wire_packet PKT_HELLO_ACK 7 (mem_u32 BigEndian (next_session (sy_ctx S2)))\<rparr>, c3)"
    and w1: "w_state w1 = ACTIVE" "w_dev w1 = d" "length (w_payload w1) = PL_MAX_PAYLOAD" "rx_bytes es = rest"
    unfolding c3_def by (rule worker_iter_hello [OF pre g])
  define s1 where "s1 = s0\<lparr>rx := es, tx_out := tx_out s0 @ wire_packet PKT_HELLO_ACK 7 (mem_u32 BigEndian (next_session (sy_ctx S2)))\<rparr>"
  have s1: "rx_bytes (rx s1) = rest" "txs s1 = []" using w1(4) pre(5) by (simp_all add: s1_def)
  note hello = hello0 [folded s1_def]
  have 3: "server_step host S2 (S2\<lparr>sy_ctx := c3, sy_workers := (sy_workers S2)(fd \<mapsto> Running w1 s1)\<rparr>)"
    by (rule server_step.Round [OF _ _ _ _ hello])
      (simp_all add: S2_def S1_def c1_def worker_enter_def pre(4) env_ok_def demo_env_def assms(2))
  let ?T = "S2\<lparr>sy_ctx := c3, sy_workers := (sy_workers S2)(fd \<mapsto> Running w1 s1)\<rparr>"
  have "(server_step host ^^ 3) S ?T"
    using 1 2 3 by (auto simp: numeral_3_eq_3 intro: relpowp_Suc_I)
  then show ?thesis
    by (rule that [of ?T w1 s1]) (use w1 s1 d in \<open>simp_all add: S2_def S1_def c1_def c3_def worker_enter_def assms(1,2)\<close>)
qed

text \<open>A live session takes a reading.\<close>

lemma device_reports:
  assumes "sy_workers S fd = Some (Running w s)" and "running (sy_ctx S)" and "w_state w = ACTIVE" and "w_dev w = Some d"
    and "length (w_payload w) = PL_MAX_PAYLOAD" and "txs s = []"
    and "rx_bytes (rx s) = wire_packet PKT_SENSOR i (sensor_bytes x) @ rest" and "env_ok env"
  obtains T where "server_step host S T"
    and "sink_st (sy_ctx T) = snd (write_record (ctx_sink (sy_ctx S)) (reading_record i env x) (sink_st (sy_ctx S)))"
    and "dtable (sy_ctx T) = dt_record_sensor d (s_seq x) (s_temperature x) (s_humidity x) (e_time env) (dtable (sy_ctx S))"
proof -
  obtain w' s' c' where it: "worker_iter host env (w, s, sy_ctx S) = (Next, w', s', c')"
    "sink_st c' = snd (write_record (ctx_sink (sy_ctx S)) (reading_record i env x) (sink_st (sy_ctx S)))"
    "dtable c' = dt_record_sensor d (s_seq x) (s_temperature x) (s_humidity x) (e_time env) (dtable (sy_ctx S))"
    using sensor_round [OF assms(7,5,3,4,6), of host env "sy_ctx S"] by blast
  have "server_step host S (S\<lparr>sy_ctx := c', sy_workers := (sy_workers S)(fd \<mapsto> Running w' s')\<rparr>)"
    by (rule server_step.Round [OF assms(1,2) _ assms(8) it(1)]) (simp add: assms(3))
  then show ?thesis by (rule that) (simp_all add: it(2,3))
qed

section \<open>Properties\<close>

text \<open>
  C4. Table, sink and sessions agree about what was received. In every state the server can
  reach, with any number of connections sending anything in any order, what the sink holds is the
  outcome of writing one sequence of records, each attributed to a device; every device's counter
  of good packets is the number of records attributed to it (modulo \<open>2\<^sup>6\<^sup>4\<close>), and summed over
  the table the counters give the length of the sequence. A further step of any thread extends
  the sequence by at most one record, attributed to a device that has a session at that moment
  and counted for it in the same step, and never rewrites it.
\<close>

theorem server_accounting:
  assumes "server_reach host (sys_init os sk st0 lfd) S"
  shows "\<exists>hist. sink_st (sy_ctx S) = sink_writes sk (map snd hist) st0 \<and>
    (\<forall>i v. dt_map (dtable (sy_ctx S)) i = Some v \<longrightarrow> packets_ok v = of_nat (count_list (map fst hist) i)) \<and>
    sum_list (map packets_ok (devices (dtable (sy_ctx S)))) = of_nat (length hist) \<and>
    (\<forall>T. server_step host S T \<longrightarrow>
       (\<exists>new. length new \<le> 1 \<and> sink_st (sy_ctx T) = sink_writes sk (map snd (hist @ new)) st0 \<and>
          (\<forall>i v. dt_map (dtable (sy_ctx T)) i = Some v \<longrightarrow> packets_ok v = of_nat (count_list (map fst (hist @ new)) i)) \<and>
          (\<forall>i \<in> set (map fst new). in_session S i)))"
proof -
  have inv: "server_inv S" by (rule server_reach_inv [OF assms sys_init_inv])
  obtain hist where acc: "accounted sk st0 hist (sy_ctx S)"
    using server_reach_accounted [OF assms sys_init_inv sys_init_accounted] by blast
  let ?t = "dtable (sy_ctx S)"
  have "map packets_ok (devices ?t) = map (ok_count ?t) (map dev_id (devices ?t))"
    by (rule nth_equalityI) (simp_all add: ok_count_device [OF inv_invar [OF inv]])
  also have "\<dots> = map (\<lambda>i. of_nat (count_list (map fst hist) i)) (map dev_id (devices ?t))"
    using acc by (simp add: accounted_def)
  finally have m: "map packets_ok (devices ?t) = map (\<lambda>i. of_nat (count_list (map fst hist) i)) (map dev_id (devices ?t))" .
  have "distinct (map dev_id (devices ?t))" "set (map fst hist) \<subseteq> set (map dev_id (devices ?t))"
    using acc inv_invar [OF inv] by (simp_all add: accounted_def dom_dt_map dt_invar_def)
  from sum_counts [OF this] have "sum_list (map packets_ok (devices ?t)) = of_nat (length hist)" unfolding m by simp
  moreover have "\<exists>new. length new \<le> 1 \<and> sink_st (sy_ctx T) = sink_writes sk (map snd (hist @ new)) st0 \<and>
      (\<forall>i v. dt_map (dtable (sy_ctx T)) i = Some v \<longrightarrow> packets_ok v = of_nat (count_list (map fst (hist @ new)) i)) \<and>
      (\<forall>i \<in> set (map fst new). in_session S i)" if step: "server_step host S T" for T
  proof -
    obtain new where new: "length new \<le> 1" "accounted sk st0 (hist @ new) (sy_ctx T)" "\<forall>i \<in> set (map fst new). in_session S i"
      using server_step_accounted [OF step inv acc] by blast
    show ?thesis
      by (rule exI [of _ new]) (intro conjI allI impI new accounted_sink [OF new(2)] accounted_counters [OF new(2)])
  qed
  ultimately show ?thesis using accounted_sink [OF acc] accounted_counters [OF acc] by blast
qed

lemma relpowp_reach: "(server_step host ^^ n) S T \<Longrightarrow> server_reach host S T"
proof (induction n arbitrary: T)
  case (Suc n)
  then show ?case by (auto elim!: relpowp_Suc_E intro: server_reach.Step)
qed (simp add: server_reach.Refl)

lemma demo_sys_listens:
  "sy_listening demo_sys" "running (sy_ctx demo_sys)" "open_fds (sy_ctx demo_sys) = {}" "client_slots (sy_ctx demo_sys) = 16"
  "ctx_sink (sy_ctx demo_sys) = sink_ring_log" "sink_st (sy_ctx demo_sys) = sink_st demo_ctx"
  by (simp_all add: demo_sys_def sys_init_def server_init_def default_options_def)

lemma demo_sys_inv: "server_inv demo_sys"
  unfolding demo_sys_def by (rule sys_init_inv)

lemma rl_written_writes: "rl_written (sink_writes sink_ring_log xs g) = rl_written g + of_nat (length xs)"
  by (induction xs arbitrary: g) (simp_all add: sink_writes_def sink_ring_log_def rl_write_def Let_def)

text \<open>One device connects and sends a reading.\<close>

theorem server_accounting_witness:
  "\<exists>S. server_reach LittleEndian demo_sys S \<and> rl_written (sink_st (sy_ctx S)) = 1 \<and>
     sum_list (map packets_ok (devices (dtable (sy_ctx S)))) = 1"
proof -
  let ?p = "wire_packet PKT_SENSOR 7 (sensor_bytes (demo_reading 1))"
  let ?r = "reading_record 7 (demo_env 1) (demo_reading 1)"
  obtain T w s where T: "(server_step LittleEndian ^^ 3) demo_sys T" "sy_workers T = (sy_workers demo_sys)(5 \<mapsto> Running w s)"
    "w_state w = ACTIVE" "w_dev w \<noteq> None" "length (w_payload w) = PL_MAX_PAYLOAD" "rx_bytes (rx s) = ?p" "txs s = []"
    "running (sy_ctx T)" "ctx_sink (sy_ctx T) = sink_ring_log" "sink_st (sy_ctx T) = sink_st demo_ctx"
    by (rule device_connects [OF demo_sys_listens(1,2) _ _ demo_sys_inv, where fd = 5 and rest = ?p])
      (simp_all add: demo_sys_listens)
  obtain d where d: "w_dev w = Some d" using T(4) by blast
  have pkt: "rx_bytes (rx s) = ?p @ []" using T(6) by simp
  have W: "sy_workers T 5 = Some (Running w s)" by (simp add: T(2))
  have env: "env_ok (demo_env 1)" by (simp add: env_ok_def demo_env_def)
  obtain U where U: "server_step LittleEndian T U" "sink_st (sy_ctx U) = sink_writes sink_ring_log [?r] (sink_st demo_ctx)"
    by (rule device_reports [OF W T(8,3) d T(5,7) pkt env]) (simp add: T(9,10) sink_writes_def)
  have reach: "server_reach LittleEndian demo_sys U" by (rule server_reach.Step [OF relpowp_reach [OF T(1)] U(1)])
  obtain hist :: "(u32 \<times> sensor_record) list" where hist: "sink_st (sy_ctx U) = sink_writes sink_ring_log (map snd hist) (sink_st demo_ctx)"
    "sum_list (map packets_ok (devices (dtable (sy_ctx U)))) = of_nat (length hist)"
    using server_accounting [OF reach [unfolded demo_sys_def]] by blast
  have one: "rl_written (sink_st (sy_ctx U)) = 1" unfolding U(2) rl_written_writes by (simp add: demo_ctx_def rl_open_def)
  then have "of_nat (length hist) = (1 :: u64)" unfolding hist(1) rl_written_writes by (simp add: demo_ctx_def rl_open_def)
  with one reach hist(2) show ?thesis by metis
qed

text \<open>
  C14. Session numbers identify connections: among the first \<open>2\<^sup>3\<^sup>2 - 2\<close> steps of the server, no
  two workers that have passed the handshake and are still connected have the same session, and
  none has session 0, the number under which heartbeats register devices.
\<close>

theorem server_sessions_distinct:
  assumes "(server_step host ^^ n) (sys_init os sk st0 lfd) S" and "n + 1 < 2 ^ 32"
    and "sy_workers S fd = Some (Running w s)" and "w_state w \<noteq> WAIT_HELLO"
  shows "w_session w \<noteq> 0 \<and> (\<forall>fd' w' s'. sy_workers S fd' = Some (Running w' s') \<and> w_state w' \<noteq> WAIT_HELLO \<and> fd' \<noteq> fd \<longrightarrow>
    w_session w' \<noteq> w_session w)"
proof -
  have ok: "sessions_ok n S" using server_steps_sessions [OF assms(1) sys_init_inv sys_init_sessions assms(2)] by blast
  have live: "live_session (sy_workers S) fd (w_session w)" using assms(3,4) by (auto simp: live_session_def)
  then have "0 < unat (w_session w)" using ok unfolding sessions_ok_def by blast
  moreover have "w_session w' \<noteq> w_session w"
    if "sy_workers S fd' = Some (Running w' s')" "w_state w' \<noteq> WAIT_HELLO" "fd' \<noteq> fd" for fd' w' s'
  proof -
    have "live_session (sy_workers S) fd' (w_session w')" using that(1,2) by (auto simp: live_session_def)
    with live ok that(3) show ?thesis unfolding sessions_ok_def by metis
  qed
  ultimately show ?thesis by (auto simp: unat_gt_0)
qed

theorem server_sessions_distinct_witness:
  "\<exists>S w s w' s'. (server_step LittleEndian ^^ 6) demo_sys S \<and> sy_workers S 5 = Some (Running w s) \<and>
     sy_workers S 6 = Some (Running w' s') \<and> w_state w = ACTIVE \<and> w_state w' = ACTIVE \<and> w_session w \<noteq> w_session w'"
proof -
  obtain T w s where T: "(server_step LittleEndian ^^ 3) demo_sys T" "sy_workers T = (sy_workers demo_sys)(5 \<mapsto> Running w s)"
    "w_state w = ACTIVE" "sy_listening T" "running (sy_ctx T)" "open_fds (sy_ctx T) = insert 5 (open_fds (sy_ctx demo_sys))"
    "client_slots (sy_ctx T) = client_slots (sy_ctx demo_sys) - 1"
    by (rule device_connects [OF demo_sys_listens(1,2) _ _ demo_sys_inv, where fd = 5 and rest = "[]"])
      (simp_all add: demo_sys_listens)
  have inv: "server_inv T" by (rule server_reach_inv [OF relpowp_reach [OF T(1)] demo_sys_inv])
  obtain U w' s' where U: "(server_step LittleEndian ^^ 3) T U" "sy_workers U = (sy_workers T)(6 \<mapsto> Running w' s')" "w_state w' = ACTIVE"
    by (rule device_connects [OF T(4,5) _ _ inv, where fd = 6 and rest = "[]"]) (simp_all add: T(6,7) demo_sys_listens)
  have steps: "(server_step LittleEndian ^^ 6) demo_sys U"
    using relpowp_trans [OF T(1) U(1)] by simp
  have W: "sy_workers U 5 = Some (Running w s)" "sy_workers U 6 = Some (Running w' s')" by (simp_all add: U(2) T(2))
  have "w_session w \<noteq> w_session w'"
    using server_sessions_distinct [OF steps [unfolded demo_sys_def] _ W(1)] W(2) T(3) U(3) by fastforce
  with steps W T(3) U(3) show ?thesis by blast
qed

text \<open>
  C38. The device a reading is stored under is not checked. A SENSOR packet whose header names
  another device than the session was opened for is recorded in the sink under that other
  device, while the table counts it for the session's own device and learns nothing of the other.
\<close>

theorem client_foreign_device_id:
  assumes "rx_bytes (rx s) = wire_packet PKT_SENSOR i (sensor_bytes x) @ rest" and "length (w_payload w) = PL_MAX_PAYLOAD"
    and "w_state w = ACTIVE" and "w_dev w = Some d" and "txs s = []"
    and "dt_invar (dtable c)" and "dt_addr (dtable c) own = Some d" and "i \<noteq> own"
  shows "\<exists>w' s' c'. worker_iter host env (w, s, c) = (Next, w', s', c') \<and>
    sink_st c' = sink_writes (ctx_sink c) [reading_record i env x] (sink_st c) \<and> device_id (reading_record i env x) = i \<and>
    ok_count (dtable c') own = ok_count (dtable c) own + 1 \<and> dt_map (dtable c') i = dt_map (dtable c) i"
proof -
  obtain w' s' c' where it: "worker_iter host env (w, s, c) = (Next, w', s', c')"
    "sink_st c' = snd (write_record (ctx_sink c) (reading_record i env x) (sink_st c))"
    "dtable c' = dt_record_sensor d (s_seq x) (s_temperature x) (s_humidity x) (e_time env) (dtable c)"
    using sensor_round [OF assms(1-5)] by blast
  have d: "d < length (devices (dtable c))" "dev_id (devices (dtable c) ! d) = own" using assms(6,7) by (simp_all add: dt_addr_Some)
  have "ok_count (dtable c') own = ok_count (dtable c) own + 1"
    unfolding it(3) ok_count_sensor [OF assms(6) d(1)] by (simp add: d(2))
  moreover have "dt_map (dtable c') i = dt_map (dtable c) i"
    using dt_record_sensor_map [OF assms(6,7) dt_map_Some [OF assms(7)]] assms(8) by (simp add: it(3))
  ultimately show ?thesis using it(1,2) by (simp add: sink_writes_def reading_record_def)
qed

theorem client_foreign_device_id_witness:
  "let s = \<lparr>rx = [RxData (wire_packet PKT_SENSOR 9 (sensor_bytes (demo_reading 4)))], txs = [], tx_out = []\<rparr>;
       w = (worker_init (replicate 1100 0))\<lparr>w_state := ACTIVE, w_dev := Some 0\<rparr>; c = demo_ctx\<lparr>dtable := one_table\<rparr> in
   \<exists>w' s' c'. worker_iter LittleEndian (demo_env 0) (w, s, c) = (Next, w', s', c') \<and>
     sink_st c' = sink_writes sink_ring_log [reading_record 9 (demo_env 0) (demo_reading 4)] (sink_st demo_ctx) \<and>
     ok_count (dtable c') 7 = ok_count one_table 7 + 1 \<and> dt_map (dtable c') 9 = dt_map one_table 9"
proof -
  let ?s = "\<lparr>rx = [RxData (wire_packet PKT_SENSOR 9 (sensor_bytes (demo_reading 4)))], txs = [], tx_out = []\<rparr> :: sock"
  let ?w = "(worker_init (replicate 1100 0))\<lparr>w_state := ACTIVE, w_dev := Some 0\<rparr>"
  let ?c = "demo_ctx\<lparr>dtable := one_table\<rparr>"
  have "\<exists>w' s' c'. worker_iter LittleEndian (demo_env 0) (?w, ?s, ?c) = (Next, w', s', c') \<and>
    sink_st c' = sink_writes (ctx_sink ?c) [reading_record 9 (demo_env 0) (demo_reading 4)] (sink_st ?c) \<and>
    device_id (reading_record 9 (demo_env 0) (demo_reading 4)) = 9 \<and>
    ok_count (dtable c') 7 = ok_count (dtable ?c) 7 + 1 \<and> dt_map (dtable c') 9 = dt_map (dtable ?c) 9"
    by (rule client_foreign_device_id [where rest = "[]" and d = 0])
      (simp_all add: worker_init_def pl_consts one_table_invar)
  then show ?thesis by (auto simp: Let_def demo_ctx_def)
qed

end
