(* ===== verification/Fw_Tasks.thy ===== *)
theory Fw_Tasks
  imports Fw_Telemetry Printf "HOL-Library.Signed_Division"
begin

text \<open>
  \<^verbatim>\<open>firmware/pulselink_fw.ino\<close>: the tasks of the device. Its platform (FreeRTOS queues, the Wi-Fi and
  TCP client, the sensor, the clock) is not part of the sources: the queue is a pair of
  functions, parameters of the tasks, and what the other calls return is an argument of the
  round of a task that makes them. A loop that waits consumes one observation per turn; an
  exhausted list of observations means it is still waiting, the result \<open>None\<close>.
\<close>

section \<open>Configuration and shared state\<close>

named_theorems fw_consts

definition DEVICE_ID :: u32 where [fw_consts]: "DEVICE_ID = 0x1001"
definition FW_VERSION :: u32 where [fw_consts]: "FW_VERSION = 0x00010005"
definition CAPABILITIES :: u32 where [fw_consts]: "CAPABILITIES = 0x1"
definition QUEUE_LEN :: nat where [fw_consts]: "QUEUE_LEN = 16"
definition BACKOFF_MIN_MS :: u32 where [fw_consts]: "BACKOFF_MIN_MS = 500"
definition BACKOFF_MAX_MS :: u32 where [fw_consts]: "BACKOFF_MAX_MS = 16000"

record sensor_reading =
  r_seq :: u32
  r_timestamp_ms :: u32
  r_temperature :: i32
  r_humidity :: i32
  r_simulated :: bool

record fw_globals =
  g_produced :: u32
  g_consumed :: u32
  g_dropped :: u32
  g_connected :: bool
  g_last_temp :: i32
  g_last_hum :: i32

section \<open>Sampling\<close>

text \<open>
  What the sensor returns, with the values already in hundredths as \<^verbatim>\<open>lroundf(x * 100.0f)\<close> gives
  them, \<open>None\<close> for not-a-number; \<open>d_synth\<close> are the synthesised values.
\<close>

record dht_env =
  d_status_ok :: bool
  d_temp :: "i32 option"
  d_hum :: "i32 option"
  d_synth :: "i32 option \<times> i32 option"
  d_millis :: u32

definition read_sensor :: "dht_env \<Rightarrow> bool \<times> i32 option \<times> i32 option" where
  "read_sensor env =
     (if \<not> d_status_ok env \<or> d_temp env = None \<or> d_hum env = None then (False, fst (d_synth env), snd (d_synth env))
      else (True, d_temp env, d_hum env))"

text \<open>One turn of the producer; \<open>qsend\<close> is \<^verbatim>\<open>xQueueSend(g_queue, .., 0)\<close>.\<close>

definition sensor_task_iter ::
  "(sensor_reading \<Rightarrow> 'q \<Rightarrow> bool \<times> 'q) \<Rightarrow> dht_env \<Rightarrow> u32 \<times> 'q \<times> fw_globals \<Rightarrow> u32 \<times> 'q \<times> fw_globals" where
  "sensor_task_iter qsend env st =
     (case st of (sq, q, g) \<Rightarrow>
      let (ok0, t0, h0) = read_sensor env;
          (ok, t, h) = (if \<not> ok0 \<or> t0 = None \<or> h0 = None then (False, 2500, 5000) else (ok0, the t0, the h0));
          r = \<lparr>r_seq = sq + 1, r_timestamp_ms = d_millis env, r_temperature = t, r_humidity = h, r_simulated = \<not> ok\<rparr>;
          g1 = g\<lparr>g_last_temp := r_temperature r, g_last_hum := r_humidity r\<rparr>;
          (sent, q1) = qsend r q
      in (sq + 1, q1, if sent then g1\<lparr>g_produced := g_produced g1 + 1\<rparr> else g1\<lparr>g_dropped := g_dropped g1 + 1\<rparr>))"

section \<open>Network helpers\<close>

text \<open>What one turn of the reading loop sees: the clock, the state of the client, the bytes \<^verbatim>\<open>read\<close> returns.\<close>

record read_obs =
  o_millis :: u32
  o_connected :: bool
  o_available :: nat
  o_read :: "u8 list"

text \<open>\<open>acc\<close>: the bytes in the buffer. The result is the return value, the bytes, and the observations left.\<close>

fun read_exact :: "nat \<Rightarrow> u32 \<Rightarrow> u8 list \<Rightarrow> read_obs list \<Rightarrow> (bool \<times> u8 list \<times> read_obs list) option" where
  "read_exact len deadline acc [] = (if length acc < len then None else Some (True, acc, []))"
| "read_exact len deadline acc (o1 # os) =
     (if length acc < len then
        if sint (o_millis o1 - deadline) \<ge> 0 then Some (False, acc, os)
        else if \<not> o_connected o1 \<and> o_available o1 = 0 then Some (False, acc, os)
        else read_exact len deadline (acc @ take (len - length acc) (o_read o1)) os
      else Some (True, acc, o1 # os))"

text \<open>
  The handshake: \<open>written\<close> is what \<^verbatim>\<open>write\<close> returns, \<open>now\<close> the clock. The result is the packet
  sent and, if the handshake succeeds, the session number.
\<close>

definition do_handshake :: "nat \<Rightarrow> u32 \<Rightarrow> read_obs list \<Rightarrow> (u8 list \<times> u32 option \<times> read_obs list) option" where
  "do_handshake written now obs =
     (let (n, pkt) = pl_build_hello (replicate PL_HELLO_PACKET_SIZE 0) PL_HELLO_PACKET_SIZE DEVICE_ID FW_VERSION CAPABILITIES in
      if written \<noteq> n then Some (pkt, None, obs)
      else let deadline = now + 2000 in
        (case read_exact PL_FW_HDR_SIZE deadline [] obs of
           None \<Rightarrow> None
         | Some (ok, hdr, obs1) \<Rightarrow>
             if \<not> ok then Some (pkt, None, obs1)
             else (case pl_parse_header_fw hdr of
                     None \<Rightarrow> Some (pkt, None, obs1)
                   | Some rh \<Rightarrow>
                       if unat (rx_payload_len rh) > 64 then Some (pkt, None, obs1)
                       else (case (if rx_payload_len rh \<noteq> 0 then read_exact (unat (rx_payload_len rh)) deadline [] obs1
                                   else Some (True, [], obs1)) of
                               None \<Rightarrow> None
                             | Some (ok2, pl, obs2) \<Rightarrow>
                                 if \<not> ok2 then Some (pkt, None, obs2)
                                 else if pl_checksum pl (unat (rx_payload_len rh)) \<noteq> rx_checksum rh then Some (pkt, None, obs2)
                                 else if rx_type rh \<noteq> PL_TYPE_HELLO_ACK then Some (pkt, None, obs2)
                                 else Some (pkt, Some (if unat (rx_payload_len rh) \<ge> 4 then rd_u32 pl 0 else 0), obs2)))))"

text \<open>What the device prints for a reply.\<close>

datatype reply = Ack u32 | Err u16

text \<open>
  One turn of the drain loop, after \<^verbatim>\<open>available\<close> has reported a header: \<open>now1\<close> and \<open>now2\<close> are the
  two readings of the clock, \<open>stale\<close> what the 64-byte buffer on the stack holds. The result says
  whether the loop goes on, and what is printed.
\<close>

record drain_turn =
  t_available :: nat
  t_now1 :: u32
  t_now2 :: u32
  t_stale :: "u8 list"
  t_obs :: "read_obs list"

definition drain_one :: "drain_turn \<Rightarrow> (bool \<times> reply list) option" where
  "drain_one t =
     (case read_exact PL_FW_HDR_SIZE (t_now1 t + 200) [] (t_obs t) of
        None \<Rightarrow> None
      | Some (ok, hdr, obs1) \<Rightarrow>
          if \<not> ok then Some (False, [])
          else (case pl_parse_header_fw hdr of
                  None \<Rightarrow> Some (False, [])
                | Some rh \<Rightarrow>
                    if unat (rx_payload_len rh) > 64 then Some (False, [])
                    else (case (if rx_payload_len rh \<noteq> 0 then read_exact (unat (rx_payload_len rh)) (t_now2 t + 200) [] obs1
                                else Some (True, [], obs1)) of
                            None \<Rightarrow> None
                          | Some (ok2, got, obs2) \<Rightarrow>
                              let pl = memcpy_at (t_stale t) 0 got in
                              if \<not> ok2 then Some (False, [])
                              else if pl_checksum pl (unat (rx_payload_len rh)) \<noteq> rx_checksum rh then Some (True, [])
                              else if rx_type rh = PL_TYPE_ACK then Some (True, [Ack (rd_u32 pl 0)])
                              else if rx_type rh = PL_TYPE_ERROR then Some (True, [Err (rd_u16 pl 0)])
                              else Some (True, []))))"

fun drain_replies :: "drain_turn list \<Rightarrow> reply list option" where
  "drain_replies [] = None"
| "drain_replies (t # ts) =
     (if t_available t < PL_FW_HDR_SIZE then Some []
      else case drain_one t of
             None \<Rightarrow> None
           | Some (go_on, out) \<Rightarrow> if go_on then map_option (\<lambda>rest. out @ rest) (drain_replies ts) else Some out)"

text \<open>The waiting loop counts its half-second sleeps; the counter \<open>waited\<close> is 32 bits wide and could wrap.\<close>

partial_function (option) backoff_loop :: "u32 \<Rightarrow> u32 \<Rightarrow> nat \<Rightarrow> nat option" where
  "backoff_loop ms waited sleeps = (if waited < ms then backoff_loop ms (waited + 500) (Suc sleeps) else Some sleeps)"

definition backoff_next :: "u32 \<Rightarrow> u32" where
  "backoff_next ms = (if ms * 2 > BACKOFF_MAX_MS then BACKOFF_MAX_MS else ms * 2)"

definition backoff_wait :: "u32 \<Rightarrow> (nat \<times> u32) option" where
  "backoff_wait ms = map_option (\<lambda>sleeps. (sleeps, backoff_next ms)) (backoff_loop ms 0 0)"

text \<open>Joining the network: the status first seen, the clock, one status and clock per poll, the final status.\<close>

fun wifi_wait :: "u32 \<Rightarrow> (bool \<times> u32) list \<Rightarrow> bool" where
  "wifi_wait start [] = False"
| "wifi_wait start ((up, now) # polls) = (if \<not> up \<and> now - start < 15000 then wifi_wait start polls else True)"

definition wifi_ensure :: "bool \<times> u32 \<times> (bool \<times> u32) list \<times> bool \<Rightarrow> bool option" where
  "wifi_ensure w =
     (case w of (up, start, polls, final) \<Rightarrow>
      if up then Some True else if wifi_wait start polls then Some final else None)"

section \<open>The uplink\<close>

text \<open>What the calls of one turn of \<^verbatim>\<open>net_task\<close> return.\<close>

record net_env =
  n_wifi :: "bool \<times> u32 \<times> (bool \<times> u32) list \<times> bool"
  n_tcp_connected :: bool
  n_connect :: bool
  n_hello_written :: nat
  n_hello_now :: u32
  n_hello_obs :: "read_obs list"
  n_written :: nat
  n_drain :: "drain_turn list"

text \<open>What the turn does outside: connection attempts, bytes written, closing, sleeping, replies printed.\<close>

datatype net_event = Connect | Wrote "u8 list" | Stop | Slept nat | Reply reply

type_synonym 'q net_state = "'q \<times> u32 \<times> fw_globals"

text \<open>A failure: the shared flag is cleared and the task backs off.\<close>

definition net_fail :: "net_event list \<Rightarrow> 'q net_state \<Rightarrow> ('q net_state \<times> net_event list) option" where
  "net_fail ev st =
     (case st of (q, backoff, g) \<Rightarrow>
      (case backoff_wait backoff of
         None \<Rightarrow> None
       | Some (sleeps, backoff1) \<Rightarrow> Some ((q, backoff1, g\<lparr>g_connected := False\<rparr>), ev @ [Slept sleeps])))"

text \<open>The second half of a turn, on a live connection. \<open>qrecv\<close> is \<^verbatim>\<open>xQueueReceive\<close> with its timeout of a second.\<close>

definition net_send ::
  "('q \<Rightarrow> sensor_reading option \<times> 'q) \<Rightarrow> net_env \<Rightarrow> net_event list \<Rightarrow> 'q net_state \<Rightarrow> ('q net_state \<times> net_event list) option" where
  "net_send qrecv env ev st =
     (case st of (q, backoff, g) \<Rightarrow>
      let drained = (\<lambda>st1 ev1. map_option (\<lambda>rs. (st1, ev1 @ map Reply rs)) (drain_replies (n_drain env))) in
      (case qrecv q of
         (None, q1) \<Rightarrow> drained (q1, backoff, g) ev
       | (Some r, q1) \<Rightarrow>
           let (n, pkt) = pl_build_sensor (replicate PL_SENSOR_PACKET_SIZE 0) PL_SENSOR_PACKET_SIZE DEVICE_ID
                            (r_seq r) (r_timestamp_ms r) (r_temperature r) (r_humidity r) in
           if n_written env \<noteq> n then net_fail (ev @ [Wrote (take (n_written env) pkt), Stop]) (q1, backoff, g)
           else drained (q1, backoff, g\<lparr>g_consumed := g_consumed g + 1\<rparr>) (ev @ [Wrote pkt])))"

definition net_task_iter ::
  "('q \<Rightarrow> sensor_reading option \<times> 'q) \<Rightarrow> net_env \<Rightarrow> 'q net_state \<Rightarrow> ('q net_state \<times> net_event list) option" where
  "net_task_iter qrecv env st =
     (case st of (q, backoff, g) \<Rightarrow>
      (case wifi_ensure (n_wifi env) of
         None \<Rightarrow> None
       | Some up \<Rightarrow>
           if \<not> up then net_fail [] (q, backoff, g)
           else if n_tcp_connected env then net_send qrecv env [] (q, backoff, g)
           else if \<not> n_connect env then net_fail [Connect] (q, backoff, g)
           else (case do_handshake (n_hello_written env) (n_hello_now env) (n_hello_obs env) of
                   None \<Rightarrow> None
                 | Some (pkt, session, _) \<Rightarrow>
                     let ev = [Connect, Wrote (take (n_hello_written env) pkt)] in
                     if session = None then net_fail (ev @ [Stop]) (q, backoff, g)
                     else net_send qrecv env ev (q, BACKOFF_MIN_MS, g\<lparr>g_connected := True\<rparr>))))"

text \<open>The datagram a turn of the heartbeat task sends.\<close>

definition heartbeat_task_iter :: "bool \<Rightarrow> u32 \<Rightarrow> u32 \<Rightarrow> u8 list option" where
  "heartbeat_task_iter wifi millis heap =
     (if \<not> wifi then None
      else Some (snd (pl_build_heartbeat (replicate PL_HEARTBEAT_PACKET_SIZE 0) PL_HEARTBEAT_PACKET_SIZE DEVICE_ID millis heap)))"

definition stats_line :: "nat \<Rightarrow> u32 \<Rightarrow> fw_globals \<Rightarrow> string" where
  "stats_line waiting heap g =
     ''[stats] '' @ (if g_connected g then ''online'' else ''offline'') @ ''  produced='' @ fmt_u (unat (g_produced g)) @
     '' sent='' @ fmt_u (unat (g_consumed g)) @ '' dropped='' @ fmt_u (unat (g_dropped g)) @ ''  queue='' @ fmt_u waiting @
     ''/'' @ fmt_d (int QUEUE_LEN) @ ''  heap='' @ fmt_u (unat heap) @ ''B'' @ newline"

text \<open>The lines of the dashboard.\<close>

definition oled_screen :: "u32 \<Rightarrow> fw_globals \<Rightarrow> string list" where
  "oled_screen heap g =
     (let t = sint (g_last_temp g); h = sint (g_last_hum g);
          ti = t sdiv 100; tf = t smod 100; tf1 = (if tf < 0 then - tf else tf);
          hi = h sdiv 100; hf = h smod 100; hf1 = (if hf < 0 then - hf else hf)
      in [''PulseLink'',
          ''state: '' @ (if g_connected g then ''ONLINE'' else ''SEARCHING''),
          ''sent:'' @ fmt_u (unat (g_consumed g)) @ ''  drop:'' @ fmt_u (unat (g_dropped g)),
          ''temp: '' @ fmt_d ti @ ''.'' @ pad_left 2 CHR ''0'' (fmt_d tf1) @ '' C'',
          ''hum : '' @ fmt_d hi @ ''.'' @ pad_left 2 CHR ''0'' (fmt_d hf1) @ '' %'',
          ''heap: '' @ fmt_u (unat heap)])"

text \<open>Half a period of the status LED, in milliseconds.\<close>

definition led_half :: "fw_globals \<Rightarrow> u32" where
  "led_half g = (if g_connected g then 500 else 100)"

section \<open>The reading loop\<close>

definition expired :: "u32 \<Rightarrow> read_obs \<Rightarrow> bool" where
  "expired deadline ob \<longleftrightarrow> 0 \<le> sint (o_millis ob - deadline)"

definition dead :: "read_obs \<Rightarrow> bool" where
  "dead ob \<longleftrightarrow> \<not> o_connected ob \<and> o_available ob = 0"

text \<open>Bytes read by a prefix of the observations, if none of them stops the loop.\<close>

lemma read_exact_split:
  assumes "length acc \<le> len" and "read_exact len deadline acc obs = Some (ok, bs, rest)"
  shows "\<exists>k \<le> length obs. rest = drop k obs \<and>
    (if ok then bs = take len (acc @ concat (map o_read (take k obs))) \<and> length bs = len \<and>
        (\<forall>ob \<in> set (take k obs). \<not> expired deadline ob \<and> \<not> dead ob)
     else length bs < len \<and> 0 < k \<and> (expired deadline (obs ! (k - 1)) \<or> dead (obs ! (k - 1))))"
  using assms
proof (induction len deadline acc obs rule: read_exact.induct)
  case (1 len deadline acc)
  then show ?case by (auto split: if_splits)
next
  case (2 len deadline acc o1 os)
  show ?case
  proof (cases "length acc < len \<and> \<not> expired deadline o1 \<and> \<not> dead o1")
    case True
    with 2 obtain k where "k \<le> length os" and "rest = drop k os"
      and "if ok then bs = take len ((acc @ take (len - length acc) (o_read o1)) @ concat (map o_read (take k os))) \<and>
          length bs = len \<and> (\<forall>ob \<in> set (take k os). \<not> expired deadline ob \<and> \<not> dead ob)
        else length bs < len \<and> 0 < k \<and> (expired deadline (os ! (k - 1)) \<or> dead (os ! (k - 1)))"
      by (fastforce simp: expired_def dead_def)
    with True show ?thesis by (intro exI [of _ "Suc k"]) (auto simp: min_def split: if_splits)
  next
    case stop: False
    show ?thesis
    proof (cases "length acc < len")
      case True
      with stop 2(2,3) show ?thesis by (intro exI [of _ 1]) (auto simp: expired_def dead_def split: if_splits)
    next
      case False
      with 2(2,3) show ?thesis by (intro exI [of _ 0]) auto
    qed
  qed
qed

lemma read_exact_returns:
  "ob \<in> set obs \<Longrightarrow> expired deadline ob \<Longrightarrow> \<exists>ok bs rest. read_exact len deadline acc obs = Some (ok, bs, rest)"
  by (induction len deadline acc obs rule: read_exact.induct) (auto simp: expired_def)

text \<open>The comparison of clocks is right across the wrap-around of the millisecond counter.\<close>

lemma expired_clock:
  assumes "start \<le> t" and "t < start + wait + 2 ^ 31" and "wait \<le> 2 ^ 31"
  shows "0 \<le> sint (of_nat t - of_nat (start + wait) :: u32) \<longleftrightarrow> start + wait \<le> t"
proof -
  define d where "d = int t - int (start + wait)"
  have "(of_nat t - of_nat (start + wait) :: u32) = word_of_int d" by (simp add: d_def)
  moreover have "- (2 ^ 31) \<le> d" and "d < 2 ^ 31" using assms by (auto simp: d_def)
  then have "sint (word_of_int d :: u32) = d" by (simp add: sint_sbintrunc' signed_take_bit_int_eq_self)
  ultimately show ?thesis by (simp add: d_def) linarith
qed

lemma read_exact_all:
  assumes "\<forall>ob \<in> set obs. \<not> expired deadline ob \<and> \<not> dead ob"
    and "acc @ concat (map o_read obs) = bs" and "length bs = len"
  shows "\<exists>es. read_exact len deadline acc (obs @ later) = Some (True, bs, es @ later) \<and>
    set es \<subseteq> set obs \<and> concat (map o_read es) = []"
  using assms
proof (induction obs arbitrary: acc)
  case Nil
  then show ?case by (cases later) auto
next
  case (Cons ob obs)
  show ?case
  proof (cases "length acc < len")
    case True
    have fit: "take (len - length acc) (o_read ob) = o_read ob" using Cons.prems(2,3) by auto
    from Cons.IH [of "acc @ o_read ob"] Cons.prems obtain es where
      "read_exact len deadline (acc @ o_read ob) (obs @ later) = Some (True, bs, es @ later)"
      "set es \<subseteq> set obs" "concat (map o_read es) = []" by auto
    with True fit Cons.prems(1) show ?thesis by (auto simp: expired_def dead_def)
  next
    case False
    with Cons.prems(2,3) show ?thesis by (intro exI [of _ "ob # obs"]) auto
  qed
qed

section \<open>The handshake\<close>

lemma take_wire_packet: "take PL_HDR_SIZE (wire_packet t i p) = hdr_mem BigEndian (wire_header t i p)"
  by (simp add: wire_packet_def hdr_mem_def pl_consts del: mem_u16.simps mem_u32.simps)

lemma parse_wire_header:
  "pl_parse_header_fw (take PL_HDR_SIZE (wire_packet t i p)) =
    Some \<lparr>rx_type = pkt_code t, rx_device_id = i, rx_payload_len = of_nat (length p), rx_checksum = pl_checksum p (length p)\<rparr>"
proof -
  have "pl_parse_header LittleEndian (take PL_HDR_SIZE (wire_packet t i p)) = wire_header t i p"
    unfolding take_wire_packet using hdr_ld_mem [of BigEndian "wire_header t i p" "[]"] by (simp add: pl_parse_header_host)
  then show ?thesis
    by (subst pl_parse_header_fw_host [of _ LittleEndian]) (simp_all add: wire_header_def Let_def)
qed

lemma drop_wire_packet: "drop PL_HDR_SIZE (wire_packet t i p) = p"
  by (simp add: wire_packet_def hdr_mem_def pl_consts del: mem_u16.simps mem_u32.simps)

lemma hello_packet:
  "pl_build_hello (replicate PL_HELLO_PACKET_SIZE 0) PL_HELLO_PACKET_SIZE dev fv caps =
    (PL_HELLO_PACKET_SIZE, wire_packet PKT_HELLO dev (pair_bytes fv caps))"
  by (simp add: pl_build_hello_packet)

lemma sensor_packet:
  "pl_build_sensor (replicate PL_SENSOR_PACKET_SIZE 0) PL_SENSOR_PACKET_SIZE dev sq ts temp humid =
    (PL_SENSOR_PACKET_SIZE, wire_packet PKT_SENSOR dev (sensor_bytes \<lparr>s_seq = sq, s_timestamp_ms = ts,
      s_temperature = temp, s_humidity = humid\<rparr>))"
  by (simp add: pl_build_sensor_packet)

lemma do_handshake_ok:
  assumes "\<forall>ob \<in> set obs1 \<union> set obs2. \<not> expired (now + 2000) ob \<and> \<not> dead ob"
    and "concat (map o_read obs1) = take PL_HDR_SIZE (wire_packet PKT_HELLO_ACK i (mem_u32 BigEndian sid))"
    and "concat (map o_read obs2) = mem_u32 BigEndian sid"
  shows "\<exists>es. do_handshake PL_HELLO_PACKET_SIZE now (obs1 @ obs2 @ later) =
    Some (wire_packet PKT_HELLO DEVICE_ID (pair_bytes FW_VERSION CAPABILITIES), Some sid, es)"
proof -
  let ?h = "take PL_HDR_SIZE (wire_packet PKT_HELLO_ACK i (mem_u32 BigEndian sid))"
  have "length ?h = PL_HDR_SIZE" by simp
  with assms(1,2) obtain es1 where r1: "read_exact PL_HDR_SIZE (now + 2000) [] (obs1 @ obs2 @ later) = Some (True, ?h, es1 @ obs2 @ later)"
    and es1: "set es1 \<subseteq> set obs1" "concat (map o_read es1) = []"
    using read_exact_all [of obs1 "now + 2000" "[]" ?h PL_HDR_SIZE "obs2 @ later"] by auto
  have "\<exists>es. read_exact 4 (now + 2000) [] ((es1 @ obs2) @ later) = Some (True, mem_u32 BigEndian sid, es @ later) \<and>
      set es \<subseteq> set (es1 @ obs2) \<and> concat (map o_read es) = []"
    by (rule read_exact_all) (use assms(1,3) es1 in \<open>auto simp del: mem_u32.simps\<close>)
  then obtain es where r2: "read_exact 4 (now + 2000) [] (es1 @ obs2 @ later) = Some (True, mem_u32 BigEndian sid, es @ later)" by auto
  have "rd_u32 (mem_u32 BigEndian sid) 0 = sid" using c32.dec_enc [of BigEndian sid "[]"] by (simp add: rd_u32_ld del: mem_u32.simps ld_u32.simps)
  then show ?thesis
    unfolding do_handshake_def hello_packet using r1 r2
    by (simp add: parse_wire_header Let_def del: mem_u32.simps ld_u32.simps)
qed

lemma do_handshake_session:
  assumes "do_handshake n now obs = Some (pkt, Some sid, rest)"
  shows "\<exists>hdr pl rh obs1. n = PL_HELLO_PACKET_SIZE \<and> read_exact PL_HDR_SIZE (now + 2000) [] obs = Some (True, hdr, obs1) \<and>
    pl_parse_header_fw hdr = Some rh \<and> rx_type rh = pkt_code PKT_HELLO_ACK \<and> unat (rx_payload_len rh) \<le> 64 \<and>
    (rx_payload_len rh \<noteq> 0 \<longrightarrow> read_exact (unat (rx_payload_len rh)) (now + 2000) [] obs1 = Some (True, pl, rest)) \<and>
    (rx_payload_len rh = 0 \<longrightarrow> pl = [] \<and> rest = obs1) \<and>
    pl_checksum pl (unat (rx_payload_len rh)) = rx_checksum rh"
  using assms unfolding do_handshake_def hello_packet
  by (auto simp: Let_def split: option.splits if_splits prod.splits bool.splits)

section \<open>The back-off\<close>

lemma backoff_loop_count:
  assumes "unat ms \<le> 2 ^ 32 - 500" and "unat waited = 500 * k"
  shows "backoff_loop ms waited k = Some (if unat ms \<le> 500 * k then k else (unat ms + 499) div 500)"
  using assms
proof (induction "unat ms - unat waited" arbitrary: waited k rule: less_induct)
  case less
  show ?case
  proof (cases "waited < ms")
    case True
    then have lt: "unat waited < unat ms" by (simp add: word_less_nat_alt)
    with less.prems(1) have next1: "unat (waited + 500) = unat waited + 500" by (simp add: unat_word_ariths)
    have "backoff_loop ms waited k = backoff_loop ms (waited + 500) (Suc k)"
      using True by (subst backoff_loop.simps) simp
    also have "\<dots> = Some (if unat ms \<le> 500 * Suc k then Suc k else (unat ms + 499) div 500)"
      using lt next1 less.prems by (intro less.hyps) simp_all
    also have "\<dots> = Some ((unat ms + 499) div 500)"
    proof (cases "unat ms \<le> 500 * Suc k")
      case small: True
      with lt less.prems(2) have "(unat ms + 499) div 500 = Suc k" by (intro div_nat_eqI) simp_all
      with small show ?thesis by simp
    qed simp
    finally show ?thesis using lt less.prems(2) by simp
  next
    case False
    then have "unat ms \<le> 500 * k" using less.prems(2) by (simp add: word_less_nat_alt)
    with False show ?thesis by (subst backoff_loop.simps) simp
  qed
qed

lemma backoff_next_value: "unat ms \<le> 16000 \<Longrightarrow> unat (backoff_next ms) = min (2 * unat ms) 16000"
proof -
  assume "unat ms \<le> 16000"
  then have "unat (ms * 2) = unat ms * 2" by (simp add: unat_word_ariths)
  then show ?thesis by (simp add: backoff_next_def fw_consts word_less_nat_alt min_def)
qed

lemma backoff_iterate: "unat ((backoff_next ^^ k) BACKOFF_MIN_MS) = min (500 * 2 ^ k) 16000"
proof (induction k)
  case 0
  then show ?case by (simp add: fw_consts)
next
  case (Suc k)
  then show ?case by (simp add: backoff_next_value)
qed

lemma backoff_wait_some: "unat ms \<le> 16000 \<Longrightarrow> backoff_wait ms = Some ((unat ms + 499) div 500, backoff_next ms)"
  using backoff_loop_count [of ms 0 0] by (auto simp: backoff_wait_def)

section \<open>Properties\<close>

text \<open>
  C31. Reading with a deadline. If the clock, which started the wait at \<open>start\<close>, is observed at or
  after \<open>start + wait\<close>, then \<^verbatim>\<open>read_exact\<close> returns, also across the wrap-around of the 32-bit
  millisecond counter. It succeeds only with exactly \<open>len\<close> bytes, the ones the connection
  delivered, in order, all before the deadline; it fails only with fewer bytes, at an observation
  past the deadline or of a closed connection with nothing left to read.
\<close>

theorem read_exact_deadline:
  assumes "map o_millis obs = map of_nat ts" and "\<forall>t \<in> set ts. start \<le> t \<and> t < start + wait + 2 ^ 31"
    and "wait \<le> 2 ^ 31" and "\<exists>t \<in> set ts. start + wait \<le> t"
  shows "\<exists>k ok bs. k \<le> length obs \<and> read_exact len (of_nat (start + wait)) [] obs = Some (ok, bs, drop k obs) \<and>
    (if ok then bs = take len (concat (map o_read (take k obs))) \<and> length bs = len \<and> (\<forall>t \<in> set (take k ts). t < start + wait)
     else length bs < len \<and> 0 < k \<and> (start + wait \<le> ts ! (k - 1) \<or> \<not> o_connected (obs ! (k - 1)) \<and> o_available (obs ! (k - 1)) = 0))"
proof -
  have len: "length ts = length obs" using assms(1) by (metis length_map)
  have ex: "expired (of_nat (start + wait)) (obs ! j) \<longleftrightarrow> start + wait \<le> ts ! j" if "j < length obs" for j
  proof -
    have "o_millis (obs ! j) = of_nat (ts ! j)" using assms(1) that len by (metis nth_map)
    moreover have "start \<le> ts ! j" "ts ! j < start + wait + 2 ^ 31" using assms(2) that len by simp_all
    ultimately show ?thesis unfolding expired_def using expired_clock [OF _ _ assms(3)] by metis
  qed
  define dl where "dl = (of_nat (start + wait) :: u32)"
  note ex = ex [folded dl_def]
  obtain j where j: "j < length obs" "start + wait \<le> ts ! j" using assms(4) len by (metis in_set_conv_nth)
  then obtain ok bs rest where r: "read_exact len dl [] obs = Some (ok, bs, rest)"
    using read_exact_returns [of "obs ! j" obs dl len "[]"] ex by auto
  have "\<exists>k \<le> length obs. rest = drop k obs \<and>
    (if ok then bs = take len ([] @ concat (map o_read (take k obs))) \<and> length bs = len \<and>
        (\<forall>ob \<in> set (take k obs). \<not> expired dl ob \<and> \<not> dead ob)
     else length bs < len \<and> 0 < k \<and> (expired dl (obs ! (k - 1)) \<or> dead (obs ! (k - 1))))"
    by (rule read_exact_split [OF _ r]) simp
  then obtain k where k: "k \<le> length obs" "rest = drop k obs"
    and split: "if ok then bs = take len ([] @ concat (map o_read (take k obs))) \<and> length bs = len \<and>
        (\<forall>ob \<in> set (take k obs). \<not> expired dl ob \<and> \<not> dead ob)
     else length bs < len \<and> 0 < k \<and> (expired dl (obs ! (k - 1)) \<or> dead (obs ! (k - 1)))" by blast
  have yes: "bs = take len (concat (map o_read (take k obs))) \<and> length bs = len \<and> (\<forall>ob \<in> set (take k obs). \<not> expired dl ob)" if "ok"
    using split unfolding if_P [OF that] append_Nil by blast
  have no: "length bs < len \<and> 0 < k \<and> (expired dl (obs ! (k - 1)) \<or> dead (obs ! (k - 1)))" if "\<not> ok"
    using split unfolding if_not_P [OF that] .
  have "\<forall>t \<in> set (take k ts). t < start + wait" if "ok"
  proof
    fix t assume "t \<in> set (take k ts)"
    then obtain i where "i < k" "t = ts ! i" using k(1) len by (auto simp: in_set_conv_nth)
    with k(1) have "obs ! i \<in> set (take k obs)" by (auto simp: in_set_conv_nth)
    with yes that ex [of i] k(1) \<open>i < k\<close> \<open>t = ts ! i\<close> show "t < start + wait" by auto
  qed
  moreover have "k - 1 < length obs" if "\<not> ok" using k(1) no that by auto
  ultimately show ?thesis unfolding dl_def [symmetric] using r k yes no ex [of "k - 1"]
    by (intro exI [of _ k] exI [of _ ok] exI [of _ bs]) (auto simp: dead_def)
qed

definition demo_obs :: "nat \<Rightarrow> u8 list \<Rightarrow> read_obs" where
  "demo_obs t bs = \<lparr>o_millis = of_nat t, o_connected = True, o_available = length bs, o_read = bs\<rparr>"

theorem read_exact_deadline_witness:
  "let obs = [demo_obs 4294967291 [1], demo_obs 4294967400 [], demo_obs 4294967495 [2]] in
   \<exists>k ok bs. read_exact 2 (of_nat (4294967290 + 200)) [] obs = Some (ok, bs, drop k obs)"
proof -
  let ?obs = "[demo_obs 4294967291 [1], demo_obs 4294967400 [], demo_obs 4294967495 [2]]"
  have "map o_millis ?obs = map of_nat [4294967291, 4294967400, 4294967495]" by (simp add: demo_obs_def)
  from read_exact_deadline [OF this, of 4294967290 200 2] show ?thesis unfolding Let_def by fastforce
qed

text \<open>
  C30. The handshake. The device accepts the answer the server gives to a HELLO, in any
  segmentation, and takes its session number; and it accepts nothing else: a session is reported
  only for a packet that came whole before the deadline of two seconds, has the magic, the version
  and the type HELLO_ACK, at most 64 bytes of payload, and the right checksum.
\<close>

theorem handshake_accepts_ack:
  assumes "\<forall>ob \<in> set obs1 \<union> set obs2. \<not> expired (now + 2000) ob \<and> \<not> dead ob"
    and "concat (map o_read obs1) = take PL_HDR_SIZE (wire_packet PKT_HELLO_ACK i (mem_u32 BigEndian sid))"
    and "concat (map o_read obs2) = mem_u32 BigEndian sid"
  shows "(\<exists>es. do_handshake PL_HELLO_PACKET_SIZE now (obs1 @ obs2) =
      Some (wire_packet PKT_HELLO DEVICE_ID (pair_bytes FW_VERSION CAPABILITIES), Some sid, es)) \<and>
    (\<forall>n obs pkt sid' rest. do_handshake n now obs = Some (pkt, Some sid', rest) \<longrightarrow>
      (\<exists>j k hdr pl rh. hdr = take PL_HDR_SIZE (concat (map o_read (take j obs))) \<and> length hdr = PL_HDR_SIZE \<and>
        pl_parse_header_fw hdr = Some rh \<and> rx_type rh = pkt_code PKT_HELLO_ACK \<and> unat (rx_payload_len rh) \<le> 64 \<and>
        pl = take (unat (rx_payload_len rh)) (concat (map o_read (take k (drop j obs)))) \<and> length pl = unat (rx_payload_len rh) \<and>
        pl_checksum pl (length pl) = rx_checksum rh \<and> (\<forall>ob \<in> set (take (j + k) obs). \<not> expired (now + 2000) ob)))"
proof (intro conjI allI impI, rule do_handshake_ok [OF assms, of "[]", unfolded append_Nil2])
  fix n obs pkt sid' rest
  assume "do_handshake n now obs = Some (pkt, Some sid', rest)"
  from do_handshake_session [OF this] obtain hdr pl rh obs1 where
    r1: "read_exact PL_HDR_SIZE (now + 2000) [] obs = Some (True, hdr, obs1)"
    and rh: "pl_parse_header_fw hdr = Some rh" "rx_type rh = pkt_code PKT_HELLO_ACK" "unat (rx_payload_len rh) \<le> 64"
    and r2: "rx_payload_len rh \<noteq> 0 \<longrightarrow> read_exact (unat (rx_payload_len rh)) (now + 2000) [] obs1 = Some (True, pl, rest)"
    and empty: "rx_payload_len rh = 0 \<longrightarrow> pl = [] \<and> rest = obs1"
    and sum: "pl_checksum pl (unat (rx_payload_len rh)) = rx_checksum rh" by auto
  from read_exact_split [OF _ r1] obtain j where j: "obs1 = drop j obs" "hdr = take PL_HDR_SIZE (concat (map o_read (take j obs)))"
    "length hdr = PL_HDR_SIZE" "\<forall>ob \<in> set (take j obs). \<not> expired (now + 2000) ob" by auto
  obtain k where k: "pl = take (unat (rx_payload_len rh)) (concat (map o_read (take k (drop j obs))))"
    "length pl = unat (rx_payload_len rh)" "\<forall>ob \<in> set (take k (drop j obs)). \<not> expired (now + 2000) ob"
  proof (cases "rx_payload_len rh = 0")
    case True
    with empty show ?thesis by (intro that [of 0]) auto
  next
    case False
    with read_exact_split [of "[]" "unat (rx_payload_len rh)" "now + 2000" obs1 True pl rest] r2 j(1) that show ?thesis by auto
  qed
  have "\<forall>ob \<in> set (take (j + k) obs). \<not> expired (now + 2000) ob" using j(4) k(3) by (auto simp: take_add)
  with j k rh sum show "\<exists>j k hdr pl rh. hdr = take PL_HDR_SIZE (concat (map o_read (take j obs))) \<and> length hdr = PL_HDR_SIZE \<and>
        pl_parse_header_fw hdr = Some rh \<and> rx_type rh = pkt_code PKT_HELLO_ACK \<and> unat (rx_payload_len rh) \<le> 64 \<and>
        pl = take (unat (rx_payload_len rh)) (concat (map o_read (take k (drop j obs)))) \<and> length pl = unat (rx_payload_len rh) \<and>
        pl_checksum pl (length pl) = rx_checksum rh \<and> (\<forall>ob \<in> set (take (j + k) obs). \<not> expired (now + 2000) ob)"
    by (intro exI [of _ j] exI [of _ k] exI [of _ hdr] exI [of _ pl] exI [of _ rh]) simp
qed

lemma demo_obs_read: "o_read (demo_obs t bs) = bs"
  by (simp add: demo_obs_def)

theorem handshake_accepts_ack_witness:
  "let p = wire_packet PKT_HELLO_ACK 0x1001 (mem_u32 BigEndian 7) in
   \<exists>es. do_handshake PL_HELLO_PACKET_SIZE 1000
      [demo_obs 1001 (take 5 p), demo_obs 1300 [], demo_obs 1400 (take 7 (drop 5 p)), demo_obs 1401 (drop 12 p)] =
    Some (wire_packet PKT_HELLO DEVICE_ID (pair_bytes FW_VERSION CAPABILITIES), Some 7, es)"
proof -
  let ?p = "wire_packet PKT_HELLO_ACK 0x1001 (mem_u32 BigEndian 7)"
  have "take 5 ?p @ take 7 (drop 5 ?p) = take PL_HDR_SIZE ?p" by (simp add: take_add [symmetric] pl_consts)
  moreover have "drop 12 ?p = mem_u32 BigEndian 7"
    using drop_wire_packet [of PKT_HELLO_ACK "0x1001" "mem_u32 BigEndian 7"] by (simp add: pl_consts del: mem_u32.simps)
  moreover have "\<forall>ob \<in> {demo_obs 1001 (take 5 ?p), demo_obs 1300 [], demo_obs 1400 (take 7 (drop 5 ?p)), demo_obs 1401 (drop 12 ?p)}.
      \<not> expired (1000 + 2000) ob \<and> \<not> dead ob"
    by (simp add: expired_def dead_def demo_obs_def del: mem_u32.simps)
  ultimately show ?thesis
    using handshake_accepts_ack [of "[demo_obs 1001 (take 5 ?p), demo_obs 1300 [], demo_obs 1400 (take 7 (drop 5 ?p))]"
        "[demo_obs 1401 (drop 12 ?p)]" 1000 "0x1001" 7]
    by (simp add: Let_def demo_obs_read del: mem_u32.simps)
qed

end
