(* ===== verification/Fw_Pipeline.thy ===== *)
theory Fw_Pipeline
  imports Fw_Tasks "HOL-Library.Sublist"
begin

text \<open>
  The two tasks of \<^verbatim>\<open>firmware/pulselink_fw.ino\<close> that move readings, the sampler and the uplink,
  running over one queue. Turns of the tasks interleave in any order; every shared variable is
  written by one task only and the queue's operations are atomic, so turns are the steps. The
  theory accounts for every reading, and shows that a turn of the uplink ends.
\<close>

section \<open>The tasks together\<close>

datatype fw_action = Sample dht_env | Uplink net_env

type_synonym 'q fw_state = "u32 \<times> 'q \<times> u32 \<times> fw_globals"

definition fw_act ::
  "(sensor_reading \<Rightarrow> 'q \<Rightarrow> bool \<times> 'q) \<Rightarrow> ('q \<Rightarrow> sensor_reading option \<times> 'q) \<Rightarrow> fw_action \<Rightarrow>
   'q fw_state \<Rightarrow> ('q fw_state \<times> net_event list) option" where
  "fw_act qsend qrecv a st =
     (case st of (sq, q, backoff, g) \<Rightarrow>
      (case a of
         Sample env \<Rightarrow> (case sensor_task_iter qsend env (sq, q, g) of (sq1, q1, g1) \<Rightarrow> Some ((sq1, q1, backoff, g1), []))
       | Uplink env \<Rightarrow> (case net_task_iter qrecv env (q, backoff, g) of
            None \<Rightarrow> None
          | Some ((q1, backoff1, g1), ev) \<Rightarrow> Some ((sq, q1, backoff1, g1), ev))))"

fun fw_run ::
  "(sensor_reading \<Rightarrow> 'q \<Rightarrow> bool \<times> 'q) \<Rightarrow> ('q \<Rightarrow> sensor_reading option \<times> 'q) \<Rightarrow> fw_action list \<Rightarrow>
   'q fw_state \<Rightarrow> ('q fw_state \<times> net_event list) option" where
  "fw_run qsend qrecv [] st = Some (st, [])"
| "fw_run qsend qrecv (a # as) st =
     (case fw_act qsend qrecv a st of
        None \<Rightarrow> None
      | Some (st1, ev) \<Rightarrow> map_option (\<lambda>(st2, ev2). (st2, ev @ ev2)) (fw_run qsend qrecv as st1))"

text \<open>The values the globals and the locals of the tasks start with.\<close>

definition fw_start :: "'q \<Rightarrow> 'q fw_state" where
  "fw_start q = (0, q, BACKOFF_MIN_MS, \<lparr>g_produced = 0, g_consumed = 0, g_dropped = 0, g_connected = False,
     g_last_temp = 2500, g_last_hum = 5000\<rparr>)"

section \<open>What the tasks rely on\<close>

text \<open>The documented behaviour of a FreeRTOS queue of \<open>cap\<close> items, on its contents.\<close>

definition queue_laws ::
  "nat \<Rightarrow> ('q \<Rightarrow> sensor_reading list) \<Rightarrow> (sensor_reading \<Rightarrow> 'q \<Rightarrow> bool \<times> 'q) \<Rightarrow>
   ('q \<Rightarrow> sensor_reading option \<times> 'q) \<Rightarrow> bool" where
  "queue_laws cap contents qsend qrecv \<longleftrightarrow>
     (\<forall>r q. fst (qsend r q) = (length (contents q) < cap) \<and>
            contents (snd (qsend r q)) = (if length (contents q) < cap then contents q @ [r] else contents q)) \<and>
     (\<forall>q. fst (qrecv q) = (case contents q of [] \<Rightarrow> None | r # _ \<Rightarrow> Some r) \<and>
          contents (snd (qrecv q)) = tl (contents q))"

text \<open>A write reports at most the number of bytes it was given.\<close>

definition write_law :: "fw_action \<Rightarrow> bool" where
  "write_law a = (case a of Sample _ \<Rightarrow> True | Uplink env \<Rightarrow> n_written env \<le> PL_SENSOR_PACKET_SIZE)"

section \<open>What was sampled and what was sent\<close>

definition sample_of :: "u32 \<Rightarrow> dht_env \<Rightarrow> sensor_reading" where
  "sample_of sq env =
     (case (if d_status_ok env then (d_temp env, d_hum env) else (None, None)) of
        (Some t, Some h) \<Rightarrow> \<lparr>r_seq = sq, r_timestamp_ms = d_millis env, r_temperature = t, r_humidity = h, r_simulated = False\<rparr>
      | _ \<Rightarrow> \<lparr>r_seq = sq, r_timestamp_ms = d_millis env, r_temperature = 2500, r_humidity = 5000, r_simulated = True\<rparr>)"

fun samples :: "u32 \<Rightarrow> fw_action list \<Rightarrow> sensor_reading list" where
  "samples sq [] = []"
| "samples sq (Sample env # as) = sample_of (sq + 1) env # samples (sq + 1) as"
| "samples sq (Uplink _ # as) = samples sq as"

definition reading_packet :: "sensor_reading \<Rightarrow> u8 list" where
  "reading_packet r = wire_packet PKT_SENSOR DEVICE_ID (sensor_bytes \<lparr>s_seq = r_seq r, s_timestamp_ms = r_timestamp_ms r,
     s_temperature = r_temperature r, s_humidity = r_humidity r\<rparr>)"

text \<open>The reading packets that went out whole.\<close>

fun sent_whole :: "net_event list \<Rightarrow> u8 list list" where
  "sent_whole [] = []"
| "sent_whole (Wrote p # ev) = (if length p = PL_SENSOR_PACKET_SIZE then p # sent_whole ev else sent_whole ev)"
| "sent_whole (_ # ev) = sent_whole ev"

lemma sent_whole_append [simp]: "sent_whole (xs @ ys) = sent_whole xs @ sent_whole ys"
  by (induction xs rule: sent_whole.induct) simp_all

lemma sent_whole_replies [simp]: "sent_whole (map Reply rs) = []"
  by (induction rs) simp_all

lemma sensor_task_iter_eq:
  "sensor_task_iter qsend env (sq, q, g) =
     (let r = sample_of (sq + 1) env;
          g1 = g\<lparr>g_last_temp := r_temperature r, g_last_hum := r_humidity r\<rparr>;
          (sent, q1) = qsend r q
      in (sq + 1, q1, if sent then g1\<lparr>g_produced := g_produced g1 + 1\<rparr> else g1\<lparr>g_dropped := g_dropped g1 + 1\<rparr>))"
  by (cases "d_status_ok env"; cases "d_temp env"; cases "d_hum env")
    (auto simp: sensor_task_iter_def read_sensor_def sample_of_def Let_def split: prod.split)

section \<open>One turn of the uplink\<close>

text \<open>\<open>net_effect ...\<close>: at most one reading leaves the queue, and it is counted exactly if its packet went out whole.\<close>

definition net_effect ::
  "('q \<Rightarrow> sensor_reading list) \<Rightarrow> 'q net_state \<Rightarrow> 'q net_state \<Rightarrow> net_event list \<Rightarrow> bool" where
  "net_effect contents st st' ev \<longleftrightarrow>
     (case (st, st') of ((q, _, g), (q', _, g')) \<Rightarrow>
      g_produced g' = g_produced g \<and> g_dropped g' = g_dropped g \<and>
      (contents q' = contents q \<and> g_consumed g' = g_consumed g \<and> sent_whole ev = [] \<or>
       contents q \<noteq> [] \<and> contents q' = tl (contents q) \<and>
         (g_consumed g' = g_consumed g \<and> sent_whole ev = [] \<or>
          g_consumed g' = g_consumed g + 1 \<and> sent_whole ev = [reading_packet (hd (contents q))])))"

lemma net_fail_effect:
  assumes "net_fail ev (q, backoff, g) = Some (st', ev')"
  shows "\<exists>sleeps. st' = (q, backoff_next backoff, g\<lparr>g_connected := False\<rparr>) \<and> ev' = ev @ [Slept sleeps]"
  using assms by (auto simp: net_fail_def backoff_wait_def split: option.splits)

lemma net_send_effect:
  assumes "queue_laws cap contents qsend qrecv" and "n_written env \<le> PL_SENSOR_PACKET_SIZE"
    and "sent_whole ev = []" and "net_send qrecv env ev (q, backoff, g) = Some (st', ev')"
  shows "net_effect contents (q, backoff0, g) st' ev'"
proof (cases "contents q")
  case Nil
  with assms(1) have "fst (qrecv q) = None" "contents (snd (qrecv q)) = []" by (simp_all add: queue_laws_def)
  then obtain q1 where "qrecv q = (None, q1)" "contents q1 = []" by (cases "qrecv q") simp
  with assms(3,4) Nil show ?thesis by (auto simp: net_send_def net_effect_def Let_def)
next
  case (Cons r rs)
  with assms(1) have "fst (qrecv q) = Some r" "contents (snd (qrecv q)) = rs" by (simp_all add: queue_laws_def)
  then obtain q1 where q1: "qrecv q = (Some r, q1)" "contents q1 = rs" by (cases "qrecv q") simp
  show ?thesis
  proof (cases "n_written env = PL_SENSOR_PACKET_SIZE")
    case True
    with q1 Cons assms(3,4) show ?thesis
      by (auto simp: net_send_def net_effect_def Let_def sensor_packet reading_packet_def PL_HDR_SIZE_def PL_SENSOR_PACKET_SIZE_def [symmetric])
  next
    case False
    with q1 assms(4) have "net_fail (ev @ [Wrote (take (n_written env) (reading_packet r)), Stop]) (q1, backoff, g) = Some (st', ev')"
      by (simp add: net_send_def sensor_packet reading_packet_def)
    from net_fail_effect [OF this] False assms(2,3) q1 Cons show ?thesis by (auto simp: net_effect_def)
  qed
qed

lemma hello_not_reading: "sent_whole [Connect, Wrote (take n (wire_packet PKT_HELLO DEVICE_ID (pair_bytes FW_VERSION CAPABILITIES)))] = []"
  by (simp add: pl_consts)

lemma do_handshake_packet:
  "do_handshake n now obs = Some (pkt, r) \<Longrightarrow> pkt = wire_packet PKT_HELLO DEVICE_ID (pair_bytes FW_VERSION CAPABILITIES)"
  unfolding do_handshake_def hello_packet by (auto simp: Let_def split: option.splits if_splits prod.splits)

lemma net_task_iter_effect:
  assumes "queue_laws cap contents qsend qrecv" and "n_written env \<le> PL_SENSOR_PACKET_SIZE"
    and "net_task_iter qrecv env (q, backoff, g) = Some (st', ev)"
  shows "net_effect contents (q, backoff, g) st' ev"
proof -
  have failed: ?thesis if "net_fail ev0 (q, backoff, g) = Some (st', ev)" "sent_whole ev0 = []" for ev0
    using net_fail_effect [OF that(1)] that(2) by (auto simp: net_effect_def)
  have same: "net_effect contents (q, backoff, g\<lparr>g_connected := True\<rparr>) st' ev \<Longrightarrow> ?thesis" by (simp add: net_effect_def)
  from assms(3) consider
      "net_fail [] (q, backoff, g) = Some (st', ev)" | "net_send qrecv env [] (q, backoff, g) = Some (st', ev)"
    | "net_fail [Connect] (q, backoff, g) = Some (st', ev)"
    | pkt session rest where "do_handshake (n_hello_written env) (n_hello_now env) (n_hello_obs env) = Some (pkt, session, rest)"
        "net_fail [Connect, Wrote (take (n_hello_written env) pkt), Stop] (q, backoff, g) = Some (st', ev)"
    | pkt session rest where "do_handshake (n_hello_written env) (n_hello_now env) (n_hello_obs env) = Some (pkt, session, rest)"
        "net_send qrecv env [Connect, Wrote (take (n_hello_written env) pkt)] (q, BACKOFF_MIN_MS, g\<lparr>g_connected := True\<rparr>) = Some (st', ev)"
    by (auto simp: net_task_iter_def Let_def split: option.splits if_splits prod.splits)
  then show ?thesis
  proof cases
    case 1
    then show ?thesis by (rule failed) simp
  next
    case 2
    then show ?thesis by (intro net_send_effect [OF assms(1,2)]) simp_all
  next
    case 3
    then show ?thesis by (rule failed) simp
  next
    case (4 pkt session rest)
    from 4(2) show ?thesis by (rule failed) (simp add: do_handshake_packet [OF 4(1)] pl_consts)
  next
    case (5 pkt session rest)
    have "sent_whole [Connect, Wrote (take (n_hello_written env) pkt)] = []"
      unfolding do_handshake_packet [OF 5(1)] by (rule hello_not_reading)
    from same [OF net_send_effect [OF assms(1,2) this 5(2)]] show ?thesis .
  qed
qed

section \<open>Accounting for every reading\<close>

text \<open>
  \<open>acc\<close>: the readings the queue accepted; \<open>outs\<close>: those taken out of it, with whether their packet
  went out whole.
\<close>

definition fw_account ::
  "('q \<Rightarrow> sensor_reading list) \<Rightarrow> fw_action list \<Rightarrow> 'q fw_state \<Rightarrow> 'q fw_state \<Rightarrow> net_event list \<Rightarrow>
   sensor_reading list \<Rightarrow> (sensor_reading \<times> bool) list \<Rightarrow> bool" where
  "fw_account contents as st st' ev acc outs \<longleftrightarrow>
     (case (st, st') of ((sq, q, _, g), (sq', q', _, g')) \<Rightarrow>
      contents q @ acc = map fst outs @ contents q' \<and> subseq acc (samples sq as) \<and>
      sent_whole ev = map (reading_packet \<circ> fst) (filter snd outs) \<and>
      g_produced g' = g_produced g + of_nat (length acc) \<and>
      g_dropped g' = g_dropped g + of_nat (length (samples sq as) - length acc) \<and>
      g_consumed g' = g_consumed g + of_nat (length (filter snd outs)))"

lemma account_sample:
  assumes "queue_laws cap contents qsend qrecv" and "sensor_task_iter qsend env (sq, q, g) = (sq1, q1, g1)"
    and "fw_account contents as (sq1, q1, backoff, g1) st' ev acc outs"
  shows "\<exists>acc. fw_account contents (Sample env # as) (sq, q, backoff, g) st' ev acc outs"
proof -
  let ?r = "sample_of (sq + 1) env"
  obtain sent where send: "qsend ?r q = (sent, q1)" and sq1: "sq1 = sq + 1"
    and g1: "g_produced g1 = g_produced g + (if sent then 1 else 0)" "g_dropped g1 = g_dropped g + (if sent then 0 else 1)"
      "g_consumed g1 = g_consumed g"
    using assms(2) by (auto simp: sensor_task_iter_eq Let_def split: prod.splits if_splits)
  have laws: "sent = (length (contents q) < cap)" "contents q1 = (if sent then contents q @ [?r] else contents q)"
    using assms(1) send unfolding queue_laws_def by (metis fst_conv, metis fst_conv snd_conv)
  have sub: "subseq acc (samples sq1 as)" using assms(3) by (auto simp: fw_account_def split: prod.splits)
  show ?thesis
  proof (cases sent)
    case True
    have "fw_account contents (Sample env # as) (sq, q, backoff, g) st' ev (?r # acc) outs"
      using assms(3) g1 laws(2) sq1 True by (auto simp: fw_account_def split: prod.splits)
    then show ?thesis ..
  next
    case False
    have "length (samples sq1 as) - length acc + 1 = Suc (length (samples sq1 as)) - length acc"
      using list_emb_length [OF sub] by simp
    then have "of_nat (Suc (length (samples sq1 as)) - length acc) = (of_nat (length (samples sq1 as) - length acc) + 1 :: u32)"
      by (metis of_nat_1 of_nat_add)
    with assms(3) g1 laws(2) sq1 False have "fw_account contents (Sample env # as) (sq, q, backoff, g) st' ev acc outs"
      by (auto simp: fw_account_def simp del: of_nat_Suc split: prod.splits)
    then show ?thesis ..
  qed
qed

lemma account_uplink:
  assumes "net_effect contents (q, backoff, g) (q1, backoff1, g1) ev1"
    and "fw_account contents as (sq, q1, backoff1, g1) st' ev acc outs"
  shows "\<exists>outs. fw_account contents (Uplink env # as) (sq, q, backoff, g) st' (ev1 @ ev) acc outs"
proof -
  from assms(1) consider
      "contents q1 = contents q" "g_consumed g1 = g_consumed g" "sent_whole ev1 = []"
    | r rs where "contents q = r # rs" "contents q1 = rs" "g_consumed g1 = g_consumed g" "sent_whole ev1 = []"
    | r rs where "contents q = r # rs" "contents q1 = rs" "g_consumed g1 = g_consumed g + 1" "sent_whole ev1 = [reading_packet r]"
    by (cases "contents q") (auto simp: net_effect_def)
  then have "fw_account contents (Uplink env # as) (sq, q, backoff, g) st' (ev1 @ ev) acc outs \<or>
      (\<exists>r b. fw_account contents (Uplink env # as) (sq, q, backoff, g) st' (ev1 @ ev) acc ((r, b) # outs))"
  proof cases
    case 1
    with assms show ?thesis by (auto simp: fw_account_def net_effect_def split: prod.splits)
  next
    case (2 r rs)
    with assms have "fw_account contents (Uplink env # as) (sq, q, backoff, g) st' (ev1 @ ev) acc ((r, False) # outs)"
      by (auto simp: fw_account_def net_effect_def split: prod.splits)
    then show ?thesis by blast
  next
    case (3 r rs)
    with assms have "fw_account contents (Uplink env # as) (sq, q, backoff, g) st' (ev1 @ ev) acc ((r, True) # outs)"
      by (auto simp: fw_account_def net_effect_def split: prod.splits)
    then show ?thesis by blast
  qed
  then show ?thesis by blast
qed

lemma fw_run_account:
  assumes "queue_laws cap contents qsend qrecv" and "\<forall>a \<in> set as. write_law a"
    and "fw_run qsend qrecv as st = Some (st', ev)"
  shows "\<exists>acc outs. fw_account contents as st st' ev acc outs"
  using assms(2,3)
proof (induction as arbitrary: st ev)
  case Nil
  then show ?case by (intro exI [of _ "[]"] exI [of _ "[]"]) (auto simp: fw_account_def split: prod.splits)
next
  case (Cons a as)
  obtain sq q backoff g where st: "st = (sq, q, backoff, g)" by (cases st)
  from Cons.prems(2) obtain st1 ev1 ev2 where act: "fw_act qsend qrecv a st = Some (st1, ev1)"
    and run: "fw_run qsend qrecv as st1 = Some (st', ev2)" and ev: "ev = ev1 @ ev2"
    by (auto split: option.splits)
  obtain sq1 q1 backoff1 g1 where st1: "st1 = (sq1, q1, backoff1, g1)" by (cases st1)
  obtain acc outs where IH: "fw_account contents as (sq1, q1, backoff1, g1) st' ev2 acc outs"
    using Cons.IH [OF _ run] Cons.prems(1) st1 by auto
  show ?case
  proof (cases a)
    case (Sample env)
    then have "sensor_task_iter qsend env (sq, q, g) = (sq1, q1, g1)" and "backoff1 = backoff" and "ev1 = []"
      using act by (auto simp: fw_act_def st st1 split: prod.splits)
    with account_sample [OF assms(1) _ IH] show ?thesis unfolding Sample st ev by fastforce
  next
    case (Uplink env)
    then have "net_task_iter qrecv env (q, backoff, g) = Some ((q1, backoff1, g1), ev1)" and "sq1 = sq"
      using act by (auto simp: fw_act_def st st1 split: prod.splits option.splits)
    moreover have "n_written env \<le> PL_SENSOR_PACKET_SIZE" using Cons.prems(1) Uplink by (simp add: write_law_def)
    ultimately have "net_effect contents (q, backoff, g) (q1, backoff1, g1) ev1"
      by (intro net_task_iter_effect [OF assms(1)])
    from account_uplink [OF this] IH \<open>sq1 = sq\<close> show ?thesis unfolding Uplink st ev by blast
  qed
qed

lemma samples_seq: "map r_seq (samples sq as) = map (\<lambda>k. sq + of_nat (Suc k)) [0..<length (samples sq as)]"
proof (induction sq as rule: samples.induct)
  case (2 sq env as)
  have "r_seq (sample_of (sq + 1) env) = sq + 1" by (auto simp: sample_of_def split: option.split)
  with 2 show ?case by (simp add: map_upt_Suc add_ac del: upt_Suc)
qed simp_all

section \<open>Turns end\<close>

text \<open>The clock passes the deadlines of the reads, the Wi-Fi poll, and the replies run out.\<close>

definition polls_end :: "bool \<times> u32 \<times> (bool \<times> u32) list \<times> bool \<Rightarrow> bool" where
  "polls_end w = (case w of (up, start, polls, final) \<Rightarrow> up \<or> list_ex (\<lambda>(up1, now). up1 \<or> 15000 \<le> now - start) polls)"

definition turn_timed :: "drain_turn \<Rightarrow> bool" where
  "turn_timed t = list_ex (\<lambda>ob. expired (t_now1 t + 200) ob \<and> expired (t_now2 t + 200) ob) (t_obs t)"

definition uplink_timed :: "net_env \<Rightarrow> bool" where
  "uplink_timed env \<longleftrightarrow> polls_end (n_wifi env) \<and> list_ex (expired (n_hello_now env + 2000)) (n_hello_obs env) \<and>
     list_all turn_timed (n_drain env) \<and> list_ex (\<lambda>t. t_available t < PL_HDR_SIZE) (n_drain env)"

lemma wifi_ensure_returns: "polls_end w \<Longrightarrow> \<exists>up. wifi_ensure w = Some up"
proof -
  have "list_ex (\<lambda>(up1, now). up1 \<or> 15000 \<le> now - start) polls \<Longrightarrow> wifi_wait start polls" for start polls
    by (induction start polls rule: wifi_wait.induct) auto
  then show "polls_end w \<Longrightarrow> \<exists>up. wifi_ensure w = Some up"
    by (auto simp: polls_end_def wifi_ensure_def split: prod.splits)
qed

lemma read_exact_rest:
  assumes "read_exact len deadline [] obs = Some (True, bs, rest)" and "ob \<in> set obs" and "expired deadline ob"
  shows "ob \<in> set rest"
proof -
  from read_exact_split [OF _ assms(1)] obtain k where "rest = drop k obs" and "ob \<notin> set (take k obs)"
    using assms(3) by auto
  with assms(2) show ?thesis by (metis Un_iff append_take_drop_id set_append)
qed

lemma do_handshake_returns:
  assumes "list_ex (expired (now + 2000)) obs"
  shows "\<exists>r. do_handshake n now obs = Some r"
proof -
  from assms obtain ob where ob: "ob \<in> set obs" "expired (now + 2000) ob" by (auto simp: list_ex_iff)
  obtain ok hdr obs1 where r1: "read_exact PL_HDR_SIZE (now + 2000) [] obs = Some (ok, hdr, obs1)"
    using read_exact_returns [OF ob] by blast
  have "ok \<Longrightarrow> \<exists>ok2 pl obs2. read_exact m (now + 2000) [] obs1 = Some (ok2, pl, obs2)" for m
    using r1 by (intro read_exact_returns [OF read_exact_rest [OF _ ob] ob(2)]) simp
  note r2 = this
  show ?thesis
  proof (cases "ok \<and> pl_parse_header_fw hdr \<noteq> None")
    case True
    then obtain rh where "pl_parse_header_fw hdr = Some rh" by auto
    moreover obtain ok2 pl obs2 where "read_exact (unat (rx_payload_len rh)) (now + 2000) [] obs1 = Some (ok2, pl, obs2)"
      using r2 True by blast
    ultimately have "do_handshake n now obs \<noteq> None" using r1 True by (simp add: do_handshake_def hello_packet Let_def)
    then show ?thesis by blast
  next
    case False
    then have "do_handshake n now obs \<noteq> None" using r1 by (auto simp: do_handshake_def hello_packet Let_def)
    then show ?thesis by blast
  qed
qed

lemma drain_one_returns:
  assumes "turn_timed t"
  shows "\<exists>r. drain_one t = Some r"
proof -
  from assms obtain ob where ob: "ob \<in> set (t_obs t)" "expired (t_now1 t + 200) ob" "expired (t_now2 t + 200) ob"
    by (auto simp: turn_timed_def list_ex_iff)
  obtain ok hdr obs1 where r1: "read_exact PL_HDR_SIZE (t_now1 t + 200) [] (t_obs t) = Some (ok, hdr, obs1)"
    using read_exact_returns [OF ob(1,2)] by blast
  have "ok \<Longrightarrow> \<exists>ok2 pl obs2. read_exact m (t_now2 t + 200) [] obs1 = Some (ok2, pl, obs2)" for m
    using r1 by (intro read_exact_returns [OF read_exact_rest [OF _ ob(1,2)] ob(3)]) simp
  note r2 = this
  show ?thesis
  proof (cases "ok \<and> pl_parse_header_fw hdr \<noteq> None")
    case True
    then obtain rh where "pl_parse_header_fw hdr = Some rh" by auto
    moreover obtain ok2 pl obs2 where "read_exact (unat (rx_payload_len rh)) (t_now2 t + 200) [] obs1 = Some (ok2, pl, obs2)"
      using r2 True by blast
    ultimately have "drain_one t \<noteq> None" using r1 True by (simp add: drain_one_def Let_def) blast
    then show ?thesis by blast
  next
    case False
    then have "drain_one t \<noteq> None" using r1 by (auto simp: drain_one_def Let_def)
    then show ?thesis by blast
  qed
qed

lemma drain_replies_returns:
  "list_all turn_timed ts \<Longrightarrow> list_ex (\<lambda>t. t_available t < PL_HDR_SIZE) ts \<Longrightarrow> \<exists>rs. drain_replies ts = Some rs"
proof (induction ts rule: drain_replies.induct)
  case (2 t ts)
  obtain go_on out where "drain_one t = Some (go_on, out)" using drain_one_returns [of t] 2 by auto
  with 2 show ?case by auto
qed simp

text \<open>The back-off between 500 ms and 16 s.\<close>

definition backoff_ok :: "u32 \<Rightarrow> bool" where
  "backoff_ok ms \<longleftrightarrow> 500 \<le> unat ms \<and> unat ms \<le> 16000"

lemma backoff_next_ok: "backoff_ok ms \<Longrightarrow> backoff_ok (backoff_next ms)"
  by (auto simp: backoff_ok_def backoff_next_value)

lemma net_fail_returns:
  assumes "backoff_ok backoff"
  shows "net_fail ev (q, backoff, g) =
    Some ((q, backoff_next backoff, g\<lparr>g_connected := False\<rparr>), ev @ [Slept ((unat backoff + 499) div 500)])"
  using assms by (simp add: net_fail_def backoff_ok_def backoff_wait_some)

lemma net_send_returns:
  assumes "backoff_ok backoff" and "uplink_timed env"
  shows "\<exists>q' backoff' g' ev'. net_send qrecv env ev (q, backoff, g) = Some ((q', backoff', g'), ev') \<and> backoff_ok backoff'"
proof -
  obtain rs where "drain_replies (n_drain env) = Some rs"
    using drain_replies_returns [of "n_drain env"] assms(2) by (auto simp: uplink_timed_def)
  with assms(1) show ?thesis
    by (auto simp: net_send_def Let_def net_fail_returns backoff_next_ok sensor_packet split: prod.split option.split)
qed

lemma net_task_iter_returns:
  assumes "backoff_ok backoff" and "uplink_timed env"
  shows "\<exists>q' backoff' g' ev. net_task_iter qrecv env (q, backoff, g) = Some ((q', backoff', g'), ev) \<and> backoff_ok backoff'"
proof -
  obtain up where "wifi_ensure (n_wifi env) = Some up"
    using wifi_ensure_returns [of "n_wifi env"] assms(2) by (auto simp: uplink_timed_def)
  moreover obtain pkt session rest where
    "do_handshake (n_hello_written env) (n_hello_now env) (n_hello_obs env) = Some (pkt, session, rest)"
    using do_handshake_returns [of "n_hello_now env" "n_hello_obs env" "n_hello_written env"] assms(2)
    by (auto simp: uplink_timed_def)
  moreover have "backoff_ok BACKOFF_MIN_MS" by (simp add: backoff_ok_def fw_consts)
  ultimately show ?thesis
    using net_send_returns [OF _ assms(2)] assms(1)
    by (auto simp: net_task_iter_def Let_def net_fail_returns backoff_next_ok)
qed

definition action_timed :: "fw_action \<Rightarrow> bool" where
  "action_timed a = (case a of Sample _ \<Rightarrow> True | Uplink env \<Rightarrow> uplink_timed env)"

lemma fw_run_returns:
  assumes "list_all action_timed as" and "backoff_ok backoff"
  shows "\<exists>sq' q' backoff' g' ev. fw_run qsend qrecv as (sq, q, backoff, g) = Some ((sq', q', backoff', g'), ev) \<and> backoff_ok backoff'"
  using assms
proof (induction as arbitrary: sq q backoff g)
  case (Cons a as)
  show ?case
  proof (cases a)
    case (Sample env)
    obtain sq1 q1 g1 where "sensor_task_iter qsend env (sq, q, g) = (sq1, q1, g1)" by (metis prod_cases3)
    with Cons.IH [of backoff sq1 q1 g1] Cons.prems Sample show ?thesis by (auto simp: fw_act_def)
  next
    case (Uplink env)
    with Cons.prems obtain q1 backoff1 g1 ev1 where
      "net_task_iter qrecv env (q, backoff, g) = Some ((q1, backoff1, g1), ev1)" "backoff_ok backoff1"
      using net_task_iter_returns [of backoff env qrecv q g] by (auto simp: action_timed_def)
    with Cons.IH [of backoff1 sq q1 g1] Cons.prems Uplink show ?thesis by (auto simp: fw_act_def)
  qed
qed simp

section \<open>Properties\<close>

text \<open>
  C18. The device accounts for every reading. Over any interleaving of the sampler and the uplink,
  with a clock that passes the deadlines, every turn ends; readings are numbered 1, 2, 3 and so on;
  the readings the queue accepted are a subsequence of those taken, and each of them was taken out
  in that order or is still in the queue; the packets on the wire are those of the readings taken
  out, in order, without the ones whose write failed (these are lost: they are not put back); and
  the three counters count the accepted, the dropped and the sent readings, modulo 2^32. The
  back-off stays between half a second and 16 seconds.
\<close>

theorem fw_pipeline_accounting:
  assumes "queue_laws QUEUE_LEN contents qsend qrecv" and "contents q0 = []"
    and "list_all write_law as" and "list_all action_timed as"
  shows "\<exists>sq q backoff g ev acc outs. fw_run qsend qrecv as (fw_start q0) = Some ((sq, q, backoff, g), ev) \<and>
    map r_seq (samples 0 as) = map (\<lambda>k. of_nat (Suc k)) [0..<length (samples 0 as)] \<and>
    subseq acc (samples 0 as) \<and> acc = map fst outs @ contents q \<and>
    sent_whole ev = map (reading_packet \<circ> fst) (filter snd outs) \<and>
    g_produced g = of_nat (length acc) \<and> g_dropped g = of_nat (length (samples 0 as) - length acc) \<and>
    g_consumed g = of_nat (length (filter snd outs)) \<and> 500 \<le> unat backoff \<and> unat backoff \<le> 16000"
proof -
  have "backoff_ok BACKOFF_MIN_MS" by (simp add: backoff_ok_def fw_consts)
  then obtain sq q backoff g ev where run: "fw_run qsend qrecv as (fw_start q0) = Some ((sq, q, backoff, g), ev)"
    and ok: "backoff_ok backoff"
    using fw_run_returns [OF assms(4), of BACKOFF_MIN_MS qsend qrecv] unfolding fw_start_def by blast
  from assms(3) have "\<forall>a \<in> set as. write_law a" by (simp add: list_all_iff)
  from fw_run_account [OF assms(1) this run] obtain acc outs where
    "fw_account contents as (fw_start q0) (sq, q, backoff, g) ev acc outs" by blast
  with assms(2) have "acc = map fst outs @ contents q \<and> subseq acc (samples 0 as) \<and>
      sent_whole ev = map (reading_packet \<circ> fst) (filter snd outs) \<and> g_produced g = of_nat (length acc) \<and>
      g_dropped g = of_nat (length (samples 0 as) - length acc) \<and> g_consumed g = of_nat (length (filter snd outs))"
    by (simp add: fw_account_def fw_start_def) blast
  moreover have "map r_seq (samples 0 as) = map (\<lambda>k. of_nat (Suc k)) [0..<length (samples 0 as)]"
    using samples_seq [of 0 as] by (simp only: add_0)
  ultimately show ?thesis using run ok unfolding backoff_ok_def by blast
qed

text \<open>A queue of at most sixteen readings kept as a list; two samples, one packet sent and one broken write.\<close>

definition list_send :: "sensor_reading \<Rightarrow> sensor_reading list \<Rightarrow> bool \<times> sensor_reading list" where
  "list_send r q = (if length q < QUEUE_LEN then (True, q @ [r]) else (False, q))"

definition list_recv :: "sensor_reading list \<Rightarrow> sensor_reading option \<times> sensor_reading list" where
  "list_recv q = (case q of [] \<Rightarrow> (None, []) | r # rs \<Rightarrow> (Some r, rs))"

definition demo_sample :: "u32 \<Rightarrow> fw_action" where
  "demo_sample t = Sample \<lparr>d_status_ok = True, d_temp = Some 2412, d_hum = Some 4890, d_synth = (None, None), d_millis = t\<rparr>"

definition demo_uplink :: "nat \<Rightarrow> fw_action" where
  "demo_uplink n = Uplink \<lparr>n_wifi = (True, 0, [], True), n_tcp_connected = True, n_connect = False, n_hello_written = 0,
     n_hello_now = 0, n_hello_obs = [demo_obs 2000 []], n_written = n,
     n_drain = [\<lparr>t_available = 0, t_now1 = 0, t_now2 = 0, t_stale = [], t_obs = [demo_obs 200 []]\<rparr>]\<rparr>"

theorem fw_pipeline_accounting_witness:
  "\<exists>sq q backoff g ev acc outs.
     fw_run list_send list_recv [demo_sample 10, demo_sample 2010, demo_uplink 28, demo_uplink 5] (fw_start []) =
       Some ((sq, q, backoff, g), ev) \<and>
     acc = map fst outs @ q \<and> g_produced g = of_nat (length acc) \<and> g_consumed g = of_nat (length (filter snd outs))"
proof -
  have "queue_laws QUEUE_LEN (\<lambda>q. q) list_send list_recv"
    by (auto simp: queue_laws_def list_send_def list_recv_def split: list.split)
  moreover have "list_all write_law [demo_sample 10, demo_sample 2010, demo_uplink 28, demo_uplink 5]"
    by (simp add: write_law_def demo_sample_def demo_uplink_def pl_consts)
  moreover have "list_all action_timed [demo_sample 10, demo_sample 2010, demo_uplink 28, demo_uplink 5]"
    by (simp add: action_timed_def demo_sample_def demo_uplink_def uplink_timed_def polls_end_def turn_timed_def
        expired_def demo_obs_def pl_consts)
  ultimately show ?thesis
    using fw_pipeline_accounting [where contents = "\<lambda>q. q" and qsend = list_send and qrecv = list_recv and ?q0.0 = "[]"] by blast
qed

text \<open>
  While the Wi-Fi is down the uplink leaves the queue alone, reports the device offline and
  retries after 0.5, 1, 2, 4, 8 and then always 16 seconds.
\<close>

lemma offline_backoff:
  assumes "wifi_ensure (n_wifi env) = Some False"
  shows "\<exists>b. fw_run qsend qrecv (replicate k (Uplink env)) (fw_start q) =
    Some ((0, q, b, snd (snd (snd (fw_start q)))), map (\<lambda>i. Slept (min (2 ^ i) 32)) [0..<k]) \<and> unat b = min (500 * 2 ^ k) 16000"
proof -
  have step: "fw_act qsend qrecv (Uplink env) (sq, q, b, g\<lparr>g_connected := False\<rparr>) =
      Some ((sq, q, backoff_next b, g\<lparr>g_connected := False\<rparr>), [Slept ((unat b + 499) div 500)])" if "unat b \<le> 16000" for sq b g
    using assms that by (simp add: fw_act_def net_task_iter_def net_fail_def backoff_wait_some)
  have sleeps: "(min (500 * 2 ^ i) 16000 + 499) div 500 = min (2 ^ i) (32::nat)" for i
    by (cases "2 ^ i \<le> (32::nat)") (simp_all add: min_def)
  have run: "fw_run qsend qrecv (replicate k (Uplink env)) (sq, q, (backoff_next ^^ i) BACKOFF_MIN_MS, g\<lparr>g_connected := False\<rparr>) =
      Some ((sq, q, (backoff_next ^^ (i + k)) BACKOFF_MIN_MS, g\<lparr>g_connected := False\<rparr>),
        map (\<lambda>i. Slept (min (2 ^ i) 32)) [i..<i + k])" for sq g i
  proof (induction k arbitrary: i)
    case (Suc k)
    from Suc.IH [of "Suc i"] show ?case
      by (simp add: step backoff_iterate sleeps upt_conv_Cons del: upt_Suc)
  qed simp
  let ?g = "snd (snd (snd (fw_start q)))"
  have "fw_start q = (0, q, (backoff_next ^^ 0) BACKOFF_MIN_MS, ?g\<lparr>g_connected := False\<rparr>)" and "?g\<lparr>g_connected := False\<rparr> = ?g"
    by (simp_all add: fw_start_def)
  then show ?thesis using run [of 0 0 ?g] backoff_iterate [of k] by (metis add_0)
qed

end
