(* ===== verification/Fw_Link.thy ===== *)
theory Fw_Link
  imports Fw_Pipeline
begin

text \<open>
  The device of \<^verbatim>\<open>firmware/pulselink_fw.ino\<close> over one connection: the bytes the uplink puts on it, and
  what the device makes of the acknowledgements that come back.
\<close>

section \<open>The bytes of a connection\<close>

fun wire_bytes :: "net_event list \<Rightarrow> u8 list" where
  "wire_bytes [] = []"
| "wire_bytes (Wrote p # ev) = p @ wire_bytes ev"
| "wire_bytes (_ # ev) = wire_bytes ev"

lemma wire_bytes_append [simp]: "wire_bytes (xs @ ys) = wire_bytes xs @ wire_bytes ys"
  by (induction xs rule: wire_bytes.induct) simp_all

lemma wire_bytes_replies [simp]: "wire_bytes (map Reply rs) = []"
  by (induction rs) simp_all

text \<open>A turn that does not get as far as a connection; one that opens it; one on the open connection.\<close>

definition turn_offline :: "net_env \<Rightarrow> bool" where
  "turn_offline env \<longleftrightarrow> wifi_ensure (n_wifi env) = Some False \<or>
     wifi_ensure (n_wifi env) = Some True \<and> \<not> n_tcp_connected env \<and> \<not> n_connect env"

definition turn_opens :: "net_env \<Rightarrow> bool" where
  "turn_opens env \<longleftrightarrow> wifi_ensure (n_wifi env) = Some True \<and> \<not> n_tcp_connected env \<and> n_connect env \<and>
     n_hello_written env = PL_HELLO_PACKET_SIZE \<and> n_written env = PL_SENSOR_PACKET_SIZE \<and>
     (case do_handshake (n_hello_written env) (n_hello_now env) (n_hello_obs env) of
        Some (_, session, _) \<Rightarrow> session \<noteq> None | None \<Rightarrow> False)"

definition turn_streams :: "net_env \<Rightarrow> bool" where
  "turn_streams env \<longleftrightarrow> wifi_ensure (n_wifi env) = Some True \<and> n_tcp_connected env \<and> n_written env = PL_SENSOR_PACKET_SIZE"

text \<open>
  A run with one connection: the device is off-line for any number of turns, then a connection is
  made, and from then on it stays up and every write succeeds. Samples are taken at any time.
\<close>

fun one_connection :: "bool \<Rightarrow> fw_action list \<Rightarrow> bool" where
  "one_connection up [] = up"
| "one_connection up (Sample _ # as) = one_connection up as"
| "one_connection False (Uplink env # as) =
     (if turn_offline env then one_connection False as else turn_opens env \<and> one_connection True as)"
| "one_connection True (Uplink env # as) = (turn_streams env \<and> one_connection True as)"

abbreviation hello_wire :: "u8 list" where
  "hello_wire \<equiv> wire_packet PKT_HELLO DEVICE_ID (pair_bytes FW_VERSION CAPABILITIES)"

lemma net_send_stream:
  assumes "queue_laws cap contents qsend qrecv" and "n_written env = PL_SENSOR_PACKET_SIZE"
    and "net_send qrecv env ev (q, backoff, g) = Some ((q', backoff', g'), ev')"
  shows "\<exists>sent. contents q = sent @ contents q' \<and> wire_bytes ev' = wire_bytes ev @ concat (map reading_packet sent)"
proof (cases "contents q")
  case Nil
  with assms(1) have "fst (qrecv q) = None" "contents (snd (qrecv q)) = []" by (simp_all add: queue_laws_def)
  then obtain q1 where "qrecv q = (None, q1)" "contents q1 = []" by (cases "qrecv q") simp
  with assms(3) Nil show ?thesis by (intro exI [of _ "[]"]) (auto simp: net_send_def Let_def)
next
  case (Cons r rs)
  with assms(1) have "fst (qrecv q) = Some r" "contents (snd (qrecv q)) = rs" by (simp_all add: queue_laws_def)
  then obtain q1 where "qrecv q = (Some r, q1)" "contents q1 = rs" by (cases "qrecv q") simp
  with assms(2,3) Cons show ?thesis
    by (intro exI [of _ "[r]"]) (auto simp: net_send_def Let_def sensor_packet reading_packet_def)
qed

lemma turn_offline_effect:
  assumes "turn_offline env" and "net_task_iter qrecv env (q, backoff, g) = Some ((q', backoff', g'), ev)"
  shows "q' = q \<and> wire_bytes ev = []"
proof -
  from assms obtain ev0 where "net_fail ev0 (q, backoff, g) = Some ((q', backoff', g'), ev)" and "ev0 = [] \<or> ev0 = [Connect]"
    by (auto simp: turn_offline_def net_task_iter_def)
  from net_fail_effect [OF this(1)] this(2) show ?thesis by auto
qed

lemma turn_opens_effect:
  assumes "queue_laws cap contents qsend qrecv" and "turn_opens env"
    and "net_task_iter qrecv env (q, backoff, g) = Some ((q', backoff', g'), ev)"
  shows "\<exists>sent. contents q = sent @ contents q' \<and> wire_bytes ev = hello_wire @ concat (map reading_packet sent)"
proof -
  from assms(2) obtain pkt sid rest where hs: "do_handshake (n_hello_written env) (n_hello_now env) (n_hello_obs env) = Some (pkt, Some sid, rest)"
    by (auto simp: turn_opens_def split: option.splits)
  have wr: "n_hello_written env = PL_HELLO_PACKET_SIZE" "n_written env = PL_SENSOR_PACKET_SIZE" using assms(2) by (simp_all add: turn_opens_def)
  have pkt: "pkt = hello_wire" by (rule do_handshake_packet [OF hs])
  have "take PL_HELLO_PACKET_SIZE hello_wire = hello_wire" by (simp add: pl_consts)
  then have "net_send qrecv env [Connect, Wrote hello_wire] (q, BACKOFF_MIN_MS, g\<lparr>g_connected := True\<rparr>) = Some ((q', backoff', g'), ev)"
    using assms(2,3) hs wr(1) unfolding pkt by (simp add: net_task_iter_def turn_opens_def Let_def)
  from net_send_stream [OF assms(1) wr(2) this] show ?thesis by simp
qed

lemma turn_streams_effect:
  assumes "queue_laws cap contents qsend qrecv" and "turn_streams env"
    and "net_task_iter qrecv env (q, backoff, g) = Some ((q', backoff', g'), ev)"
  shows "\<exists>sent. contents q = sent @ contents q' \<and> wire_bytes ev = concat (map reading_packet sent)"
  using net_send_stream [OF assms(1), of env "[]" q backoff g q' backoff' g' ev] assms(2,3)
  by (simp add: turn_streams_def net_task_iter_def)

text \<open>\<open>link_ok\<close>: what went in and came out of the queue, and the bytes on the wire.\<close>

definition link_ok ::
  "('q \<Rightarrow> sensor_reading list) \<Rightarrow> bool \<Rightarrow> fw_action list \<Rightarrow> u32 \<Rightarrow> 'q \<Rightarrow> 'q \<Rightarrow> net_event list \<Rightarrow> sensor_reading list \<Rightarrow> sensor_reading list \<Rightarrow> bool" where
  "link_ok contents up as sq q q' ev acc sent \<longleftrightarrow> contents q @ acc = sent @ contents q' \<and> subseq acc (samples sq as) \<and>
     wire_bytes ev = (if up then [] else hello_wire) @ concat (map reading_packet sent)"

lemma link_sample:
  assumes "queue_laws cap contents qsend qrecv" and "sensor_task_iter qsend env (sq, q, g) = (sq1, q1, g1)"
    and "link_ok contents up as sq1 q1 q' ev acc sent"
  shows "\<exists>acc. link_ok contents up (Sample env # as) sq q q' ev acc sent"
proof -
  let ?r = "sample_of (sq + 1) env"
  obtain ok where send: "qsend ?r q = (ok, q1)" and sq1: "sq1 = sq + 1"
    using assms(2) by (auto simp: sensor_task_iter_eq Let_def split: prod.splits)
  have "contents (snd (qsend ?r q)) = (if length (contents q) < cap then contents q @ [?r] else contents q)"
    using assms(1) by (simp add: queue_laws_def)
  then have "contents q1 = contents q @ (if length (contents q) < cap then [?r] else [])" by (simp add: send)
  then have "link_ok contents up (Sample env # as) sq q q' ev ((if length (contents q) < cap then [?r] else []) @ acc) sent"
    using assms(3) sq1 by (auto simp: link_ok_def)
  then show ?thesis ..
qed

lemma link_uplink:
  assumes "contents q = sent1 @ contents q1" and "wire_bytes ev1 = (if up = up1 then [] else hello_wire) @ concat (map reading_packet sent1)"
    and "link_ok contents up1 as sq q1 q' ev acc sent" and "up \<Longrightarrow> up1" and "up1 \<and> \<not> up \<or> up \<or> sent1 = []"
  shows "link_ok contents up (Uplink env # as) sq q q' (ev1 @ ev) acc (sent1 @ sent)"
  using assms by (auto simp: link_ok_def)

lemma fw_run_link:
  assumes "queue_laws cap contents qsend qrecv"
  shows "one_connection up as \<Longrightarrow> fw_run qsend qrecv as (sq, q, b, g) = Some ((sq', q', b', g'), ev) \<Longrightarrow>
    \<exists>acc sent. link_ok contents up as sq q q' ev acc sent"
proof (induction as arbitrary: up sq q b g ev)
  case Nil
  then show ?case by (intro exI [of _ "[]"]) (simp add: link_ok_def)
next
  case (Cons a as)
  from Cons.prems(2) obtain sq1 q1 b1 g1 ev1 ev2 where act: "fw_act qsend qrecv a (sq, q, b, g) = Some ((sq1, q1, b1, g1), ev1)"
    and run: "fw_run qsend qrecv as (sq1, q1, b1, g1) = Some ((sq', q', b', g'), ev2)" and ev: "ev = ev1 @ ev2"
    by (auto split: option.splits)
  show ?case
  proof (cases a)
    case (Sample env)
    then have "sensor_task_iter qsend env (sq, q, g) = (sq1, q1, g1)" "ev1 = []" using act by (auto simp: fw_act_def split: prod.splits)
    moreover obtain acc sent where "link_ok contents up as sq1 q1 q' ev2 acc sent" using Cons.IH [OF _ run, of up] Cons.prems(1) Sample by auto
    ultimately show ?thesis using link_sample [OF assms] unfolding Sample ev by fastforce
  next
    case (Uplink env)
    then have it: "net_task_iter qrecv env (q, b, g) = Some ((q1, b1, g1), ev1)" "sq1 = sq"
      using act by (auto simp: fw_act_def split: option.splits)
    obtain up1 sent1 where turn: "one_connection up1 as" "contents q = sent1 @ contents q1"
      "wire_bytes ev1 = (if up = up1 then [] else hello_wire) @ concat (map reading_packet sent1)" "up \<Longrightarrow> up1" "up1 \<and> \<not> up \<or> up \<or> sent1 = []"
    proof (cases up)
      case True
      then have "turn_streams env" "one_connection True as" using Cons.prems(1) Uplink by simp_all
      with turn_streams_effect [OF assms _ it(1)] that [of True] True show ?thesis by fastforce
    next
      case False
      show ?thesis
      proof (cases "turn_offline env")
        case True
        with turn_offline_effect [OF True it(1)] that [of False "[]"] False Cons.prems(1) Uplink show ?thesis by simp
      next
        case off: False
        then have "turn_opens env" "one_connection True as" using False Cons.prems(1) Uplink by simp_all
        with turn_opens_effect [OF assms _ it(1)] that [of True] False show ?thesis by fastforce
      qed
    qed
    obtain acc sent where "link_ok contents up1 as sq q1 q' ev2 acc sent" using Cons.IH [OF turn(1) run] it(2) by auto
    with link_uplink [where contents = contents, OF turn(2,3) _ turn(4,5)] show ?thesis unfolding Uplink ev by blast
  qed
qed

section \<open>Acknowledgements\<close>

text \<open>A turn of the drain loop to which an ACK is delivered whole and in time.\<close>

definition ack_turn :: "u32 \<Rightarrow> u32 \<Rightarrow> drain_turn \<Rightarrow> bool" where
  "ack_turn i n t \<longleftrightarrow> PL_HDR_SIZE \<le> t_available t \<and> length (t_stale t) = 64 \<and>
     (\<exists>obs1 obs2. t_obs t = obs1 @ obs2 \<and>
       (\<forall>ob \<in> set obs1. \<not> expired (t_now1 t + 200) ob \<and> \<not> dead ob) \<and>
       (\<forall>ob \<in> set obs1 \<union> set obs2. \<not> expired (t_now2 t + 200) ob \<and> \<not> dead ob) \<and>
       concat (map o_read obs1) = take PL_HDR_SIZE (wire_packet PKT_ACK i (mem_u32 BigEndian n)) \<and>
       concat (map o_read obs2) = mem_u32 BigEndian n)"

lemma drain_one_ack:
  assumes "ack_turn i n t"
  shows "drain_one t = Some (True, [Ack n])"
proof -
  let ?h = "take PL_HDR_SIZE (wire_packet PKT_ACK i (mem_u32 BigEndian n))" and ?p = "mem_u32 BigEndian n"
  from assms obtain obs1 obs2 where obs: "t_obs t = obs1 @ obs2" "\<forall>ob \<in> set obs1. \<not> expired (t_now1 t + 200) ob \<and> \<not> dead ob"
    "\<forall>ob \<in> set obs1 \<union> set obs2. \<not> expired (t_now2 t + 200) ob \<and> \<not> dead ob" "concat (map o_read obs1) = ?h" "concat (map o_read obs2) = ?p"
    and stale: "length (t_stale t) = 64" by (auto simp: ack_turn_def)
  have "\<exists>es. read_exact PL_HDR_SIZE (t_now1 t + 200) [] (obs1 @ obs2) = Some (True, ?h, es @ obs2) \<and> set es \<subseteq> set obs1 \<and> concat (map o_read es) = []"
    by (rule read_exact_all) (use obs in simp_all)
  then obtain es1 where r1: "read_exact PL_HDR_SIZE (t_now1 t + 200) [] (t_obs t) = Some (True, ?h, es1 @ obs2)"
    and es1: "set es1 \<subseteq> set obs1" "concat (map o_read es1) = []" using obs(1) by auto
  have "\<exists>es. read_exact 4 (t_now2 t + 200) [] ((es1 @ obs2) @ []) = Some (True, ?p, es @ []) \<and> set es \<subseteq> set (es1 @ obs2) \<and> concat (map o_read es) = []"
    by (rule read_exact_all) (use obs(3,5) es1 in \<open>auto simp del: mem_u32.simps\<close>)
  then obtain es where r2: "read_exact 4 (t_now2 t + 200) [] (es1 @ obs2) = Some (True, ?p, es)" by auto
  have pl: "memcpy_at (t_stale t) 0 ?p = ?p @ drop 4 (t_stale t)" by (simp add: memcpy_at_def del: mem_u32.simps)
  have "rd_u32 (?p @ drop 4 (t_stale t)) 0 = n"
    using c32.dec_enc [of BigEndian n "drop 4 (t_stale t)"] by (simp add: rd_u32_ld del: mem_u32.simps ld_u32.simps)
  moreover have "pl_checksum (?p @ drop 4 (t_stale t)) 4 = pl_checksum ?p 4"
    using pl_checksum_append [of ?p "drop 4 (t_stale t)"] by (simp del: mem_u32.simps)
  ultimately show ?thesis
    unfolding drain_one_def telemetry_asserts r1 using r2 by (simp add: parse_wire_header pl Let_def del: mem_u32.simps ld_u32.simps)
qed

lemma drain_replies_acks:
  assumes "list_all2 (ack_turn i) ns ts" and "t_available t < PL_HDR_SIZE"
  shows "drain_replies (ts @ t # rest) = Some (map Ack ns)"
  using assms(1)
proof (induction rule: list_all2_induct)
  case Nil
  then show ?case using assms(2) by simp
next
  case (Cons n ns t1 ts)
  then show ?case by (simp add: drain_one_ack [OF Cons.hyps(1)] ack_turn_def)
qed

end
