(* ===== verification/Fw_Boot.thy ===== *)
theory Fw_Boot
  imports Fw_Pipeline
begin

text \<open>
  The rest of \<^verbatim>\<open>firmware/pulselink_fw.ino\<close>: its configuration, \<^verbatim>\<open>setup\<close>, the tasks that only show the state
  of the device (statistics, dashboard, LED), and the task watchdog. Calls into the platform are
  recorded as a list, in order. For the watchdog, a turn of the uplink is the sequence of its
  check-ins and of the calls in which it can block.
\<close>

section \<open>Configuration\<close>

definition LED_PIN :: int where "LED_PIN = 23"
definition DHT_PIN :: int where "DHT_PIN = 15"
definition SAMPLE_PERIOD_MS :: u32 where "SAMPLE_PERIOD_MS = 2000"
definition WIFI_SSID :: string where "WIFI_SSID = ''Wokwi-GUEST''"
definition WIFI_PASS :: string where "WIFI_PASS = ''''"
definition SERVER_HOST :: string where "SERVER_HOST = ''host.wokwi.internal''"
definition SERVER_TCP_PORT :: u16 where "SERVER_TCP_PORT = 9000"
definition SERVER_UDP_PORT :: u16 where "SERVER_UDP_PORT = 9001"
definition WDT_TIMEOUT_S :: u32 where "WDT_TIMEOUT_S = 10"

section \<open>Start-up\<close>

datatype fw_task = SensorTask | NetTask | HeartbeatTask | StatsTask | LedTask | DisplayTask

text \<open>A call of \<^verbatim>\<open>xTaskCreatePinnedToCore\<close>: name, stack, priority and core.\<close>

record task_entry =
  te_task :: fw_task
  te_name :: string
  te_stack :: nat
  te_prio :: nat
  te_core :: nat

datatype fw_call =
    SerialBegin nat
  | SerialPrint string
  | DelayMs u32
  | PinModeOutput int
  | DigitalWrite int bool
  | DhtSetup int
  | QueueCreate nat
  | WdtReconfigure u32 nat bool
  | WdtInit u32 bool
  | CreateTask task_entry
  | WireBegin int int
  | OledBegin nat
  | OledText
  | OledShow "string list"
  | TaskDelete
  | WifiStation
  | WifiBegin string string
  | WdtReset
  | TcpConnect string u16 nat
  | UdpBegin string u16
  | UdpWrite "u8 list"
  | UdpEnd

text \<open>\<open>v3\<close>: whether \<^verbatim>\<open>ESP_ARDUINO_VERSION_MAJOR\<close> is at least 3.\<close>

definition setup_watchdog :: "bool \<Rightarrow> fw_call list" where
  "setup_watchdog v3 = (if v3 then [WdtReconfigure (WDT_TIMEOUT_S * 1000) 0 True] else [WdtInit WDT_TIMEOUT_S True])"

definition fw_tasks :: "task_entry list" where
  "fw_tasks =
     [\<lparr>te_task = SensorTask, te_name = ''sensor'', te_stack = 4096, te_prio = 3, te_core = 1\<rparr>,
      \<lparr>te_task = NetTask, te_name = ''net'', te_stack = 8192, te_prio = 2, te_core = 0\<rparr>,
      \<lparr>te_task = HeartbeatTask, te_name = ''heartbeat'', te_stack = 4096, te_prio = 1, te_core = 0\<rparr>,
      \<lparr>te_task = StatsTask, te_name = ''stats'', te_stack = 3072, te_prio = 1, te_core = 0\<rparr>,
      \<lparr>te_task = LedTask, te_name = ''led'', te_stack = 2048, te_prio = 1, te_core = 1\<rparr>,
      \<lparr>te_task = DisplayTask, te_name = ''display'', te_stack = 4096, te_prio = 1, te_core = 1\<rparr>]"

text \<open>The calls of \<^verbatim>\<open>setup\<close>, and whether it returns: without a queue it prints a message and waits for ever.\<close>

definition fw_setup :: "bool \<Rightarrow> bool \<Rightarrow> fw_call list \<times> bool" where
  "fw_setup v3 queue_ok =
     (let calls = [SerialBegin 115200, DelayMs 200, PinModeOutput LED_PIN, DhtSetup DHT_PIN, QueueCreate QUEUE_LEN] in
      if \<not> queue_ok then (calls @ [SerialPrint (''FATAL: queue allocation failed'' @ newline)], False)
      else (calls @ setup_watchdog v3 @ [SerialPrint newline,
              SerialPrint (''PulseLink firmware (M5): Wi-Fi + TCP uplink, reconnect, heartbeat, watchdog'' @ newline)] @
            map CreateTask fw_tasks, True))"

definition fw_loop :: "fw_call list" where
  "fw_loop = [DelayMs 1000]"

section \<open>The tasks that show the state\<close>

definition stats_task_iter :: "nat \<Rightarrow> u32 \<Rightarrow> fw_globals \<Rightarrow> fw_call list" where
  "stats_task_iter waiting heap g = [DelayMs 5000, SerialPrint (stats_line waiting heap g)]"

text \<open>Before the loop of the dashboard: without a panel the task ends.\<close>

definition display_task_start :: "bool \<Rightarrow> fw_call list \<times> bool" where
  "display_task_start found =
     (if \<not> found then
        ([WireBegin 21 22, OledBegin 0x3C, SerialPrint (''[oled] not found (running without display)'' @ newline), TaskDelete], False)
      else ([WireBegin 21 22, OledBegin 0x3C, OledText], True))"

definition display_task_iter :: "u32 \<Rightarrow> fw_globals \<Rightarrow> fw_call list" where
  "display_task_iter heap g = [OledShow (oled_screen heap g), DelayMs 1000]"

definition led_task_iter :: "fw_globals \<Rightarrow> fw_call list" where
  "led_task_iter g =
     (let half = led_half g in [DigitalWrite LED_PIN True, DelayMs half, DigitalWrite LED_PIN False, DelayMs half])"

section \<open>Calls into the network\<close>

definition sensor_task_pause :: "fw_call list" where
  "sensor_task_pause = [DelayMs SAMPLE_PERIOD_MS]"

definition wifi_begin :: "fw_call list" where
  "wifi_begin = [SerialPrint (''[net] Wi-Fi connecting to '' @ WIFI_SSID @ '' ...'' @ newline), WifiStation, WifiBegin WIFI_SSID WIFI_PASS]"

text \<open>The timeout of four seconds is the last argument of \<^verbatim>\<open>connect\<close>.\<close>

definition tcp_open :: "fw_call list" where
  "tcp_open = [SerialPrint (''[net] TCP connect '' @ SERVER_HOST @ '':'' @ fmt_u (unat SERVER_TCP_PORT) @ newline),
     WdtReset, TcpConnect SERVER_HOST SERVER_TCP_PORT 4000]"

text \<open>A turn of the heartbeat task.\<close>

definition heartbeat_calls :: "bool \<Rightarrow> u32 \<Rightarrow> u32 \<Rightarrow> fw_call list" where
  "heartbeat_calls wifi millis heap = DelayMs 5000 #
     (case heartbeat_task_iter wifi millis heap of
        None \<Rightarrow> []
      | Some pkt \<Rightarrow> [UdpBegin SERVER_HOST SERVER_UDP_PORT, UdpWrite pkt, UdpEnd])"

section \<open>The watchdog\<close>

text \<open>\<open>Fed\<close>: a call of \<^verbatim>\<open>esp_task_wdt_reset\<close>; \<open>Busy ms\<close>: a call that blocks so long.\<close>

datatype wd_event = Fed | Busy nat

text \<open>How long the blocking calls of a turn take: \<^verbatim>\<open>connect\<close>, the two writes, \<^verbatim>\<open>xQueueReceive\<close>.\<close>

record turn_times =
  tm_connect :: nat
  tm_hello :: nat
  tm_queue :: nat
  tm_write :: nat

fun read_feed :: "nat \<Rightarrow> u32 \<Rightarrow> u8 list \<Rightarrow> read_obs list \<Rightarrow> wd_event list" where
  "read_feed len deadline acc [] = []"
| "read_feed len deadline acc (o1 # os) =
     (if length acc < len then
        if sint (o_millis o1 - deadline) \<ge> 0 then []
        else if \<not> o_connected o1 \<and> o_available o1 = 0 then []
        else (if o_read o1 = [] then [Fed, Busy 5] else []) @
          read_feed len deadline (acc @ take (len - length acc) (o_read o1)) os
      else [])"

fun wifi_feed :: "u32 \<Rightarrow> (bool \<times> u32) list \<Rightarrow> wd_event list" where
  "wifi_feed start [] = []"
| "wifi_feed start ((up, now) # polls) =
     (if \<not> up \<and> now - start < 15000 then [Fed, Busy 250] @ wifi_feed start polls else [])"

definition backoff_feed :: "u32 \<Rightarrow> wd_event list" where
  "backoff_feed ms = (case backoff_loop ms 0 0 of None \<Rightarrow> [] | Some sleeps \<Rightarrow> concat (replicate sleeps [Fed, Busy 500]))"

text \<open>Header and payload of a packet, as the handshake and the drain loop read them.\<close>

definition packet_feed :: "u32 \<Rightarrow> u32 \<Rightarrow> read_obs list \<Rightarrow> wd_event list" where
  "packet_feed deadline1 deadline2 obs =
     read_feed PL_HDR_SIZE deadline1 [] obs @
     (case read_exact PL_HDR_SIZE deadline1 [] obs of
        None \<Rightarrow> []
      | Some (ok, hdr, obs1) \<Rightarrow>
          if \<not> ok then []
          else (case pl_parse_header_fw hdr of
                  None \<Rightarrow> []
                | Some rh \<Rightarrow>
                    if unat (rx_payload_len rh) > 64 then []
                    else if rx_payload_len rh \<noteq> 0 then read_feed (unat (rx_payload_len rh)) deadline2 [] obs1 else []))"

definition handshake_feed :: "turn_times \<Rightarrow> nat \<Rightarrow> u32 \<Rightarrow> read_obs list \<Rightarrow> wd_event list" where
  "handshake_feed tm written now obs =
     Busy (tm_hello tm) # (if written \<noteq> PL_HELLO_PACKET_SIZE then [] else packet_feed (now + 2000) (now + 2000) obs)"

fun drain_feed :: "drain_turn list \<Rightarrow> wd_event list" where
  "drain_feed [] = []"
| "drain_feed (t # ts) =
     (if t_available t < PL_HDR_SIZE then []
      else packet_feed (t_now1 t + 200) (t_now2 t + 200) (t_obs t) @
        (case drain_one t of None \<Rightarrow> [] | Some (go_on, out) \<Rightarrow> if go_on then drain_feed ts else []))"

definition send_feed :: "turn_times \<Rightarrow> net_env \<Rightarrow> sensor_reading option \<Rightarrow> u32 \<Rightarrow> wd_event list" where
  "send_feed tm env r backoff =
     Busy (tm_queue tm) #
     (case r of
        None \<Rightarrow> drain_feed (n_drain env)
      | Some _ \<Rightarrow> Busy (tm_write tm) #
          (if n_written env \<noteq> PL_SENSOR_PACKET_SIZE then backoff_feed backoff else drain_feed (n_drain env)))"

definition net_task_feed :: "turn_times \<Rightarrow> net_env \<Rightarrow> sensor_reading option \<Rightarrow> u32 \<Rightarrow> wd_event list" where
  "net_task_feed tm env r backoff =
     [Fed] @ (case n_wifi env of (up, start, polls, final) \<Rightarrow> if up then [] else wifi_feed start polls) @
     (case wifi_ensure (n_wifi env) of
        None \<Rightarrow> []
      | Some up \<Rightarrow>
          if \<not> up then backoff_feed backoff
          else if n_tcp_connected env then send_feed tm env r backoff
          else [Fed, Busy (tm_connect tm)] @
            (if \<not> n_connect env then backoff_feed backoff
             else handshake_feed tm (n_hello_written env) (n_hello_now env) (n_hello_obs env) @
               (case do_handshake (n_hello_written env) (n_hello_now env) (n_hello_obs env) of
                  None \<Rightarrow> []
                | Some (_, session, _) \<Rightarrow> if session = None then backoff_feed backoff else send_feed tm env r BACKOFF_MIN_MS)))"

text \<open>A run of the tasks, with the times of every turn.\<close>

fun fw_feed ::
  "(sensor_reading \<Rightarrow> 'q \<Rightarrow> bool \<times> 'q) \<Rightarrow> ('q \<Rightarrow> sensor_reading option \<times> 'q) \<Rightarrow> (fw_action \<times> turn_times) list \<Rightarrow>
   'q fw_state \<Rightarrow> wd_event list" where
  "fw_feed qsend qrecv [] st = []"
| "fw_feed qsend qrecv ((a, tm) # as) st =
     (case st of (sq, q, backoff, g) \<Rightarrow>
      (case a of Sample _ \<Rightarrow> [] | Uplink env \<Rightarrow> net_task_feed tm env (fst (qrecv q)) backoff)) @
     (case fw_act qsend qrecv a st of None \<Rightarrow> [] | Some (st1, _) \<Rightarrow> fw_feed qsend qrecv as st1)"

text \<open>The watchdog counts up in blocking calls and starts again when it is fed; it must not reach its limit.\<close>

fun wd_level :: "nat \<Rightarrow> wd_event list \<Rightarrow> nat" where
  "wd_level a [] = a"
| "wd_level a (Fed # ev) = wd_level 0 ev"
| "wd_level a (Busy ms # ev) = wd_level (a + ms) ev"

fun wd_ok :: "nat \<Rightarrow> nat \<Rightarrow> wd_event list \<Rightarrow> bool" where
  "wd_ok limit a [] = (a < limit)"
| "wd_ok limit a (Fed # ev) = (a < limit \<and> wd_ok limit 0 ev)"
| "wd_ok limit a (Busy ms # ev) = (a < limit \<and> wd_ok limit (a + ms) ev)"

section \<open>The watchdog is fed\<close>

lemma wd_level_append: "wd_level a (xs @ ys) = wd_level (wd_level a xs) ys"
  by (induction a xs rule: wd_level.induct) simp_all

lemma wd_ok_append: "wd_ok limit a (xs @ ys) \<longleftrightarrow> wd_ok limit a xs \<and> wd_ok limit (wd_level a xs) ys"
proof (induction a xs rule: wd_level.induct)
  case (1 a)
  then show ?case by (cases ys) (auto elim: wd_ok.elims)
qed auto

text \<open>\<open>calm lim ev\<close>: in \<open>ev\<close> the level stays where it was or below \<open>lim\<close>.\<close>

definition calm :: "nat \<Rightarrow> wd_event list \<Rightarrow> bool" where
  "calm lim ev \<longleftrightarrow> (\<forall>a limit. a < limit \<longrightarrow> lim < limit \<longrightarrow> wd_ok limit a ev \<and> wd_level a ev \<le> max a lim)"

lemma calm_Nil [simp]: "calm lim []"
  by (simp add: calm_def)

lemma calm_append: "calm lim xs \<Longrightarrow> calm lim ys \<Longrightarrow> calm lim (xs @ ys)"
  unfolding calm_def wd_ok_append wd_level_append
proof (intro allI impI conjI)
  fix a limit :: nat
  assume xs: "\<forall>a limit. a < limit \<longrightarrow> lim < limit \<longrightarrow> wd_ok limit a xs \<and> wd_level a xs \<le> max a lim"
    and ys: "\<forall>a limit. a < limit \<longrightarrow> lim < limit \<longrightarrow> wd_ok limit a ys \<and> wd_level a ys \<le> max a lim"
    and lt: "a < limit" "lim < limit"
  have 1: "wd_ok limit a xs" "wd_level a xs \<le> max a lim" using xs lt by blast+
  then have "wd_level a xs < limit" using lt by simp
  then have 2: "wd_ok limit (wd_level a xs) ys" "wd_level (wd_level a xs) ys \<le> max (wd_level a xs) lim" using ys lt by blast+
  show "wd_ok limit a xs" "wd_ok limit (wd_level a xs) ys" "wd_level (wd_level a xs) ys \<le> max a lim" using 1 2 by simp_all
qed

lemma calm_nap: "ms \<le> lim \<Longrightarrow> calm lim [Fed, Busy ms]"
  by (auto simp: calm_def)

lemma calm_concat: "\<forall>x \<in> set xs. calm lim x \<Longrightarrow> calm lim (concat xs)"
  by (induction xs) (auto intro: calm_append)

lemma calm_read: "5 \<le> lim \<Longrightarrow> calm lim (read_feed len deadline acc obs)"
proof (induction len deadline acc obs rule: read_feed.induct)
  case (2 len deadline acc o1 os)
  let ?rest = "read_feed len deadline (acc @ take (len - length acc) (o_read o1)) os"
  show ?case
  proof (cases "length acc < len \<and> \<not> sint (o_millis o1 - deadline) \<ge> 0 \<and> \<not> (\<not> o_connected o1 \<and> o_available o1 = 0)")
    case True
    then have rest: "calm lim ?rest" using 2 by blast
    have "calm lim ((if o_read o1 = [] then [Fed, Busy 5] else []) @ ?rest)"
      by (rule calm_append [OF _ rest]) (use 2 calm_nap in simp)
    with True show ?thesis by (simp only: read_feed.simps if_True if_False simp_thms)
  qed auto
qed simp

lemma calm_wifi: "250 \<le> lim \<Longrightarrow> calm lim (wifi_feed start polls)"
proof (induction start polls rule: wifi_feed.induct)
  case (2 start up now polls)
  then show ?case using calm_append [OF calm_nap [of 250 lim]] by auto
qed simp

lemma calm_backoff: "500 \<le> lim \<Longrightarrow> calm lim (backoff_feed ms)"
  by (auto simp: backoff_feed_def intro!: calm_concat calm_nap split: option.split)

lemma calm_packet: "5 \<le> lim \<Longrightarrow> calm lim (packet_feed d1 d2 obs)"
  unfolding packet_feed_def by (intro calm_append) (auto intro: calm_read split: option.split)

lemma calm_drain: "5 \<le> lim \<Longrightarrow> calm lim (drain_feed ts)"
  by (induction ts) (auto intro: calm_append calm_packet split: option.split)

lemma calmD: "calm lim ev \<Longrightarrow> a < limit \<Longrightarrow> lim < limit \<Longrightarrow> wd_ok limit a ev \<and> wd_level a ev \<le> max a lim"
  by (simp add: calm_def)

text \<open>\<open>holds limit a ev\<close>: the watchdog at \<open>a\<close> survives \<open>ev\<close>, and is still below the limit after it.\<close>

definition holds :: "nat \<Rightarrow> nat \<Rightarrow> wd_event list \<Rightarrow> bool" where
  "holds limit a ev \<longleftrightarrow> wd_ok limit a ev \<and> wd_level a ev < limit"

lemma holds_calm: "calm lim ev \<Longrightarrow> a < limit \<Longrightarrow> lim < limit \<Longrightarrow> holds limit a ev"
  unfolding holds_def using calmD [of lim ev a limit] by auto

lemma holds_append: "wd_ok limit a xs \<Longrightarrow> holds limit (wd_level a xs) ys \<Longrightarrow> holds limit a (xs @ ys)"
  by (simp add: holds_def wd_ok_append wd_level_append)

lemma holds_Fed: "a < limit \<Longrightarrow> holds limit 0 ev \<Longrightarrow> holds limit a (Fed # ev)"
  by (simp add: holds_def)

lemma holds_Busy: "a < limit \<Longrightarrow> holds limit (a + ms) ev \<Longrightarrow> holds limit a (Busy ms # ev)"
  by (simp add: holds_def)

lemma holds_send:
  assumes "a + tm_queue tm + tm_write tm < limit" and "500 < limit"
  shows "holds limit a (send_feed tm env r backoff)"
  unfolding send_feed_def using assms
  by (intro holds_Busy) (auto intro!: holds_Busy holds_calm [OF calm_backoff [of 500]] holds_calm [OF calm_drain [of 5]] split: option.split)

text \<open>The times allowed: the documented limits of \<^verbatim>\<open>connect\<close> and \<^verbatim>\<open>xQueueReceive\<close>, and less than five seconds
  for the two writes of a turn together.\<close>

definition times_ok :: "turn_times \<Rightarrow> bool" where
  "times_ok tm \<longleftrightarrow> tm_connect tm \<le> 4000 \<and> tm_queue tm \<le> 1000 \<and> tm_hello tm + tm_write tm < 5000"

lemma holds_handshake:
  assumes "times_ok tm" and "a \<le> 4000"
  shows "wd_ok 10000 a (handshake_feed tm n now obs)"
    and "wd_level a (handshake_feed tm n now obs) + tm_queue tm + tm_write tm < 10000"
proof -
  have "a + tm_hello tm < 10000" using assms by (simp add: times_ok_def)
  note c = calmD [OF calm_packet [of 5 "now + 2000" "now + 2000" obs] this]
  show "wd_ok 10000 a (handshake_feed tm n now obs)" using c assms by (simp add: handshake_feed_def times_ok_def)
  have "wd_level a (handshake_feed tm n now obs) \<le> max (a + tm_hello tm) 5" using c by (simp add: handshake_feed_def)
  then show "wd_level a (handshake_feed tm n now obs) + tm_queue tm + tm_write tm < 10000"
    using assms unfolding times_ok_def by linarith
qed

lemma holds_connect:
  assumes "times_ok tm"
  shows "holds 10000 0 (Busy (tm_connect tm) #
    (if \<not> n_connect env then backoff_feed backoff
     else handshake_feed tm (n_hello_written env) (n_hello_now env) (n_hello_obs env) @
       (case do_handshake (n_hello_written env) (n_hello_now env) (n_hello_obs env) of
          None \<Rightarrow> []
        | Some (_, session, _) \<Rightarrow> if session = None then backoff_feed backoff else send_feed tm env r BACKOFF_MIN_MS)))"
proof (rule holds_Busy)
  let ?hs = "handshake_feed tm (n_hello_written env) (n_hello_now env) (n_hello_obs env)"
  have c: "0 + tm_connect tm \<le> 4000" using assms by (simp add: times_ok_def)
  note hs = holds_handshake [OF assms c, of "n_hello_written env" "n_hello_now env" "n_hello_obs env"]
  have "holds 10000 (wd_level (0 + tm_connect tm) ?hs) ev" if "ev = [] \<or> ev = backoff_feed backoff \<or> ev = send_feed tm env r BACKOFF_MIN_MS" for ev
    using that hs(2) holds_send [OF hs(2), of env r BACKOFF_MIN_MS] holds_calm [OF calm_backoff [of 500 backoff]]
    by (elim disjE) (simp_all add: holds_def [of _ _ "[]"])
  then have "holds 10000 (0 + tm_connect tm) (?hs @ (case do_handshake (n_hello_written env) (n_hello_now env) (n_hello_obs env) of
          None \<Rightarrow> []
        | Some (_, session, _) \<Rightarrow> if session = None then backoff_feed backoff else send_feed tm env r BACKOFF_MIN_MS))"
    by (intro holds_append [OF hs(1)]) (auto split: option.split)
  moreover have "holds 10000 (0 + tm_connect tm) (backoff_feed backoff)" using c by (intro holds_calm [OF calm_backoff [of 500]]) simp_all
  ultimately show "holds 10000 (0 + tm_connect tm) (if \<not> n_connect env then backoff_feed backoff else ?hs @
      (case do_handshake (n_hello_written env) (n_hello_now env) (n_hello_obs env) of None \<Rightarrow> []
        | Some (_, session, _) \<Rightarrow> if session = None then backoff_feed backoff else send_feed tm env r BACKOFF_MIN_MS))" by simp
qed simp

lemma holds_net_task:
  assumes "times_ok tm" and "a < 10000"
  shows "holds 10000 a (net_task_feed tm env r backoff)"
proof -
  obtain up start polls final where w: "n_wifi env = (up, start, polls, final)" by (cases "n_wifi env")
  let ?wf = "if up then [] else wifi_feed start polls"
  have wf: "wd_ok 10000 0 ?wf" "wd_level 0 ?wf \<le> 250" using calmD [OF calm_wifi [of 250 start polls], of 0 10000] by auto
  have send: "holds 10000 (wd_level 0 ?wf) (send_feed tm env r backoff)"
    using wf(2) assms(1) by (intro holds_send) (simp_all add: times_ok_def)
  have wait: "holds 10000 (wd_level 0 ?wf) (backoff_feed backoff)" using wf(2) by (intro holds_calm [OF calm_backoff [of 500]]) simp_all
  have none: "holds 10000 (wd_level 0 ?wf) []" using wf(2) by (simp add: holds_def)
  have conn: "holds 10000 (wd_level 0 ?wf) ([Fed, Busy (tm_connect tm)] @ ev)" if "holds 10000 0 (Busy (tm_connect tm) # ev)" for ev
    using that wf(2) unfolding append_Cons append_Nil by (intro holds_Fed) simp_all
  note turn = holds_append [OF wf(1)]
  show ?thesis
  proof (cases "wifi_ensure (n_wifi env)")
    case None
    then show ?thesis unfolding net_task_feed_def w prod.case append_Cons append_Nil using assms(2) turn [OF none]
      by (intro holds_Fed) (simp_all only: option.case)
  next
    case (Some joined)
    show ?thesis unfolding net_task_feed_def Some [unfolded w] w prod.case append_Cons append_Nil option.case
      using turn [OF wait] turn [OF send] turn [OF conn [OF holds_connect [OF assms(1), of env backoff r]]]
      by (intro holds_Fed [OF assms(2)], cases joined; cases "n_tcp_connected env")
        (simp_all only: if_True if_False simp_thms append_Cons append_Nil)
  qed
qed

lemma fw_feed_holds:
  "list_all (\<lambda>(_, tm). times_ok tm) as \<Longrightarrow> a < 10000 \<Longrightarrow> holds 10000 a (fw_feed qsend qrecv as st)"
proof (induction as arbitrary: a st)
  case Nil
  then show ?case by (simp add: holds_def)
next
  case (Cons x as)
  obtain act tm where x: "x = (act, tm)" by (cases x)
  obtain sq q backoff g where st: "st = (sq, q, backoff, g)" by (cases st)
  let ?now = "case act of Sample _ \<Rightarrow> [] | Uplink env \<Rightarrow> net_task_feed tm env (fst (qrecv q)) backoff"
  have now: "holds 10000 a ?now" using Cons.prems holds_net_task [of tm a] by (auto simp: x holds_def [of _ _ "[]"] split: fw_action.split)
  then have "holds 10000 (wd_level a ?now) (case fw_act qsend qrecv act st of None \<Rightarrow> [] | Some (st1, _) \<Rightarrow> fw_feed qsend qrecv as st1)"
    using Cons.IH [of "wd_level a ?now"] Cons.prems by (auto simp: x holds_def split: option.split)
  with now show ?case unfolding x st fw_feed.simps prod.case by (intro holds_append) (simp_all add: holds_def)
qed

section \<open>Properties\<close>

text \<open>The sampler has the highest priority on its core, and the tasks that use the network are on the other.\<close>

lemma sampler_first:
  "\<forall>e \<in> set fw_tasks. te_task e \<noteq> SensorTask \<longrightarrow> te_core e = 1 \<longrightarrow> te_prio e < 3 \<and> te_task e \<noteq> NetTask \<and> te_task e \<noteq> HeartbeatTask"
  by (simp add: fw_tasks_def)



end
