(* ===== verification/Sketch_Framing.thy ===== *)
theory Sketch_Framing
  imports Fw_Telemetry
begin

text \<open>
  The first part of \<^verbatim>\<open>firmware/wokwi_singlefile/sketch.ino\<close>, the firmware in one file for the simulator:
  the protocol constants, the checksum and the framing, which the file has inlined. There the
  constants are macros and enumerators, so they have type \<open>int\<close> and the code converts and compares
  through the integer promotions; the bytes are stored one by one. The lemmas show that this is
  the framing of the modular sources.
\<close>

section \<open>Inlined constants and types\<close>

named_theorems sk_consts "values of the inlined constants"

definition sk_PL_MAGIC :: int where [sk_consts]: "sk_PL_MAGIC = 0x504C"
definition sk_PL_VERSION :: int where [sk_consts]: "sk_PL_VERSION = 0x01"
definition sk_PL_HDR_SIZE :: nat where [sk_consts]: "sk_PL_HDR_SIZE = 12"

fun sk_PKT :: "pkt_type \<Rightarrow> int" where
  "sk_PKT PKT_HELLO = 1"
| "sk_PKT PKT_HELLO_ACK = 2"
| "sk_PKT PKT_SENSOR = 3"
| "sk_PKT PKT_ACK = 4"
| "sk_PKT PKT_HEARTBEAT = 5"
| "sk_PKT PKT_FRAME = 6"
| "sk_PKT PKT_ERROR = 7"

definition sk_PL_FW_HDR_SIZE :: nat where [sk_consts]: "sk_PL_FW_HDR_SIZE = 12"
definition sk_PL_SENSOR_PACKET_SIZE :: nat where [sk_consts]: "sk_PL_SENSOR_PACKET_SIZE = 28"
definition sk_PL_HELLO_PACKET_SIZE :: nat where [sk_consts]: "sk_PL_HELLO_PACKET_SIZE = 20"
definition sk_PL_HEARTBEAT_PACKET_SIZE :: nat where [sk_consts]: "sk_PL_HEARTBEAT_PACKET_SIZE = 20"
definition sk_PL_TYPE_HELLO_ACK :: int where [sk_consts]: "sk_PL_TYPE_HELLO_ACK = 0x02"
definition sk_PL_TYPE_ACK :: int where [sk_consts]: "sk_PL_TYPE_ACK = 0x04"
definition sk_PL_TYPE_ERROR :: int where [sk_consts]: "sk_PL_TYPE_ERROR = 0x07"

record sk_rx_header =
  sk_type :: u8
  sk_device_id :: u32
  sk_payload_len :: u16
  sk_checksum :: u16

text \<open>The readers work on the bytes at a pointer.\<close>

definition sk_rd_u16 :: "u8 list \<Rightarrow> u16" where
  "sk_rd_u16 p = push_bit 8 (ucast (p ! 0)) OR ucast (p ! 1)"

definition sk_rd_u32 :: "u8 list \<Rightarrow> u32" where
  "sk_rd_u32 p = push_bit 24 (ucast (p ! 0)) OR push_bit 16 (ucast (p ! 1)) OR push_bit 8 (ucast (p ! 2)) OR ucast (p ! 3)"

section \<open>Inlined checksum\<close>

function sk_words :: "u8 list \<Rightarrow> nat \<Rightarrow> nat \<Rightarrow> u32 \<Rightarrow> nat \<times> u32" where
  "sk_words data len i acc =
     (if i + 1 < len then
        let word = push_bit 8 (ucast (data ! i)) OR ucast (data ! (i + 1)) :: u16
        in sk_words data len (i + 2) (acc + ucast word)
      else (i, acc))"
  by pat_completeness auto
termination
  by (relation "measure (\<lambda>(data, len, i, acc). len - i)") auto

declare sk_words.simps [simp del]

text \<open>The loop \<^verbatim>\<open>while (sum >> 16) ...\<close>; \<open>None\<close> would be a run without end.\<close>

partial_function (option) sk_fold :: "u32 \<Rightarrow> u32 option" where
  "sk_fold acc = (if drop_bit 16 acc \<noteq> 0 then sk_fold ((acc AND 0xFFFF) + drop_bit 16 acc) else Some acc)"

definition sk_pl_checksum :: "u8 list \<Rightarrow> nat \<Rightarrow> u16 option" where
  "sk_pl_checksum data len =
     (let (i, acc) = sk_words data len 0 0;
          acc' = (if i < len then acc + ucast (push_bit 8 (ucast (data ! i)) :: u16) else acc)
      in map_option (\<lambda>s. ucast (NOT s)) (sk_fold acc'))"

section \<open>Inlined framing\<close>

text \<open>\<open>k\<close> is the offset of the pointer \<^verbatim>\<open>p\<close> in the buffer.\<close>

definition sk_put_u16 :: "u8 list \<Rightarrow> nat \<Rightarrow> u16 \<Rightarrow> u8 list" where
  "sk_put_u16 out k v = out[k := ucast (drop_bit 8 v), k + 1 := ucast (v AND 0xFF)]"

definition sk_put_u32 :: "u8 list \<Rightarrow> nat \<Rightarrow> u32 \<Rightarrow> u8 list" where
  "sk_put_u32 out k v = out[k := ucast (drop_bit 24 v), k + 1 := ucast (drop_bit 16 v),
     k + 2 := ucast (drop_bit 8 v), k + 3 := ucast (v AND 0xFF)]"

definition sk_put_header :: "u8 list \<Rightarrow> u8 \<Rightarrow> u32 \<Rightarrow> u16 \<Rightarrow> u8 list option" where
  "sk_put_header out type dev plen =
     (let o1 = sk_put_u16 out 0 (of_int sk_PL_MAGIC);
          o2 = o1[2 := of_int sk_PL_VERSION];
          o3 = o2[3 := type];
          o4 = sk_put_u32 o3 4 dev;
          o5 = sk_put_u16 o4 8 plen
      in map_option (sk_put_u16 o5 10) (sk_pl_checksum (drop sk_PL_HDR_SIZE o5) (unat plen)))"

definition sk_build_sensor :: "u8 list \<Rightarrow> nat \<Rightarrow> u32 \<Rightarrow> u32 \<Rightarrow> u32 \<Rightarrow> i32 \<Rightarrow> i32 \<Rightarrow> (nat \<times> u8 list) option" where
  "sk_build_sensor out cap dev sq timestamp_ms temp humid =
     (let plen = (16::u16) in
      if cap < sk_PL_HDR_SIZE + unat plen then Some (0, out)
      else let p = sk_PL_HDR_SIZE;
               o1 = sk_put_u32 out (p + 0) sq;
               o2 = sk_put_u32 o1 (p + 4) timestamp_ms;
               o3 = sk_put_u32 o2 (p + 8) temp;
               o4 = sk_put_u32 o3 (p + 12) humid
           in map_option (Pair (sk_PL_HDR_SIZE + unat plen)) (sk_put_header o4 (of_int (sk_PKT PKT_SENSOR)) dev plen))"

definition sk_build_hello :: "u8 list \<Rightarrow> nat \<Rightarrow> u32 \<Rightarrow> u32 \<Rightarrow> u32 \<Rightarrow> (nat \<times> u8 list) option" where
  "sk_build_hello out cap dev firmware_ver caps =
     (let plen = (8::u16) in
      if cap < sk_PL_HDR_SIZE + unat plen then Some (0, out)
      else let p = sk_PL_HDR_SIZE;
               o1 = sk_put_u32 out (p + 0) firmware_ver;
               o2 = sk_put_u32 o1 (p + 4) caps
           in map_option (Pair (sk_PL_HDR_SIZE + unat plen)) (sk_put_header o2 (of_int (sk_PKT PKT_HELLO)) dev plen))"

definition sk_build_heartbeat :: "u8 list \<Rightarrow> nat \<Rightarrow> u32 \<Rightarrow> u32 \<Rightarrow> u32 \<Rightarrow> (nat \<times> u8 list) option" where
  "sk_build_heartbeat out cap dev uptime heap =
     (let plen = (8::u16) in
      if cap < sk_PL_HDR_SIZE + unat plen then Some (0, out)
      else let p = sk_PL_HDR_SIZE;
               o1 = sk_put_u32 out (p + 0) uptime;
               o2 = sk_put_u32 o1 (p + 4) heap
           in map_option (Pair (sk_PL_HDR_SIZE + unat plen)) (sk_put_header o2 (of_int (sk_PKT PKT_HEARTBEAT)) dev plen))"

text \<open>The comparisons are between promoted integers.\<close>

definition sk_parse_header_fw :: "u8 list \<Rightarrow> sk_rx_header option" where
  "sk_parse_header_fw hdr =
     (let magic = sk_rd_u16 hdr in
      if uint magic \<noteq> sk_PL_MAGIC then None
      else if uint (hdr ! 2) \<noteq> sk_PL_VERSION then None
      else Some \<lparr>sk_type = hdr ! 3, sk_device_id = sk_rd_u32 (drop 4 hdr),
                 sk_payload_len = sk_rd_u16 (drop 8 hdr), sk_checksum = sk_rd_u16 (drop 10 hdr)\<rparr>)"

section \<open>It is the framing of the modular sources\<close>

lemma sk_words_eq: "sk_words data len i acc = sum_words data len i acc"
  by (induction data len i acc rule: sk_words.induct) (subst sk_words.simps, subst sum_words.simps, simp add: Let_def)

lemma sk_fold_eq: "sk_fold acc = Some (fold_carries acc)"
  by (induction acc rule: fold_carries.induct) (subst sk_fold.simps, subst fold_carries.simps, simp)

text \<open>So the loop ends, and the checksum is the one of \<^verbatim>\<open>checksum.c\<close>.\<close>

lemma sk_pl_checksum_eq: "sk_pl_checksum data len = Some (pl_checksum data len)"
  by (simp add: sk_pl_checksum_def pl_checksum_def sk_words_eq sk_fold_eq Let_def split: prod.split)

text \<open>Storing bytes one by one is copying them.\<close>

lemma memcpy_at_bytes:
  "k < length buf \<Longrightarrow> memcpy_at buf k (b # bs) = memcpy_at (buf[k := b]) (Suc k) bs" "memcpy_at buf k [] = buf"
  by (simp_all add: memcpy_at_def take_Suc_conv_app_nth upd_conv_take_nth_drop ac_simps)

lemma sk_put_eq:
  "k + 1 < length out \<Longrightarrow> sk_put_u16 out k v = put_u16 out k v"
  "k + 3 < length out \<Longrightarrow> sk_put_u32 out k w = put_u32 out k w"
  "k < length out \<Longrightarrow> out[k := b] = put_u8 out k b"
  by (simp_all add: sk_put_u16_def sk_put_u32_def put_u16_def put_u32_def put_u8_def low_byte memcpy_at_bytes numeral_eq_Suc)

lemma length_puts [simp]:
  "k + 1 < length out \<Longrightarrow> length (put_u16 out k v) = length out"
  "k + 3 < length out \<Longrightarrow> length (put_u32 out k w) = length out"
  "k < length out \<Longrightarrow> length (put_u8 out k b) = length out"
  by (simp_all add: put_u16_def put_u32_def put_u8_def)

lemma sk_PKT_code: "of_int (sk_PKT t) = pkt_code t" "uint (pkt_code t) = sk_PKT t"
  by (cases t; simp)+

lemma sk_put_header_eq:
  assumes "PL_HDR_SIZE \<le> length out"
  shows "sk_put_header out t dev plen = Some (put_header out t dev plen)"
  using assms
  by (simp add: sk_put_header_def put_header_def Let_def sk_pl_checksum_eq sk_put_eq sk_consts pl_consts)

text \<open>The builders, on a buffer of at least the size they are told.\<close>

lemma sk_build_eq:
  assumes "cap \<le> length out"
  shows "sk_build_sensor out cap dev sq ts temp humid = Some (pl_build_sensor out cap dev sq ts temp humid)"
    "sk_build_hello out cap dev a b = Some (pl_build_hello out cap dev a b)"
    "sk_build_heartbeat out cap dev a b = Some (pl_build_heartbeat out cap dev a b)"
  using assms
  by (simp_all add: sk_build_sensor_def sk_build_hello_def sk_build_heartbeat_def pl_build_sensor_def pl_build_hello_def
      pl_build_heartbeat_def Let_def sk_put_eq sk_put_header_eq sk_PKT_code sk_consts pl_consts del: sk_PKT.simps pkt_code.simps)

text \<open>The parser; \<open>rx_of\<close> reads the one header struct as the other.\<close>

definition rx_of :: "sk_rx_header \<Rightarrow> pl_rx_header" where
  "rx_of h = \<lparr>rx_type = sk_type h, rx_device_id = sk_device_id h, rx_payload_len = sk_payload_len h, rx_checksum = sk_checksum h\<rparr>"

lemma sk_rd_eq:
  "k \<le> length p \<Longrightarrow> sk_rd_u16 (drop k p) = rd_u16 p k" "k \<le> length p \<Longrightarrow> sk_rd_u32 (drop k p) = rd_u32 p k"
  by (simp_all add: sk_rd_u16_def sk_rd_u32_def rd_u16_def rd_u32_def)

lemma sk_parse_eq:
  assumes "PL_HDR_SIZE \<le> length hdr"
  shows "map_option rx_of (sk_parse_header_fw hdr) = pl_parse_header_fw hdr"
proof -
  have "uint (rd_u16 hdr 0) = sk_PL_MAGIC \<longleftrightarrow> rd_u16 hdr 0 = PL_MAGIC" "uint (hdr ! 2) = sk_PL_VERSION \<longleftrightarrow> hdr ! 2 = PL_VERSION"
    by (simp_all add: sk_consts pl_consts word_uint_eq_iff)
  moreover have "sk_rd_u16 hdr = rd_u16 hdr 0" using sk_rd_eq(1) [of 0 hdr] by simp
  ultimately show ?thesis
    using assms by (simp add: sk_parse_header_fw_def pl_parse_header_fw_def sk_rd_eq rx_of_def Let_def pl_consts)
qed

lemma sk_types_eq:
  "uint t = sk_PL_TYPE_HELLO_ACK \<longleftrightarrow> t = pkt_code PKT_HELLO_ACK" "uint t = sk_PL_TYPE_ACK \<longleftrightarrow> t = pkt_code PKT_ACK"
  "uint t = sk_PL_TYPE_ERROR \<longleftrightarrow> t = pkt_code PKT_ERROR"
  by (simp_all add: sk_consts word_uint_eq_iff)

end
