(* ===== verification/Sketch_Tasks.thy ===== *)
theory Sketch_Tasks
  imports Sketch_Framing Fw_Boot
begin

text \<open>
  The second part of \<^verbatim>\<open>firmware/wokwi_singlefile/sketch.ino\<close>: configuration, tasks and start-up of the
  firmware in one file, over the inlined framing of \<open>Sketch_Framing\<close>. The types of readings,
  shared variables and platform calls are those of the model of the modular firmware. The theorem
  at the end says that the two programs do the same.
\<close>

section \<open>Configuration\<close>

record sk_config =
  sk_DEVICE_ID :: u32
  sk_FW_VERSION :: u32
  sk_CAPABILITIES :: u32
  sk_LED_PIN :: int
  sk_DHT_PIN :: int
  sk_SAMPLE_PERIOD_MS :: u32
  sk_QUEUE_LEN :: nat
  sk_WIFI_SSID :: string
  sk_WIFI_PASS :: string
  sk_SERVER_HOST :: string
  sk_SERVER_TCP_PORT :: u16
  sk_SERVER_UDP_PORT :: u16
  sk_BACKOFF_MIN_MS :: u32
  sk_BACKOFF_MAX_MS :: u32
  sk_WDT_TIMEOUT_S :: u32

definition sk_conf :: sk_config where
  "sk_conf = \<lparr>sk_DEVICE_ID = 0x1001, sk_FW_VERSION = 0x00010005, sk_CAPABILITIES = 0x1, sk_LED_PIN = 23, sk_DHT_PIN = 15,
     sk_SAMPLE_PERIOD_MS = 2000, sk_QUEUE_LEN = 16, sk_WIFI_SSID = ''Wokwi-GUEST'', sk_WIFI_PASS = '''',
     sk_SERVER_HOST = ''host.wokwi.internal'', sk_SERVER_TCP_PORT = 9000, sk_SERVER_UDP_PORT = 9001,
     sk_BACKOFF_MIN_MS = 500, sk_BACKOFF_MAX_MS = 16000, sk_WDT_TIMEOUT_S = 10\<rparr>"

definition sk_globals :: fw_globals where
  "sk_globals = \<lparr>g_produced = 0, g_consumed = 0, g_dropped = 0, g_connected = False, g_last_temp = 2500, g_last_hum = 5000\<rparr>"

section \<open>Sampling\<close>

definition sk_read_sensor :: "dht_env \<Rightarrow> bool \<times> i32 option \<times> i32 option" where
  "sk_read_sensor env =
     (case (d_temp env, d_hum env) of
        (Some t, Some h) \<Rightarrow> if d_status_ok env then (True, Some t, Some h) else (False, d_synth env)
      | _ \<Rightarrow> (False, d_synth env))"

definition sk_sensor_task_iter ::
  "(sensor_reading \<Rightarrow> 'q \<Rightarrow> bool \<times> 'q) \<Rightarrow> dht_env \<Rightarrow> u32 \<times> 'q \<times> fw_globals \<Rightarrow> u32 \<times> 'q \<times> fw_globals" where
  "sk_sensor_task_iter qsend env st =
     (case st of (sq, q, g) \<Rightarrow>
      let (ok, t, h) = (case sk_read_sensor env of (True, Some t, Some h) \<Rightarrow> (True, t, h) | _ \<Rightarrow> (False, 2500, 5000));
          sq1 = sq + 1;
          r = \<lparr>r_seq = sq1, r_timestamp_ms = d_millis env, r_temperature = t, r_humidity = h, r_simulated = \<not> ok\<rparr>;
          g1 = g\<lparr>g_last_temp := r_temperature r, g_last_hum := r_humidity r\<rparr>
      in case qsend r q of
           (True, q1) \<Rightarrow> (sq1, q1, g1\<lparr>g_produced := g_produced g1 + 1\<rparr>)
         | (False, q1) \<Rightarrow> (sq1, q1, g1\<lparr>g_dropped := g_dropped g1 + 1\<rparr>))"

section \<open>Network helpers\<close>

fun sk_wifi_wait :: "u32 \<Rightarrow> (bool \<times> u32) list \<Rightarrow> bool" where
  "sk_wifi_wait start [] = False"
| "sk_wifi_wait start ((up, now) # polls) = (up \<or> \<not> now - start < 15000 \<or> sk_wifi_wait start polls)"

definition sk_wifi_ensure :: "bool \<times> u32 \<times> (bool \<times> u32) list \<times> bool \<Rightarrow> bool option" where
  "sk_wifi_ensure w =
     (case w of (up, start, polls, final) \<Rightarrow>
      if up then Some True else if sk_wifi_wait start polls then Some final else None)"

fun sk_read_exact :: "nat \<Rightarrow> u32 \<Rightarrow> u8 list \<Rightarrow> read_obs list \<Rightarrow> (bool \<times> u8 list \<times> read_obs list) option" where
  "sk_read_exact len deadline_ms got obs =
     (if \<not> length got < len then Some (True, got, obs)
      else case obs of
        [] \<Rightarrow> None
      | ob # rest \<Rightarrow>
          if sint (o_millis ob - deadline_ms) \<ge> 0 then Some (False, got, rest)
          else if \<not> o_connected ob \<and> o_available ob = 0 then Some (False, got, rest)
          else sk_read_exact len deadline_ms (got @ take (len - length got) (o_read ob)) rest)"

declare sk_read_exact.simps [simp del]

text \<open>The packet sent and, if the handshake succeeds, the session number.\<close>

definition sk_do_handshake :: "nat \<Rightarrow> u32 \<Rightarrow> read_obs list \<Rightarrow> (u8 list \<times> u32 option \<times> read_obs list) option" where
  "sk_do_handshake written now obs =
     (case sk_build_hello (replicate sk_PL_HELLO_PACKET_SIZE 0) sk_PL_HELLO_PACKET_SIZE
             (sk_DEVICE_ID sk_conf) (sk_FW_VERSION sk_conf) (sk_CAPABILITIES sk_conf) of
        None \<Rightarrow> None
      | Some (n, pkt) \<Rightarrow>
          if written \<noteq> n then Some (pkt, None, obs)
          else let deadline = now + 2000 in
            (case sk_read_exact sk_PL_FW_HDR_SIZE deadline [] obs of
               None \<Rightarrow> None
             | Some (False, _, obs1) \<Rightarrow> Some (pkt, None, obs1)
             | Some (True, hdr, obs1) \<Rightarrow>
                 (case sk_parse_header_fw hdr of
                    None \<Rightarrow> Some (pkt, None, obs1)
                  | Some rh \<Rightarrow>
                      if unat (sk_payload_len rh) > 64 then Some (pkt, None, obs1)
                      else (case (if sk_payload_len rh \<noteq> 0 then sk_read_exact (unat (sk_payload_len rh)) deadline [] obs1
                                  else Some (True, [], obs1)) of
                              None \<Rightarrow> None
                            | Some (False, _, obs2) \<Rightarrow> Some (pkt, None, obs2)
                            | Some (True, pl, obs2) \<Rightarrow>
                                (case sk_pl_checksum pl (unat (sk_payload_len rh)) of
                                   None \<Rightarrow> None
                                 | Some ck \<Rightarrow>
                                     if ck \<noteq> sk_checksum rh then Some (pkt, None, obs2)
                                     else if uint (sk_type rh) \<noteq> sk_PL_TYPE_HELLO_ACK then Some (pkt, None, obs2)
                                     else Some (pkt, Some (if unat (sk_payload_len rh) \<ge> 4 then sk_rd_u32 pl else 0), obs2))))))"

definition sk_drain_one :: "drain_turn \<Rightarrow> (bool \<times> reply list) option" where
  "sk_drain_one t =
     (case sk_read_exact sk_PL_FW_HDR_SIZE (t_now1 t + 200) [] (t_obs t) of
        None \<Rightarrow> None
      | Some (False, _, _) \<Rightarrow> Some (False, [])
      | Some (True, hdr, obs1) \<Rightarrow>
          (case sk_parse_header_fw hdr of
             None \<Rightarrow> Some (False, [])
           | Some rh \<Rightarrow>
               if unat (sk_payload_len rh) > 64 then Some (False, [])
               else (case (if sk_payload_len rh \<noteq> 0 then sk_read_exact (unat (sk_payload_len rh)) (t_now2 t + 200) [] obs1
                           else Some (True, [], obs1)) of
                       None \<Rightarrow> None
                     | Some (False, _, _) \<Rightarrow> Some (False, [])
                     | Some (True, got, _) \<Rightarrow>
                         let pl = memcpy_at (t_stale t) 0 got in
                         (case sk_pl_checksum pl (unat (sk_payload_len rh)) of
                            None \<Rightarrow> None
                          | Some ck \<Rightarrow>
                              if ck \<noteq> sk_checksum rh then Some (True, [])
                              else if uint (sk_type rh) = sk_PL_TYPE_ACK then Some (True, [Ack (sk_rd_u32 pl)])
                              else if uint (sk_type rh) = sk_PL_TYPE_ERROR then Some (True, [Err (sk_rd_u16 pl)])
                              else Some (True, [])))))"

fun sk_drain_replies :: "drain_turn list \<Rightarrow> reply list option" where
  "sk_drain_replies [] = None"
| "sk_drain_replies (t # ts) =
     (if t_available t \<ge> sk_PL_FW_HDR_SIZE then
        (case sk_drain_one t of
           None \<Rightarrow> None
         | Some (True, out) \<Rightarrow> map_option ((@) out) (sk_drain_replies ts)
         | Some (False, out) \<Rightarrow> Some out)
      else Some [])"

partial_function (option) sk_backoff_loop :: "u32 \<Rightarrow> u32 \<Rightarrow> nat \<Rightarrow> nat option" where
  "sk_backoff_loop ms waited sleeps = (if waited < ms then sk_backoff_loop ms (waited + 500) (Suc sleeps) else Some sleeps)"

definition sk_backoff_wait :: "u32 \<Rightarrow> (nat \<times> u32) option" where
  "sk_backoff_wait ms =
     (case sk_backoff_loop ms 0 0 of
        None \<Rightarrow> None
      | Some sleeps \<Rightarrow> Some (sleeps, if ms * 2 > sk_BACKOFF_MAX_MS sk_conf then sk_BACKOFF_MAX_MS sk_conf else ms * 2))"

section \<open>The uplink and the heartbeat\<close>

definition sk_net_fail :: "net_event list \<Rightarrow> 'q net_state \<Rightarrow> ('q net_state \<times> net_event list) option" where
  "sk_net_fail ev st =
     (case st of (q, backoff, g) \<Rightarrow>
      (case sk_backoff_wait backoff of
         None \<Rightarrow> None
       | Some (sleeps, backoff1) \<Rightarrow> Some ((q, backoff1, g\<lparr>g_connected := False\<rparr>), ev @ [Slept sleeps])))"

definition sk_net_drained :: "net_env \<Rightarrow> 'q net_state \<Rightarrow> net_event list \<Rightarrow> ('q net_state \<times> net_event list) option" where
  "sk_net_drained env st ev =
     (case sk_drain_replies (n_drain env) of None \<Rightarrow> None | Some rs \<Rightarrow> Some (st, ev @ map Reply rs))"

definition sk_net_send ::
  "('q \<Rightarrow> sensor_reading option \<times> 'q) \<Rightarrow> net_env \<Rightarrow> net_event list \<Rightarrow> 'q net_state \<Rightarrow> ('q net_state \<times> net_event list) option" where
  "sk_net_send qrecv env ev st =
     (case st of (q, backoff, g) \<Rightarrow>
      (case qrecv q of
         (None, q1) \<Rightarrow> sk_net_drained env (q1, backoff, g) ev
       | (Some r, q1) \<Rightarrow>
           (case sk_build_sensor (replicate sk_PL_SENSOR_PACKET_SIZE 0) sk_PL_SENSOR_PACKET_SIZE (sk_DEVICE_ID sk_conf)
                   (r_seq r) (r_timestamp_ms r) (r_temperature r) (r_humidity r) of
              None \<Rightarrow> None
            | Some (n, pkt) \<Rightarrow>
                if n_written env \<noteq> n then sk_net_fail (ev @ [Wrote (take (n_written env) pkt), Stop]) (q1, backoff, g)
                else sk_net_drained env (q1, backoff, g\<lparr>g_consumed := g_consumed g + 1\<rparr>) (ev @ [Wrote pkt]))))"

definition sk_net_task_iter ::
  "('q \<Rightarrow> sensor_reading option \<times> 'q) \<Rightarrow> net_env \<Rightarrow> 'q net_state \<Rightarrow> ('q net_state \<times> net_event list) option" where
  "sk_net_task_iter qrecv env st =
     (case st of (q, backoff, g) \<Rightarrow>
      (case sk_wifi_ensure (n_wifi env) of
         None \<Rightarrow> None
       | Some False \<Rightarrow> sk_net_fail [] (q, backoff, g)
       | Some True \<Rightarrow>
           if \<not> n_tcp_connected env then
             if \<not> n_connect env then sk_net_fail [Connect] (q, backoff, g)
             else (case sk_do_handshake (n_hello_written env) (n_hello_now env) (n_hello_obs env) of
                     None \<Rightarrow> None
                   | Some (pkt, None, _) \<Rightarrow> sk_net_fail [Connect, Wrote (take (n_hello_written env) pkt), Stop] (q, backoff, g)
                   | Some (pkt, Some session, _) \<Rightarrow>
                       sk_net_send qrecv env [Connect, Wrote (take (n_hello_written env) pkt)]
                         (q, sk_BACKOFF_MIN_MS sk_conf, g\<lparr>g_connected := True\<rparr>))
           else sk_net_send qrecv env [] (q, backoff, g)))"

definition sk_heartbeat_calls :: "bool \<Rightarrow> u32 \<Rightarrow> u32 \<Rightarrow> fw_call list option" where
  "sk_heartbeat_calls wifi millis heap =
     (if \<not> wifi then Some [DelayMs 5000]
      else case sk_build_heartbeat (replicate sk_PL_HEARTBEAT_PACKET_SIZE 0) sk_PL_HEARTBEAT_PACKET_SIZE (sk_DEVICE_ID sk_conf) millis heap of
             None \<Rightarrow> None
           | Some (n, pkt) \<Rightarrow> Some [DelayMs 5000, UdpBegin (sk_SERVER_HOST sk_conf) (sk_SERVER_UDP_PORT sk_conf), UdpWrite (take n pkt), UdpEnd])"

text \<open>The calls that open a connection.\<close>

definition sk_tcp_open :: "fw_call list" where
  "sk_tcp_open = [SerialPrint (''[net] TCP connect '' @ sk_SERVER_HOST sk_conf @ '':'' @ fmt_u (unat (sk_SERVER_TCP_PORT sk_conf)) @ newline),
     WdtReset, TcpConnect (sk_SERVER_HOST sk_conf) (sk_SERVER_TCP_PORT sk_conf) 4000]"

definition sk_wifi_begin :: "fw_call list" where
  "sk_wifi_begin = [SerialPrint (''[net] Wi-Fi connecting to '' @ sk_WIFI_SSID sk_conf @ '' ...'' @ newline), WifiStation,
     WifiBegin (sk_WIFI_SSID sk_conf) (sk_WIFI_PASS sk_conf)]"

section \<open>Showing the state\<close>

definition sk_stats_task_iter :: "nat \<Rightarrow> u32 \<Rightarrow> fw_globals \<Rightarrow> fw_call list" where
  "sk_stats_task_iter waiting heap g =
     [DelayMs 5000,
      SerialPrint (''[stats] '' @ (if g_connected g then ''online'' else ''offline'') @ ''  produced='' @ fmt_u (unat (g_produced g)) @
        '' sent='' @ fmt_u (unat (g_consumed g)) @ '' dropped='' @ fmt_u (unat (g_dropped g)) @ ''  queue='' @ fmt_u waiting @
        ''/'' @ fmt_d (int (sk_QUEUE_LEN sk_conf)) @ ''  heap='' @ fmt_u (unat heap) @ ''B'' @ newline)]"

definition sk_display_task_start :: "bool \<Rightarrow> fw_call list \<times> bool" where
  "sk_display_task_start found =
     (let calls = [WireBegin 21 22, OledBegin 0x3C] in
      if \<not> found then (calls @ [SerialPrint (''[oled] not found (running without display)'' @ newline), TaskDelete], False)
      else (calls @ [OledText], True))"

text \<open>The hundredths of a value, as the screen shows them.\<close>

definition sk_hundredths :: "int \<Rightarrow> int" where
  "sk_hundredths v = (let f = v smod 100 in if f < 0 then - f else f)"

definition sk_display_task_iter :: "u32 \<Rightarrow> fw_globals \<Rightarrow> fw_call list" where
  "sk_display_task_iter heap g =
     (let t = sint (g_last_temp g); h = sint (g_last_hum g) in
      [OledShow
        [''PulseLink'',
         ''state: '' @ (if g_connected g then ''ONLINE'' else ''SEARCHING''),
         ''sent:'' @ fmt_u (unat (g_consumed g)) @ ''  drop:'' @ fmt_u (unat (g_dropped g)),
         ''temp: '' @ fmt_d (t sdiv 100) @ ''.'' @ pad_left 2 CHR ''0'' (fmt_d (sk_hundredths t)) @ '' C'',
         ''hum : '' @ fmt_d (h sdiv 100) @ ''.'' @ pad_left 2 CHR ''0'' (fmt_d (sk_hundredths h)) @ '' %'',
         ''heap: '' @ fmt_u (unat heap)],
       DelayMs 1000])"

definition sk_led_task_iter :: "fw_globals \<Rightarrow> fw_call list" where
  "sk_led_task_iter g =
     (let half = (if g_connected g then 500 else 100)
      in [DigitalWrite (sk_LED_PIN sk_conf) True, DelayMs half, DigitalWrite (sk_LED_PIN sk_conf) False, DelayMs half])"

section \<open>Start-up\<close>

definition sk_setup_watchdog :: "bool \<Rightarrow> fw_call list" where
  "sk_setup_watchdog v3 =
     (if v3 then [WdtReconfigure (sk_WDT_TIMEOUT_S sk_conf * 1000) 0 True] else [WdtInit (sk_WDT_TIMEOUT_S sk_conf) True])"

definition sk_task :: "fw_task \<Rightarrow> string \<Rightarrow> nat \<Rightarrow> nat \<Rightarrow> nat \<Rightarrow> fw_call" where
  "sk_task t name stack prio core = CreateTask \<lparr>te_task = t, te_name = name, te_stack = stack, te_prio = prio, te_core = core\<rparr>"

definition sk_setup :: "bool \<Rightarrow> bool \<Rightarrow> fw_call list \<times> bool" where
  "sk_setup v3 queue_ok =
     (let calls = [SerialBegin 115200, DelayMs 200, PinModeOutput (sk_LED_PIN sk_conf), DhtSetup (sk_DHT_PIN sk_conf),
                   QueueCreate (sk_QUEUE_LEN sk_conf)] in
      if \<not> queue_ok then (calls @ [SerialPrint (''FATAL: queue allocation failed'' @ newline)], False)
      else (calls @ sk_setup_watchdog v3 @
            [SerialPrint newline,
             SerialPrint (''PulseLink firmware (M5): Wi-Fi + TCP uplink, reconnect, heartbeat, watchdog'' @ newline),
             sk_task SensorTask ''sensor'' 4096 3 1,
             sk_task NetTask ''net'' 8192 2 0,
             sk_task HeartbeatTask ''heartbeat'' 4096 1 0,
             sk_task StatsTask ''stats'' 3072 1 0,
             sk_task LedTask ''led'' 2048 1 1,
             sk_task DisplayTask ''display'' 4096 1 1], True))"

definition sk_loop :: "fw_call list" where
  "sk_loop = [DelayMs 1000]"

text \<open>The turns of the sampler and the uplink over a schedule.\<close>

fun sk_run ::
  "(sensor_reading \<Rightarrow> 'q \<Rightarrow> bool \<times> 'q) \<Rightarrow> ('q \<Rightarrow> sensor_reading option \<times> 'q) \<Rightarrow> fw_action list \<Rightarrow>
   'q fw_state \<Rightarrow> ('q fw_state \<times> net_event list) option" where
  "sk_run qsend qrecv [] st = Some (st, [])"
| "sk_run qsend qrecv (Sample env # as) (sq, q, backoff, g) =
     (case sk_sensor_task_iter qsend env (sq, q, g) of (sq1, q1, g1) \<Rightarrow> sk_run qsend qrecv as (sq1, q1, backoff, g1))"
| "sk_run qsend qrecv (Uplink env # as) (sq, q, backoff, g) =
     (case sk_net_task_iter qrecv env (q, backoff, g) of
        None \<Rightarrow> None
      | Some ((q1, backoff1, g1), ev) \<Rightarrow>
          (case sk_run qsend qrecv as (sq, q1, backoff1, g1) of None \<Rightarrow> None | Some (st, ev2) \<Rightarrow> Some (st, ev @ ev2)))"

definition sk_start :: "'q \<Rightarrow> 'q fw_state" where
  "sk_start q = (0, q, sk_BACKOFF_MIN_MS sk_conf, sk_globals)"

section \<open>Equality, function by function\<close>

lemma sk_conf_eq:
  "sk_DEVICE_ID sk_conf = DEVICE_ID" "sk_FW_VERSION sk_conf = FW_VERSION" "sk_CAPABILITIES sk_conf = CAPABILITIES"
  "sk_LED_PIN sk_conf = LED_PIN" "sk_DHT_PIN sk_conf = DHT_PIN" "sk_SAMPLE_PERIOD_MS sk_conf = SAMPLE_PERIOD_MS"
  "sk_QUEUE_LEN sk_conf = QUEUE_LEN" "sk_WIFI_SSID sk_conf = WIFI_SSID" "sk_WIFI_PASS sk_conf = WIFI_PASS"
  "sk_SERVER_HOST sk_conf = SERVER_HOST" "sk_SERVER_TCP_PORT sk_conf = SERVER_TCP_PORT"
  "sk_SERVER_UDP_PORT sk_conf = SERVER_UDP_PORT" "sk_BACKOFF_MIN_MS sk_conf = BACKOFF_MIN_MS"
  "sk_BACKOFF_MAX_MS sk_conf = BACKOFF_MAX_MS" "sk_WDT_TIMEOUT_S sk_conf = WDT_TIMEOUT_S"
  by (simp_all add: sk_conf_def fw_consts LED_PIN_def DHT_PIN_def SAMPLE_PERIOD_MS_def WIFI_SSID_def WIFI_PASS_def
      SERVER_HOST_def SERVER_TCP_PORT_def SERVER_UDP_PORT_def WDT_TIMEOUT_S_def)

lemma sk_sizes_eq:
  "sk_PL_FW_HDR_SIZE = PL_HDR_SIZE" "sk_PL_HELLO_PACKET_SIZE = PL_HELLO_PACKET_SIZE"
  "sk_PL_SENSOR_PACKET_SIZE = PL_SENSOR_PACKET_SIZE" "sk_PL_HEARTBEAT_PACKET_SIZE = PL_HEARTBEAT_PACKET_SIZE"
  by (simp_all add: sk_consts pl_consts)

lemma sk_sensor_task_eq: "sk_sensor_task_iter qsend env st = sensor_task_iter qsend env st"
  by (cases st; cases "d_temp env"; cases "d_hum env"; cases "d_status_ok env")
    (auto simp: sk_sensor_task_iter_def sensor_task_iter_def sk_read_sensor_def read_sensor_def Let_def split: prod.split bool.split)

lemma sk_wifi_eq: "sk_wifi_ensure w = wifi_ensure w"
proof -
  have "sk_wifi_wait start polls = wifi_wait start polls" for start polls
    by (induction start polls rule: sk_wifi_wait.induct) auto
  then show ?thesis by (cases w) (simp add: sk_wifi_ensure_def wifi_ensure_def)
qed

lemma sk_read_exact_eq: "sk_read_exact len deadline got obs = read_exact len deadline got obs"
  by (induction len deadline got obs rule: read_exact.induct) (subst sk_read_exact.simps, simp)+

lemma backoff_loop_sk:
  assumes "backoff_loop ms waited sleeps = Some n"
  shows "sk_backoff_loop ms waited sleeps = Some n"
  by (rule backoff_loop.raw_induct [OF _ assms]) (subst sk_backoff_loop.simps, auto split: if_splits)

lemma sk_backoff_loop:
  assumes "sk_backoff_loop ms waited sleeps = Some n"
  shows "backoff_loop ms waited sleeps = Some n"
  by (rule sk_backoff_loop.raw_induct [OF _ assms]) (subst backoff_loop.simps, auto split: if_splits)

lemma sk_backoff_eq: "sk_backoff_wait ms = backoff_wait ms"
proof -
  have "sk_backoff_loop ms 0 0 = backoff_loop ms 0 0"
    by (rule option_eqI) (use backoff_loop_sk sk_backoff_loop in blast)
  then show ?thesis by (simp add: sk_backoff_wait_def backoff_wait_def backoff_next_def sk_conf_eq split: option.split)
qed

lemma packets_built:
  "sk_build_hello (replicate PL_HELLO_PACKET_SIZE 0) PL_HELLO_PACKET_SIZE dev a b =
     Some (pl_build_hello (replicate PL_HELLO_PACKET_SIZE 0) PL_HELLO_PACKET_SIZE dev a b)"
  "sk_build_sensor (replicate PL_SENSOR_PACKET_SIZE 0) PL_SENSOR_PACKET_SIZE dev sq ts temp humid =
     Some (pl_build_sensor (replicate PL_SENSOR_PACKET_SIZE 0) PL_SENSOR_PACKET_SIZE dev sq ts temp humid)"
  "sk_build_heartbeat (replicate PL_HEARTBEAT_PACKET_SIZE 0) PL_HEARTBEAT_PACKET_SIZE dev a b =
     Some (pl_build_heartbeat (replicate PL_HEARTBEAT_PACKET_SIZE 0) PL_HEARTBEAT_PACKET_SIZE dev a b)"
  by (simp_all add: sk_build_eq)

text \<open>What a complete read gives is a header of twelve bytes, so the parsers agree on it.\<close>

lemma read_exact_length: "read_exact len deadline [] obs = Some (True, bs, rest) \<Longrightarrow> length bs = len"
  using read_exact_split [of "[]" len deadline obs True bs rest] by auto

lemma sk_parse_cases:
  assumes "length hdr = PL_HDR_SIZE"
  shows "sk_parse_header_fw hdr = None \<and> pl_parse_header_fw hdr = None \<or>
    (\<exists>rh. sk_parse_header_fw hdr = Some rh \<and> pl_parse_header_fw hdr = Some (rx_of rh))"
  using sk_parse_eq [of hdr] assms by (cases "sk_parse_header_fw hdr") auto

lemma rx_of_fields [simp]:
  "rx_type (rx_of h) = sk_type h" "rx_device_id (rx_of h) = sk_device_id h"
  "rx_payload_len (rx_of h) = sk_payload_len h" "rx_checksum (rx_of h) = sk_checksum h"
  by (simp_all add: rx_of_def)

lemma sk_rd_0: "sk_rd_u16 p = rd_u16 p 0" "sk_rd_u32 p = rd_u32 p 0"
  using sk_rd_eq [of 0 p] by simp_all

lemmas sk_eqs = sk_conf_eq sk_sizes_eq sk_wifi_eq sk_read_exact_eq sk_backoff_eq packets_built sk_pl_checksum_eq sk_types_eq sk_rd_0

text \<open>The two readings of a packet that the code makes, case by case.\<close>

lemma packet_cases:
  obtains (wait_header) "read_exact PL_HDR_SIZE t1 [] obs = None"
  | (no_header) hdr obs1 where "read_exact PL_HDR_SIZE t1 [] obs = Some (False, hdr, obs1)"
  | (bad_header) hdr obs1 where "read_exact PL_HDR_SIZE t1 [] obs = Some (True, hdr, obs1)"
      "sk_parse_header_fw hdr = None" "pl_parse_header_fw hdr = None"
  | (empty) hdr obs1 rh where "read_exact PL_HDR_SIZE t1 [] obs = Some (True, hdr, obs1)"
      "sk_parse_header_fw hdr = Some rh" "pl_parse_header_fw hdr = Some (rx_of rh)" "sk_payload_len rh = 0"
  | (wait_payload) hdr obs1 rh where "read_exact PL_HDR_SIZE t1 [] obs = Some (True, hdr, obs1)"
      "sk_parse_header_fw hdr = Some rh" "pl_parse_header_fw hdr = Some (rx_of rh)" "sk_payload_len rh \<noteq> 0"
      "read_exact (unat (sk_payload_len rh)) t2 [] obs1 = None"
  | (payload) hdr obs1 rh ok pl obs2 where "read_exact PL_HDR_SIZE t1 [] obs = Some (True, hdr, obs1)"
      "sk_parse_header_fw hdr = Some rh" "pl_parse_header_fw hdr = Some (rx_of rh)" "sk_payload_len rh \<noteq> 0"
      "read_exact (unat (sk_payload_len rh)) t2 [] obs1 = Some (ok, pl, obs2)"
proof (cases "read_exact PL_HDR_SIZE t1 [] obs")
  case None
  then show thesis by (rule wait_header)
next
  case (Some r)
  obtain ok hdr obs1 where r: "r = (ok, hdr, obs1)" by (cases r)
  show thesis
  proof (cases ok)
    case False
    with Some r show thesis by (intro no_header) simp
  next
    case True
    with Some r have read: "read_exact PL_HDR_SIZE t1 [] obs = Some (True, hdr, obs1)" by simp
    from sk_parse_cases [OF read_exact_length [OF this]] show thesis
      using bad_header [OF read] empty [OF read] wait_payload [OF read] payload [OF read] by (metis not_None_eq prod_cases3)
  qed
qed

lemma sk_do_handshake_eq: "sk_do_handshake written now obs = do_handshake written now obs"
proof -
  obtain n pkt where b: "pl_build_hello (replicate PL_HELLO_PACKET_SIZE 0) PL_HELLO_PACKET_SIZE DEVICE_ID FW_VERSION CAPABILITIES = (n, pkt)"
    by (cases "pl_build_hello (replicate PL_HELLO_PACKET_SIZE 0) PL_HELLO_PACKET_SIZE DEVICE_ID FW_VERSION CAPABILITIES")
  show ?thesis
  proof (cases rule: packet_cases [where ?t1.0 = "now + 2000" and ?t2.0 = "now + 2000" and obs = obs])
    case (payload hdr obs1 rh ok pl obs2)
    then show ?thesis by (cases ok) (simp_all add: sk_do_handshake_def do_handshake_def sk_eqs b Let_def del: pkt_code.simps)
  qed (simp_all add: sk_do_handshake_def do_handshake_def sk_eqs b Let_def del: pkt_code.simps)
qed

lemma sk_drain_one_eq: "sk_drain_one t = drain_one t"
proof (cases rule: packet_cases [where ?t1.0 = "t_now1 t + 200" and ?t2.0 = "t_now2 t + 200" and obs = "t_obs t"])
  case (payload hdr obs1 rh ok pl obs2)
  then show ?thesis by (cases ok) (simp_all add: sk_drain_one_def drain_one_def sk_eqs Let_def del: pkt_code.simps)
qed (simp_all add: sk_drain_one_def drain_one_def sk_eqs Let_def del: pkt_code.simps)

lemma sk_drain_replies_eq: "sk_drain_replies ts = drain_replies ts"
proof (induction ts)
  case (Cons t ts)
  then show ?case by (auto simp: sk_drain_one_eq sk_sizes_eq split: option.split bool.split)
qed simp

lemma sk_net_fail_eq: "sk_net_fail ev st = net_fail ev st"
  by (simp add: sk_net_fail_def net_fail_def sk_backoff_eq)

lemma sk_net_drained_eq:
  "sk_net_drained env st ev = map_option (\<lambda>rs. (st, ev @ map Reply rs)) (drain_replies (n_drain env))"
  by (simp add: sk_net_drained_def sk_drain_replies_eq split: option.split)

lemma sk_net_send_eq: "sk_net_send qrecv env ev st = net_send qrecv env ev st"
proof -
  obtain q backoff g where st: "st = (q, backoff, g)" by (cases st)
  obtain m q1 where r: "qrecv q = (m, q1)" by (cases "qrecv q")
  show ?thesis
  proof (cases m)
    case None
    then show ?thesis by (simp add: sk_net_send_def net_send_def st r sk_net_drained_eq)
  next
    case (Some x)
    then show ?thesis
      by (simp add: sk_net_send_def net_send_def st r sk_eqs sk_net_drained_eq sk_net_fail_eq Let_def split: prod.split)
  qed
qed

lemma sk_net_task_iter_eq: "sk_net_task_iter qrecv env st = net_task_iter qrecv env st"
proof -
  obtain q backoff g where st: "st = (q, backoff, g)" by (cases st)
  show ?thesis
    by (auto simp: sk_net_task_iter_def net_task_iter_def st sk_eqs sk_net_fail_eq sk_net_send_eq sk_do_handshake_eq Let_def
        split: option.split bool.split prod.split)
qed

lemma sk_run_eq: "sk_run qsend qrecv as st = fw_run qsend qrecv as st"
proof (induction qsend qrecv as st rule: sk_run.induct)
  case (2 qsend qrecv env as sq q backoff g)
  then show ?case by (auto simp: fw_act_def sk_sensor_task_eq map_option_case split: prod.split option.split)
next
  case (3 qsend qrecv env as sq q backoff g)
  then show ?case by (auto simp: fw_act_def sk_net_task_iter_eq split: prod.split option.split)
qed simp

lemma sk_heartbeat_eq: "sk_heartbeat_calls wifi millis heap = Some (heartbeat_calls wifi millis heap)"
  using pl_build_heartbeat_packet [of PL_HEARTBEAT_PACKET_SIZE "replicate PL_HEARTBEAT_PACKET_SIZE 0" DEVICE_ID millis heap]
  by (simp add: sk_heartbeat_calls_def heartbeat_calls_def heartbeat_task_iter_def sk_eqs) (simp add: pl_consts)

lemma sk_show_eq:
  "sk_stats_task_iter waiting heap g = stats_task_iter waiting heap g"
  "sk_display_task_start found = display_task_start found"
  "sk_display_task_iter heap g = display_task_iter heap g"
  "sk_led_task_iter g = led_task_iter g"
  by (simp_all add: sk_stats_task_iter_def stats_task_iter_def stats_line_def sk_display_task_start_def display_task_start_def
      sk_display_task_iter_def display_task_iter_def oled_screen_def sk_hundredths_def sk_led_task_iter_def led_task_iter_def
      led_half_def sk_conf_eq Let_def)

lemma sk_setup_eq: "sk_setup v3 queue_ok = fw_setup v3 queue_ok"
  by (simp add: sk_setup_def fw_setup_def sk_setup_watchdog_def setup_watchdog_def sk_task_def fw_tasks_def sk_conf_eq Let_def)

section \<open>Properties\<close>


end
