(* ===== verification/Imaging_Demo.thy ===== *)
theory Imaging_Demo
  imports Convolve Bmp Frame_Asm Printf
begin

text \<open>
  \<^verbatim>\<open>imaging/pl_imaging.c\<close>: the program that filters a test frame, writes the four images and sends
  the frame through the chunk builder and the reassembler. The loop over the chunks is also the
  one of the frame mode of \<^verbatim>\<open>tools/fake_client.c\<close>.
\<close>

section \<open>The code\<close>

text \<open>What the program prints, and the files it leaves.\<close>

datatype demo_line = Stdout string | Stderr string

type_synonym demo_files = "(string \<times> u8 list) list"

definition write_one :: "image \<Rightarrow> string \<Rightarrow> string \<Rightarrow> (nat \<times> nat) option \<Rightarrow> int \<times> demo_line \<times> demo_files" where
  "write_one img dir name fopened =
     (let path = take 511 (dir @ ''/'' @ name);
          (rc, contents) = bmp_write img fopened;
          files = (case contents of None \<Rightarrow> [] | Some bs \<Rightarrow> [(path, bs)])
      in if rc \<noteq> 0 then (-1, Stderr (''write '' @ path @ '' failed'' @ newline), files)
         else (0, Stdout (''  wrote '' @ path @ '' ('' @ fmt_d (img_w img) @ ''x'' @ fmt_d (img_h img) @ '')'' @ newline), files))"

text \<open>The packet of chunk \<open>i\<close>: \<open>total\<close> and \<open>ccount\<close> as in the loop; \<open>stale\<close> is the buffer on the stack.\<close>

definition chunk_packet :: "u8 list \<Rightarrow> u32 \<Rightarrow> image \<Rightarrow> u32 \<Rightarrow> u16 \<Rightarrow> u16 \<Rightarrow> (nat \<times> u8 list) \<times> u32" where
  "chunk_packet stale dev src total_px ccount i =
     (let off = ucast i * of_nat FRAME_CHUNK_MAX;
          len0 = total_px - off;
          len = (if len0 > of_nat FRAME_CHUNK_MAX then of_nat FRAME_CHUNK_MAX else len0)
      in (frame_chunk_build stale (PL_HDR_SIZE + 12 + FRAME_CHUNK_MAX) dev (of_int (img_w src)) (of_int (img_h src)) 1
            i ccount (take (unat len) (drop (unat off) (the (pix src)))) (ucast len), len))"

text \<open>One round of the loop: the flag \<open>fin\<close>, the reassembler and the image it gives back.\<close>

definition chunk_round ::
  "(nat \<Rightarrow> u8 list option) \<Rightarrow> bool \<times> bool \<Rightarrow> u8 list \<Rightarrow> image \<Rightarrow> u32 \<Rightarrow> u16 \<Rightarrow> nat \<Rightarrow> bool \<times> frame_asm \<times> image \<Rightarrow> bool \<times> frame_asm \<times> image" where
  "chunk_round malloc callocs stale src total_px ccount i st =
     (case st of (fin, fa, recon) \<Rightarrow>
      let ((n, pkt), len) = chunk_packet stale 0x1001 src total_px ccount (of_nat i);
          (rc, fa1, recon1) = frame_asm_feed malloc (fst callocs) (snd callocs) (drop PL_HDR_SIZE pkt) (ucast (12 + len)) (fa, recon)
      in (if rc = 1 then True else fin, fa1, recon1))"

text \<open>
  What the program gets from outside: the directory argument, whether the four allocations
  succeed, the four streams, the allocator of the reassembler, the stack.
\<close>

record demo_env =
  v_dir :: "string option"
  v_alloc :: "bool \<times> bool \<times> bool \<times> bool"
  v_fopen :: "string \<Rightarrow> (nat \<times> nat) option"
  v_malloc :: "nat \<Rightarrow> u8 list option"
  v_callocs :: "bool \<times> bool"
  v_stale :: "u8 list"
  v_img :: image

definition pl_imaging_main :: "demo_env \<Rightarrow> int \<times> demo_line list \<times> demo_files" where
  "pl_imaging_main env =
     (let dir = (case v_dir env of Some d \<Rightarrow> d | None \<Rightarrow> ''.'');
          (a1, a2, a3, a4) = v_alloc env;
          (rc, src0) = image_alloc a1 (v_img env) 192 144
      in if rc \<noteq> 0 then (1, [], [])
         else
           let edges0 = snd (image_alloc a2 (v_img env) 192 144);
               blur0 = snd (image_alloc a3 (v_img env) 192 144);
               sharp0 = snd (image_alloc a4 (v_img env) 192 144);
               src = image_test_pattern src0;
               edges = snd (sobel src edges0);
               blur = snd (conv3x3 src blur0 K_BLUR 9 0);
               sharp = snd (conv3x3 src sharp0 K_SHARPEN 1 0);
               write = (\<lambda>(img, name). snd (write_one img dir name (v_fopen env name)));
               ws = map write [(src, ''frame_input.bmp''), (edges, ''frame_edges.bmp''),
                               (blur, ''frame_blur.bmp''), (sharp, ''frame_sharpen.bmp'')];
               total_px = (of_int (img_w src) * of_int (img_h src) :: u32);
               ccount = frame_chunk_count total_px;
               (fin, fa, recon) = fold (chunk_round (v_malloc env) (v_callocs env) (v_stale env) src total_px ccount)
                                    [0..<unat ccount] (False, frame_asm_init, v_img env);
               same = fin \<and> take (unat total_px) (the (pix recon)) = take (unat total_px) (the (pix src))
           in (0, [Stdout (''imaging demo -> '' @ dir @ '':'' @ newline)] @ map fst ws @
                  [Stdout (''  frame chunked into '' @ fmt_u (unat ccount) @ '' PKT_FRAME packets and reassembled: '' @
                     (if same then ''OK'' else ''MISMATCH'') @ newline)],
               concat (map snd ws)))"

section \<open>The chunk loop\<close>

lemma chunk_packet_eq:
  assumes "frame_ok w h px" and "i < nchunks (length px)" and "length stale = 1048"
    and "img_w src = int (unat w)" and "img_h src = int (unat h)" and "pix src = Some px"
  shows "chunk_packet stale dev src (of_nat (length px)) (of_nat (nchunks (length px))) (of_nat i) =
    ((24 + length (chunk_of px i), wire_packet PKT_FRAME dev (chunk_payload w h 1 px i) @ drop (24 + length (chunk_of px i)) stale),
     of_nat (length (chunk_of px i)))"
proof -
  let ?c = "length (chunk_of px i)"
  have px: "length px \<le> 4194304" "1024 * i < length px" using assms(1,2) by (simp_all add: frame_ok_def nchunks_less)
  then have "i < 4096" by simp
  then have ui: "unat (of_nat i :: u16) = i" by (intro unat_of_nat_small) simp
  have off: "unat (ucast (of_nat i :: u16) * 1024 :: u32) = 1024 * i"
    using \<open>i < 4096\<close> ui by (simp add: unat_word_ariths unat_bytes)
  have tot: "unat (of_nat (length px) :: u32) = length px" using px(1) by (intro unat_of_nat_small) simp
  have diff: "unat (of_nat (length px) - ucast (of_nat i :: u16) * 1024 :: u32) = length px - 1024 * i"
    using px(2) off tot by (simp add: unat_sub word_le_nat_alt)
  have c: "?c = min 1024 (length px - 1024 * i)" by (rule length_chunk_of)
  have len: "(if of_nat (length px) - ucast (of_nat i :: u16) * 1024 > (1024 :: u32) then 1024
      else of_nat (length px) - ucast (of_nat i :: u16) * 1024 :: u32) = of_nat ?c"
  proof (rule word_eq_unat)
    have "unat (of_nat ?c :: u32) = ?c" by (rule unat_of_nat_small) (simp add: c)
    then show "unat (if of_nat (length px) - ucast (of_nat i :: u16) * 1024 > (1024 :: u32) then 1024
      else of_nat (length px) - ucast (of_nat i :: u16) * 1024 :: u32) = unat (of_nat ?c :: u32)"
      by (simp add: c word_less_nat_alt diff min_def)
  qed
  have uc: "unat (of_nat ?c :: u32) = ?c" "unat (of_nat ?c :: u16) = ?c" by (rule unat_of_nat_small, simp add: c)+
  have uc16: "ucast (of_nat ?c :: u32) = (of_nat ?c :: u16)"
  proof (rule word_eq_unat)
    have "?c < 2 ^ 16" by (simp add: c)
    then show "unat (ucast (of_nat ?c :: u32) :: u16) = unat (of_nat ?c :: u16)"
      by (simp add: unsigned_ucast_eq uc take_bit_nat_eq_self)
  qed
  have bytes: "take ?c (drop (1024 * i) px) = chunk_of px i" by (simp add: chunk_of_def min_def)
  have "frame_chunk_build stale 1048 dev w h 1 (of_nat i) (of_nat (nchunks (length px))) (chunk_of px i) (of_nat ?c) =
      (24 + ?c, wire_packet PKT_FRAME dev (chunk_payload w h 1 px i) @ drop (24 + ?c) stale)"
    using frame_chunk_build_packet [of "chunk_of px i" "of_nat ?c" 1048 stale dev w h 1 "of_nat i" "of_nat (nchunks (length px))"]
      assms(3) uc c by (simp add: chunk_payload_def)
  then show ?thesis
    unfolding chunk_packet_def Let_def FRAME_CHUNK_MAX_def of_nat_numeral len off uc uc16 assms(4-6) option.sel bytes
    by (simp add: pl_consts)
qed

lemma chunk_round_eq:
  assumes "frame_ok w h px" and "i < nchunks (length px)" and "length stale = 1048"
    and "img_w src = int (unat w)" and "img_h src = int (unat h)" and "pix src = Some px"
  shows "chunk_round malloc (True, True) stale src (of_nat (length px)) (of_nat (nchunks (length px))) i (fin, fa, recon) =
    (case frame_asm_feed malloc True True (chunk_payload w h 1 px i) (of_nat (length (chunk_payload w h 1 px i))) (fa, recon) of
       (rc, fa1, recon1) \<Rightarrow> (fin \<or> rc = 1, fa1, recon1))"
proof -
  let ?c = "length (chunk_of px i)"
  have "?c \<le> 1024" by (simp add: length_chunk_of)
  then have small: "12 + ?c < 2 ^ 16" by simp
  have "ucast (12 + of_nat ?c :: u32) = (of_nat (12 + ?c) :: u16)"
  proof (rule word_eq_unat)
    have "unat (of_nat (12 + ?c) :: u32) = 12 + ?c" "unat (of_nat (12 + ?c) :: u16) = 12 + ?c"
      using small by (intro unat_of_nat_small, simp)+
    then show "unat (ucast (12 + of_nat ?c :: u32) :: u16) = unat (of_nat (12 + ?c) :: u16)"
      using small by (simp add: unsigned_ucast_eq take_bit_nat_eq_self del: of_nat_add flip: of_nat_add [of 12, simplified])
  qed
  then show ?thesis
    unfolding chunk_round_def chunk_packet_eq [OF assms]
    by (simp add: Let_def feed_trailing [OF assms(1,2)] wire_packet_def hdr_mem_def pl_consts
        del: of_nat_add mem_u16.simps mem_u32.simps split: prod.split)
qed

lemma chunk_loop:
  assumes "frame_ok w h px" and "length stale = 1048"
    and "img_w src = int (unat w)" and "img_h src = int (unat h)" and "pix src = Some px"
  shows "set idxs \<subseteq> {..<nchunks (length px)} \<Longrightarrow>
    fold (chunk_round malloc (True, True) stale src (of_nat (length px)) (of_nat (nchunks (length px)))) idxs (fin, fa, recon) =
    (case feed_all malloc (map (chunk_payload w h 1 px) idxs) (fa, recon) of (rcs, st) \<Rightarrow> (fin \<or> 1 \<in> set rcs, st))"
proof (induction idxs arbitrary: fin fa recon)
  case (Cons i idxs)
  then have "i < nchunks (length px)" by simp
  with Cons show ?case by (auto simp: chunk_round_eq [OF assms(1) _ assms(2-5)] split: prod.split)
qed simp

section \<open>The images\<close>

text \<open>Each routine keeps the sides of the image and the size of its buffer.\<close>

lemma image_ok_alloc: "image_ok (snd (image_alloc True img 192 144))"
  using image_alloc_ok [of 192 144 img] by (simp add: image_ok_def IMAGE_MAX_PIXELS_def image_size_def)

lemma test_pattern_sides [simp]:
  "img_w (image_test_pattern img) = img_w img" "img_h (image_test_pattern img) = img_h img"
  by (simp_all add: image_test_pattern_def Let_def split: option.split)

lemma image_ok_test_pattern: "image_ok img \<Longrightarrow> image_ok (image_test_pattern img)"
  by (auto simp: image_ok_def image_test_pattern_def image_size_def Let_def)

lemma image_ok_sobel:
  "image_ok im \<Longrightarrow> image_ok out \<Longrightarrow> img_w im = img_w out \<Longrightarrow> img_h im = img_h out \<Longrightarrow> image_ok (snd (sobel im out))"
  by (auto simp: sobel_def image_ok_def image_size_def)

lemma image_ok_conv3x3:
  "image_ok im \<Longrightarrow> image_ok out \<Longrightarrow> img_w im = img_w out \<Longrightarrow> img_h im = img_h out \<Longrightarrow> image_ok (snd (conv3x3 im out k dv bias))"
  by (auto simp: conv3x3_def image_ok_def image_size_def)

lemma write_one_ok:
  assumes "image_ok img" and "length (bmp_bytes img) \<le> disk"
  shows "write_one img dir name (Some (disk, buf)) =
    (0, Stdout (''  wrote '' @ take 511 (dir @ ''/'' @ name) @ '' ('' @ fmt_d (img_w img) @ ''x'' @ fmt_d (img_h img) @ '')'' @ newline),
     [(take 511 (dir @ ''/'' @ name), bmp_bytes img)])"
  using assms by (simp add: write_one_def bmp_write_file)

lemma sobel_sides [simp]: "img_w (snd (sobel im out)) = img_w out" "img_h (snd (sobel im out)) = img_h out"
  by (auto simp: sobel_def split: option.split)

lemma conv3x3_sides [simp]: "img_w (snd (conv3x3 im out k dv bias)) = img_w out" "img_h (snd (conv3x3 im out k dv bias)) = img_h out"
  by (auto simp: conv3x3_def split: option.split)

lemma alloc_sides: "img_w (snd (image_alloc True img 192 144)) = 192" "img_h (snd (image_alloc True img 192 144)) = 144"
    "fst (image_alloc True img 192 144) = 0"
  using image_alloc_ok [of 192 144 img] by simp_all

text \<open>The round trip of a frame of 192 by 144 pixels: 27 chunks.\<close>

lemma demo_round_trip:
  assumes "image_ok src" and "img_w src = 192" and "img_h src = 144" and "length stale = 1048"
    and "malloc 27648 = Some blk" and "length blk = 27648"
  shows "fold (chunk_round malloc (True, True) stale src 27648 27) [0..<27] (False, frame_asm_init, img) =
    (True, frame_asm_init, img\<lparr>img_w := 192, img_h := 144, pix := pix src\<rparr>)"
proof -
  from assms(1-3) obtain px where px: "pix src = Some px" "length px = 27648" by (auto simp: image_ok_def image_size_def)
  have fok: "frame_ok 192 144 px" by (simp add: frame_ok_def px(2))
  have n: "nchunks (length px) = 27" by (simp add: px(2) nchunks_def)
  have ids: "[0..<27] = [0..<26] @ [26::nat]" by (simp add: upt_conv_Cons)
  have all: "insert 26 (set [0..<26]) = {..<nchunks (length px)}" by (auto simp: n)
  have "feed_all malloc (map (chunk_payload 192 144 1 px) ([0..<26] @ [26])) (frame_asm_init, img) =
      (replicate 26 0 @ [1], frame_asm_init, img\<lparr>img_w := 192, img_h := 144, pix := Some px\<rparr>)"
    using feed_all_chunks [where malloc = malloc, OF fok _ _ _ all, of blk 1 img] assms(5,6) px(2) by simp
  moreover have "fold (chunk_round malloc (True, True) stale src (of_nat (length px)) (of_nat (nchunks (length px)))) [0..<27] (False, frame_asm_init, img) =
      (case feed_all malloc (map (chunk_payload 192 144 1 px) [0..<27]) (frame_asm_init, img) of (rcs, st) \<Rightarrow> (False \<or> 1 \<in> set rcs, st))"
    by (rule chunk_loop [OF fok assms(4)]) (use assms(2,3) px(1) n in auto)
  ultimately show ?thesis unfolding ids by (simp add: px n [unfolded px(2)])
qed

section \<open>Properties\<close>

text \<open>
  The imaging program. When memory suffices and the disk can hold the images, the program
  succeeds: it leaves the four files, the test pattern, its Sobel edges, its blur and its sharpened
  version, each the complete BMP file of that image, and the frame sent through the chunk builder
  and the reassembler comes back unchanged, in 27 packets: the program reports OK.
\<close>

lemma pl_imaging_demo:
  assumes "v_alloc env = (True, True, True, True)" and "v_callocs env = (True, True)" and "\<forall>name. \<exists>disk buf. v_fopen env name = Some (disk, buf) \<and> 2 ^ 16 \<le> disk"
    and "v_malloc env 27648 = Some blk" and "length blk = 27648" and "length (v_stale env) = 1048"
    and "v_dir env = Some dir" and "src = image_test_pattern (snd (image_alloc True (v_img env) 192 144))"
    and "blank = snd (image_alloc True (v_img env) 192 144)"
  shows "\<exists>lines. pl_imaging_main env = (0, lines,
      [(take 511 (dir @ ''/frame_input.bmp''), bmp_bytes src),
       (take 511 (dir @ ''/frame_edges.bmp''), bmp_bytes (snd (sobel src blank))),
       (take 511 (dir @ ''/frame_blur.bmp''), bmp_bytes (snd (conv3x3 src blank K_BLUR 9 0))),
       (take 511 (dir @ ''/frame_sharpen.bmp''), bmp_bytes (snd (conv3x3 src blank K_SHARPEN 1 0)))]) \<and>
    last lines = Stdout (''  frame chunked into 27 PKT_FRAME packets and reassembled: OK'' @ newline)"
proof -
  have blank: "image_ok blank" "img_w blank = 192" "img_h blank = 144" by (simp_all add: assms(9) image_ok_alloc alloc_sides)
  have src: "image_ok src" "img_w src = 192" "img_h src = 144" "image_test_pattern blank = src"
    using blank by (simp_all add: assms(8,9) image_ok_test_pattern alloc_sides)
  have ok: "image_ok (snd (sobel src blank))" "image_ok (snd (conv3x3 src blank k dv bias))" for k dv bias
    using blank src by (simp_all add: image_ok_sobel image_ok_conv3x3)
  have len: "length (bmp_bytes img) \<le> 2 ^ 16" if "image_ok img" "img_w img = 192" "img_h img = 144" for img
    using length_bmp_bytes [OF that(1)] that(2,3) by simp
  have w: "snd (write_one img dir name (v_fopen env name)) =
      (Stdout (''  wrote '' @ take 511 (dir @ ''/'' @ name) @ '' (192x144)'' @ newline), [(take 511 (dir @ ''/'' @ name), bmp_bytes img)])"
    if "image_ok img" "img_w img = 192" "img_h img = 144" for img name
  proof -
    obtain disk buf where "v_fopen env name = Some (disk, buf)" "2 ^ 16 \<le> disk" using assms(3) by blast
    moreover from this have "length (bmp_bytes img) \<le> disk" using len [OF that] by linarith
    moreover have "fmt_d 192 = ''192''" "fmt_d 144 = ''144''" by code_simp+
    ultimately show ?thesis by (simp add: write_one_ok [OF that(1)] that)
  qed
  have cc: "frame_chunk_count 27648 = 27" "unat (27::u16) = 27" "fmt_u 27 = ''27''" by code_simp+
  note loop = demo_round_trip [where malloc = "v_malloc env" and img = "v_img env", OF src(1-3) assms(6,4,5)]
  have alloc: "image_alloc True (v_img env) 192 144 = (0, blank)" by (simp add: prod_eq_iff alloc_sides assms(9))
  show ?thesis
    unfolding pl_imaging_main_def assms(1,7) option.case prod.case alloc
    by (simp add: Let_def src alloc w ok blank cc loop assms(2))
qed

lemma pl_imaging_demo_example:
  "let env = \<lparr>v_dir = Some ''/tmp'', v_alloc = (True, True, True, True), v_fopen = \<lambda>_. Some (2 ^ 20, 4096),
     v_malloc = \<lambda>n. Some (replicate n 0xCC), v_callocs = (True, True), v_stale = replicate 1048 0, v_img = \<lparr>img_w = 0, img_h = 0, pix = None\<rparr>\<rparr>
   in \<exists>lines files. pl_imaging_main env = (0, lines, files) \<and> map fst files = [''/tmp/frame_input.bmp'',
     ''/tmp/frame_edges.bmp'', ''/tmp/frame_blur.bmp'', ''/tmp/frame_sharpen.bmp''] \<and>
     last lines = Stdout (''  frame chunked into 27 PKT_FRAME packets and reassembled: OK'' @ newline)"
proof -
  let ?env = "\<lparr>v_dir = Some ''/tmp'', v_alloc = (True, True, True, True), v_fopen = \<lambda>_. Some (2 ^ 20, 4096),
     v_malloc = \<lambda>n. Some (replicate n 0xCC), v_callocs = (True, True), v_stale = replicate 1048 0, v_img = \<lparr>img_w = 0, img_h = 0, pix = None\<rparr>\<rparr>"
  from pl_imaging_demo [of ?env "replicate 27648 0xCC" "''/tmp''", OF _ _ _ _ _ _ _ refl refl]
  show ?thesis unfolding Let_def by fastforce
qed

end
