(* ===== verification/Fake_Client.thy ===== *)
theory Fake_Client
  imports Netutil Imaging_Demo Fw_Telemetry
begin

text \<open>
  \<^verbatim>\<open>tools/fake_client.c\<close>, the load generator, on a connected socket. Its parsed options are a record.
  The values it computes in floating point, the sine wave and what the rate amounts to, are part
  of that record. The theory shows what it puts on the wire. Option parsing, connecting and the
  heartbeat thread are in \<open>Fake_Client_Main\<close>.
\<close>

section \<open>Names\<close>

definition type_name :: "u8 \<Rightarrow> string" where
  "type_name t =
     (if t = pkt_code PKT_HELLO_ACK then ''HELLO_ACK''
      else if t = pkt_code PKT_ACK then ''ACK''
      else if t = pkt_code PKT_ERROR then ''ERROR''
      else ''?'')"

definition err_name :: "u16 \<Rightarrow> string" where
  "err_name c =
     (if c = err_code PL_ERR_BAD_MAGIC then ''BAD_MAGIC''
      else if c = err_code PL_ERR_BAD_VERSION then ''BAD_VERSION''
      else if c = err_code PL_ERR_BAD_CHECKSUM then ''BAD_CHECKSUM''
      else if c = err_code PL_ERR_BAD_TYPE then ''BAD_TYPE''
      else if c = err_code PL_ERR_TOO_BIG then ''TOO_BIG''
      else if c = err_code PL_ERR_NO_HELLO then ''NO_HELLO''
      else ''?'')"

section \<open>Receiving\<close>

text \<open>The buffer, \<^verbatim>\<open>*plen\<close> and \<^verbatim>\<open>*h\<close> of the caller.\<close>

type_synonym inbuf = "u8 list \<times> u16 \<times> pl_header"

definition recv_packet :: "endian \<Rightarrow> inbuf \<Rightarrow> sock \<Rightarrow> int \<times> inbuf \<times> sock" where
  "recv_packet host b s =
     (case b of (buf, plen, h0) \<Rightarrow>
      let (r, hdr, s1) = read_n PL_HDR_SIZE (replicate PL_HDR_SIZE 0) s in
      if r = Inr 0 then (0, b, s1)
      else if r \<noteq> Inr PL_HDR_SIZE then (-1, b, s1)
      else
        let h = pl_parse_header host hdr in
        if unat (h_payload_len h) > PL_MAX_PAYLOAD then (-1, (buf, plen, h), s1)
        else if h_payload_len h \<noteq> 0 then
          let (r2, buf2, s2) = read_n (unat (h_payload_len h)) buf s1 in
          if r2 \<noteq> Inr (unat (h_payload_len h)) then (if r2 = Inr 0 then 0 else -1, (buf2, plen, h), s2)
          else (int (unat (h_type h)), (buf2, h_payload_len h, h), s2)
        else (int (unat (h_type h)), (buf, h_payload_len h, h), s1))"

section \<open>Heartbeats\<close>

text \<open>One round of the heartbeat thread: the datagram and the next uptime.\<close>

definition heartbeat_round :: "endian \<Rightarrow> u32 \<Rightarrow> u32 \<Rightarrow> u8 list \<times> u32" where
  "heartbeat_round host devid uptime =
     (let p = mem_u32 host (htonl host uptime) @ mem_u32 host (htonl host 180000);
          (n, out) = pl_build host (replicate (PL_HDR_SIZE + 8) 0) (PL_HDR_SIZE + 8) PKT_HEARTBEAT devid (Some p) 8
      in (take n out, uptime + 1000))"

section \<open>The program\<close>

text \<open>The rate as the program uses it: whether it is positive, \<^verbatim>\<open>(uint32_t)(1000.0 / rate)\<close> and
  \<^verbatim>\<open>(useconds_t)(1e6 / rate)\<close>.\<close>

record rate =
  rate_positive :: bool
  rate_ms :: u32
  rate_us :: u32

record fc_options =
  fc_host :: string
  fc_port :: u16
  fc_uport :: u16
  fc_devid :: u32
  fc_rate :: rate
  fc_count :: int
  fc_bad :: bool
  fc_flood :: bool
  fc_frame :: bool
  fc_wave :: "u32 \<Rightarrow> i32 \<times> i32"

definition fc_period :: "fc_options \<Rightarrow> u32" where
  "fc_period opts = (if rate_positive (fc_rate opts) then rate_ms (fc_rate opts) else 1)"

text \<open>The length of the packet buffer, the build of a HELLO and of a reading.\<close>

definition fc_hello :: "endian \<Rightarrow> u32 \<Rightarrow> nat \<times> u8 list" where
  "fc_hello host devid =
     pl_build host (replicate (PL_HDR_SIZE + PL_MAX_PAYLOAD) 0) (PL_HDR_SIZE + PL_MAX_PAYLOAD) PKT_HELLO devid
       (Some (mem_u32 host (htonl host 0x00010000) @ mem_u32 host (htonl host 0x1))) 8"

definition fc_reading :: "endian \<Rightarrow> fc_options \<Rightarrow> u32 \<Rightarrow> nat \<times> u8 list" where
  "fc_reading host opts sq =
     (let (temp, hum) = fc_wave opts sq;
          p = mem_u32 host (htonl host sq) @ mem_u32 host (htonl host (sq * fc_period opts)) @
              mem_u32 host (htonl host temp) @ mem_u32 host (htonl host hum);
          (n, out) = pl_build host (replicate (PL_HDR_SIZE + PL_MAX_PAYLOAD) 0) (PL_HDR_SIZE + PL_MAX_PAYLOAD)
                       PKT_SENSOR (fc_devid opts) (Some p) 16
      in (n, if fc_bad opts then out[10 := out ! 10 XOR 0xFF] else out))"

text \<open>What the program prints or does that can be seen from outside the sockets; \<open>Slept\<close> is the pause
  after a reading.\<close>

datatype fc_line =
    ConnectFailed string u16
  | Connected string u16 u32 bool
  | Session u32
  | ClosedEarly
  | NoAck int
  | FrameSent int int u16
  | HeartbeatsTo string u16
  | DroppedUs int
  | ClosedUs int
  | GotError string string
  | Got string
  | Slept u32
  | Done int int

fun fc_text :: "fc_line \<Rightarrow> string" where
  "fc_text (ConnectFailed host port) = ''connect to '' @ host @ '':'' @ fmt_u (unat port) @ '' failed'' @ newline"
| "fc_text (Connected host port devid bad) = ''connected to '' @ host @ '':'' @ fmt_u (unat port) @ '' as device 0x'' @ fmt_08X devid @
     (if bad then ''  [bad-checksum mode]'' else []) @ newline"
| "fc_text (Session sid) = ''HELLO_ACK: session_id='' @ fmt_u (unat sid) @ newline"
| "fc_text ClosedEarly = ''server closed before HELLO_ACK'' @ newline"
| "fc_text (NoAck t) = ''no/invalid HELLO_ACK (t='' @ fmt_d t @ '')'' @ newline"
| "fc_text (FrameSent w h cc) = ''sent a '' @ fmt_d w @ ''x'' @ fmt_d h @ '' frame as '' @ fmt_u (unat cc) @ '' PKT_FRAME chunks'' @ newline"
| "fc_text (HeartbeatsTo host uport) = ''UDP heartbeats -> '' @ host @ '':'' @ fmt_u (unat uport) @ '' every 1s'' @ newline"
| "fc_text (DroppedUs sent) = ''server dropped us mid-send after '' @ fmt_d sent @ '' packets'' @ newline"
| "fc_text (ClosedUs sent) = ''server closed connection after '' @ fmt_d sent @ '' packets'' @ newline"
| "fc_text (GotError t e) = ''<- '' @ t @ '' '' @ e @ newline"
| "fc_text (Got t) = ''<- '' @ t @ newline"
| "fc_text (Slept us) = []"
| "fc_text (Done sent errors) = ''done: sent='' @ fmt_d sent @ '' errors='' @ fmt_d errors @ newline"

definition fc_pause :: "fc_options \<Rightarrow> fc_line list" where
  "fc_pause opts = (if \<not> fc_flood opts \<and> rate_positive (fc_rate opts) then [Slept (rate_us (fc_rate opts))] else [])"

text \<open>The loop over the readings, from \<open>seq\<close> on: \<open>None\<close> if it never ends.\<close>

partial_function (option) fc_stream ::
  "endian \<Rightarrow> fc_options \<Rightarrow> u32 \<Rightarrow> int \<Rightarrow> int \<Rightarrow> inbuf \<Rightarrow> sock \<Rightarrow> fc_line list \<Rightarrow> (int \<times> int \<times> fc_line list \<times> sock) option" where
  "fc_stream host opts sq sent errors b s acc =
     (if sint sq \<le> fc_count opts then
        let (n, out) = fc_reading host opts sq;
            (r, s1) = write_n (take n out) s
        in if r \<noteq> Inr n then Some (sent, errors, acc @ [DroppedUs sent], s1)
           else
             let (rt, b1, s2) = recv_packet host b s1 in
             if rt = 0 then Some (sent + 1, errors, acc @ [ClosedUs (sent + 1)], s2)
             else if rt = int (unat (pkt_code PKT_ERROR)) \<and> fst (snd b1) = 2 then
               fc_stream host opts (sq + 1) (sent + 1) (errors + 1) b1 s2
                 (acc @ [GotError (type_name (of_int rt)) (err_name (ntohs host (ld_u16 host (fst b1))))] @ fc_pause opts)
             else if rt > 0 then fc_stream host opts (sq + 1) (sent + 1) errors b1 s2 (acc @ [Got (type_name (of_int rt))] @ fc_pause opts)
             else fc_stream host opts (sq + 1) (sent + 1) errors b1 s2 (acc @ fc_pause opts)
      else Some (sent, errors, acc, s))"

text \<open>The frame mode: all chunks until a write fails.\<close>

fun fc_send_chunks :: "u8 list \<Rightarrow> u32 \<Rightarrow> image \<Rightarrow> u32 \<Rightarrow> u16 \<Rightarrow> nat list \<Rightarrow> sock \<Rightarrow> sock" where
  "fc_send_chunks stale devid img total_px cc [] s = s"
| "fc_send_chunks stale devid img total_px cc (i # is) s =
     (let ((m, pkt), _) = chunk_packet stale devid img total_px cc (of_nat i);
          (r, s1) = write_n (take m pkt) s
      in if r \<noteq> Inr m then s1 else fc_send_chunks stale devid img total_px cc is s1)"

definition fc_frame_mode :: "bool \<Rightarrow> u8 list \<Rightarrow> image \<Rightarrow> u32 \<Rightarrow> sock \<Rightarrow> int \<times> fc_line list \<times> sock" where
  "fc_frame_mode calloc_ok stale img0 devid s =
     (let (rc, img1) = image_alloc calloc_ok img0 160 120 in
      if rc \<noteq> 0 then (1, [], s)
      else
        let img = image_test_pattern img1;
            total_px = (of_int (img_w img) * of_int (img_h img) :: u32);
            cc = frame_chunk_count total_px
        in (0, [FrameSent (img_w img) (img_h img) cc], fc_send_chunks stale devid img total_px cc [0..<unat cc] s))"

text \<open>From the handshake on, on a connected socket; the result is the exit status and what was printed.\<close>

definition fc_main ::
  "endian \<Rightarrow> fc_options \<Rightarrow> bool \<Rightarrow> u8 list \<Rightarrow> image \<Rightarrow> inbuf \<Rightarrow> sock \<Rightarrow> (int \<times> fc_line list \<times> sock) option" where
  "fc_main host opts calloc_ok stale img0 b s =
     (let (n, out) = fc_hello host (fc_devid opts);
          (r, s1) = write_n (take n out) s
      in if r \<noteq> Inr n then Some (1, [], s1)
         else
           let (t, b1, s2) = recv_packet host b s1 in
           if t = int (unat (pkt_code PKT_HELLO_ACK)) \<and> fst (snd b1) = 4 then
             let hello = [Session (ntohl host (ld_u32 host (fst b1)))] in
             if fc_frame opts then
               (case fc_frame_mode calloc_ok stale img0 (fc_devid opts) s2 of (rc, lines, s3) \<Rightarrow> Some (rc, hello @ lines, s3))
             else
               (case fc_stream host opts 1 0 0 b1 s2 (hello @ [HeartbeatsTo (fc_host opts) (fc_uport opts)]) of
                  None \<Rightarrow> None
                | Some (sent, errors, lines, s3) \<Rightarrow> Some (0, lines @ [Done sent errors], s3))
           else if t = 0 then Some (1, [ClosedEarly], s2)
           else Some (1, [NoAck t], s2))"

section \<open>What goes out\<close>

definition fc_payload :: "fc_options \<Rightarrow> u32 \<Rightarrow> pl_sensor_payload" where
  "fc_payload opts sq = \<lparr>s_seq = sq, s_timestamp_ms = sq * fc_period opts, s_temperature = fst (fc_wave opts sq),
     s_humidity = snd (fc_wave opts sq)\<rparr>"

definition spoil :: "bool \<Rightarrow> u8 list \<Rightarrow> u8 list" where
  "spoil bad p = (if bad then p[10 := p ! 10 XOR 0xFF] else p)"

lemma length_spoil [simp]: "length (spoil bad p) = length p"
  by (simp add: spoil_def)

lemma fc_hello_packet:
  "fst (fc_hello host devid) = 20 \<and> take 20 (snd (fc_hello host devid)) = wire_packet PKT_HELLO devid (pair_bytes 0x00010000 1)"
proof -
  have "mem_u32 host (htonl host 0x00010000) @ mem_u32 host (htonl host 0x1) = pair_bytes 0x00010000 1"
    by (simp only: mem_htonl pair_bytes_def)
  then show ?thesis
    unfolding fc_hello_def using pl_build_wire_packet [of "pair_bytes 0x00010000 1" "PL_HDR_SIZE + PL_MAX_PAYLOAD"
        "replicate (PL_HDR_SIZE + PL_MAX_PAYLOAD) 0" host PKT_HELLO devid] by (simp add: pl_consts)
qed

lemma fc_reading_packet:
  "fst (fc_reading host opts sq) = 28 \<and>
   take 28 (snd (fc_reading host opts sq)) = spoil (fc_bad opts) (wire_packet PKT_SENSOR (fc_devid opts) (sensor_bytes (fc_payload opts sq)))"
proof -
  obtain temp hum where w: "fc_wave opts sq = (temp, hum)" by (cases "fc_wave opts sq")
  have p: "mem_u32 host (htonl host sq) @ mem_u32 host (htonl host (sq * fc_period opts)) @
      mem_u32 host (htonl host temp) @ mem_u32 host (htonl host hum) = sensor_bytes (fc_payload opts sq)"
    by (simp only: mem_htonl sensor_bytes_def fc_payload_def w fst_conv snd_conv pl_sensor_payload.select_convs)
  let ?pkt = "wire_packet PKT_SENSOR (fc_devid opts) (sensor_bytes (fc_payload opts sq))"
  have "length ?pkt = 28" by (simp add: pl_consts)
  with pl_build_wire_packet [of "sensor_bytes (fc_payload opts sq)" "PL_HDR_SIZE + PL_MAX_PAYLOAD"
        "replicate (PL_HDR_SIZE + PL_MAX_PAYLOAD) 0" host PKT_SENSOR "fc_devid opts"]
  show ?thesis unfolding fc_reading_def w Let_def prod.case p
    by (simp add: spoil_def nth_append list_update_append pl_consts)
qed

lemma recv_packet_tx:
  assumes "recv_packet host b s = (rt, b1, s1)"
  shows "txs s1 = txs s" "tx_out s1 = tx_out s"
proof -
  obtain buf plen h0 where b: "b = (buf, plen, h0)" by (cases b)
  have keep: "read_n n bf s0 = (r, bf1, s2) \<Longrightarrow> txs s2 = txs s0 \<and> tx_out s2 = tx_out s0" for n bf s0 r bf1 s2
    by (auto simp: read_n_def split: prod.splits)
  obtain r hdr s2 where r1: "read_n PL_HDR_SIZE (replicate PL_HDR_SIZE 0) s = (r, hdr, s2)" by (cases "read_n PL_HDR_SIZE (replicate PL_HDR_SIZE 0) s")
  obtain r2 buf2 s3 where r2: "read_n (unat (h_payload_len (pl_parse_header host hdr))) buf s2 = (r2, buf2, s3)"
    by (cases "read_n (unat (h_payload_len (pl_parse_header host hdr))) buf s2")
  have "s1 = s2 \<or> s1 = s3" using assms r1 r2 by (auto simp: recv_packet_def b Let_def split: if_splits)
  with keep [OF r1] keep [OF r2] show "txs s1 = txs s" "tx_out s1 = tx_out s" by auto
qed

abbreviation fc_packet :: "fc_options \<Rightarrow> nat \<Rightarrow> u8 list" where
  "fc_packet opts j \<equiv> spoil (fc_bad opts) (wire_packet PKT_SENSOR (fc_devid opts) (sensor_bytes (fc_payload opts (of_nat j))))"

lemma sint_of_nat_small: "j < 2 ^ 31 \<Longrightarrow> sint (of_nat j :: u32) = int j"
proof -
  have "0 \<le> d \<Longrightarrow> d < 2 ^ 31 \<Longrightarrow> sint (word_of_int d :: u32) = d" for d
    by (simp add: sint_sbintrunc' signed_take_bit_int_eq_self)
  from this [of "int j"] show "j < 2 ^ 31 \<Longrightarrow> sint (of_nat j :: u32) = int j" by simp
qed

text \<open>Ways a round can go on, as one equation: the next state of the loop.\<close>

lemma fc_stream_round:
  assumes "txs s = []" and "int j \<le> fc_count opts" and "j < 2 ^ 31"
  obtains s2 where "txs s2 = []" and "tx_out s2 = tx_out s @ fc_packet opts j"
    and "fc_stream host opts (of_nat j) sent errors b s acc = Some (sent + 1, errors, acc @ [ClosedUs (sent + 1)], s2) \<or>
      (\<exists>errors' b' acc'. fc_stream host opts (of_nat j) sent errors b s acc =
        fc_stream host opts (of_nat (Suc j)) (sent + 1) errors' b' s2 acc')"
proof -
  let ?pkt = "fc_packet opts j"
  note sj = sint_of_nat_small [OF assms(3)]
  obtain n out where no: "fc_reading host opts (of_nat j) = (n, out)" by (cases "fc_reading host opts (of_nat j)")
  with fc_reading_packet [of host opts "of_nat j"] have n: "n = 28" and out: "take n out = ?pkt" by auto
  have l: "length ?pkt = 28" by (simp add: pl_consts)
  have w: "write_n (take n out) s = (Inr n, s\<lparr>tx_out := tx_out s @ ?pkt\<rparr>)"
    unfolding out using write_n_empty_script [OF assms(1), of ?pkt] unfolding l n .
  obtain rt b1 s2 where r: "recv_packet host b (s\<lparr>tx_out := tx_out s @ ?pkt\<rparr>) = (rt, b1, s2)"
    by (cases "recv_packet host b (s\<lparr>tx_out := tx_out s @ ?pkt\<rparr>)")
  have tx: "txs s2 = []" "tx_out s2 = tx_out s @ ?pkt" using recv_packet_tx [OF r] assms(1) by simp_all
  have suc: "of_nat j + 1 = (of_nat (Suc j) :: u32)" by simp
  have "fc_stream host opts (of_nat j) sent errors b s acc =
      (if rt = 0 then Some (sent + 1, errors, acc @ [ClosedUs (sent + 1)], s2)
       else if rt = int (unat (pkt_code PKT_ERROR)) \<and> fst (snd b1) = 2 then
         fc_stream host opts (of_nat (Suc j)) (sent + 1) (errors + 1) b1 s2
           (acc @ [GotError (type_name (of_int rt)) (err_name (ntohs host (ld_u16 host (fst b1))))] @ fc_pause opts)
       else if rt > 0 then fc_stream host opts (of_nat (Suc j)) (sent + 1) errors b1 s2 (acc @ [Got (type_name (of_int rt))] @ fc_pause opts)
       else fc_stream host opts (of_nat (Suc j)) (sent + 1) errors b1 s2 (acc @ fc_pause opts))"
    unfolding suc [symmetric] using assms(2)
    by (subst fc_stream.simps) (simp only: sj no w r Let_def prod.case simp_thms if_True if_False)
  then show ?thesis by (intro that [OF tx], cases "rt = 0"; cases "rt = int (unat (pkt_code PKT_ERROR)) \<and> fst (snd b1) = 2"; cases "rt > 0")
    (simp_all only: if_True if_False simp_thms, blast+)
qed

lemma fc_stream_wire:
  assumes "txs s = []" and "fc_count opts < 2 ^ 31 - 1" and "int j \<le> fc_count opts + 1"
  shows "\<exists>m errors' lines s'. fc_stream host opts (of_nat j) sent errors b s acc = Some (sent + int m, errors', lines, s') \<and>
    int (j + m) \<le> fc_count opts + 1 \<and> tx_out s' = tx_out s @ concat (map (fc_packet opts) [j..<j + m]) \<and>
    (int (j + m) = fc_count opts + 1 \<or> ClosedUs (sent + int m) \<in> set lines)"
  using assms(1,3)
proof (induction "nat (fc_count opts + 1 - int j)" arbitrary: j sent errors b s acc)
  case 0
  have "sint (of_nat j :: u32) = int j" using 0 assms(2) by (intro sint_of_nat_small) simp
  with 0 show ?case by (intro exI [of _ "0::nat"]) (subst fc_stream.simps, simp)
next
  case (Suc d)
  then have j: "int j \<le> fc_count opts" "j < 2 ^ 31" using assms(2) by simp_all
  obtain s2 where s2: "txs s2 = []" "tx_out s2 = tx_out s @ fc_packet opts j"
    and run: "fc_stream host opts (of_nat j) sent errors b s acc = Some (sent + 1, errors, acc @ [ClosedUs (sent + 1)], s2) \<or>
      (\<exists>errors' b' acc'. fc_stream host opts (of_nat j) sent errors b s acc =
        fc_stream host opts (of_nat (Suc j)) (sent + 1) errors' b' s2 acc')"
    by (rule fc_stream_round [OF Suc.prems(1) j])
  from run show ?case
  proof
    assume "fc_stream host opts (of_nat j) sent errors b s acc = Some (sent + 1, errors, acc @ [ClosedUs (sent + 1)], s2)"
    with s2 j show ?thesis by (intro exI [of _ "1::nat"]) simp
  next
    assume "\<exists>errors' b' acc'. fc_stream host opts (of_nat j) sent errors b s acc =
        fc_stream host opts (of_nat (Suc j)) (sent + 1) errors' b' s2 acc'"
    then obtain errors' b' acc' where eq: "fc_stream host opts (of_nat j) sent errors b s acc =
        fc_stream host opts (of_nat (Suc j)) (sent + 1) errors' b' s2 acc'" by blast
    have "d = nat (fc_count opts + 1 - int (Suc j))" "int (Suc j) \<le> fc_count opts + 1" using Suc.hyps(2) j by linarith+
    from Suc.hyps(1) [OF this(1) s2(1) this(2), of "sent + 1" errors' b' acc'] obtain m errors'' lines s' where
      m: "fc_stream host opts (of_nat (Suc j)) (sent + 1) errors' b' s2 acc' = Some (sent + 1 + int m, errors'', lines, s')"
      "int (Suc j + m) \<le> fc_count opts + 1" "tx_out s' = tx_out s2 @ concat (map (fc_packet opts) [Suc j..<Suc j + m])"
      "int (Suc j + m) = fc_count opts + 1 \<or> ClosedUs (sent + 1 + int m) \<in> set lines" by blast
    have "[j..<j + Suc m] = j # [Suc j..<Suc j + m]" by (simp add: upt_conv_Cons)
    with m eq s2(2) show ?thesis by (intro exI [of _ "Suc m"]) (simp add: add_ac del: upt_Suc)
  qed
qed

lemma spoiled_checksum: "h_checksum (pl_parse_header host (spoil True (wire_packet t i p))) \<noteq> pl_checksum p (length p)"
proof -
  let ?pkt = "wire_packet t i p"
  have len: "12 \<le> length ?pkt" by (simp add: pl_consts)
  have sum: "h_checksum (pl_parse_header host xs) = join_u16 (xs ! 10) (xs ! 11)" if "12 \<le> length xs" for xs
    using that by (simp add: pl_parse_header_host hdr_ld_def)
  have "pl_checksum p (length p) = h_checksum (pl_parse_header host (?pkt @ []))"
    unfolding pl_parse_header_wire_packet by (simp add: wire_header_def)
  then have good: "pl_checksum p (length p) = join_u16 (?pkt ! 10) (?pkt ! 11)" using sum [OF len] by simp
  have bad: "h_checksum (pl_parse_header host (spoil True ?pkt)) = join_u16 (?pkt ! 10 XOR 0xFF) (?pkt ! 11)"
    using sum [of "spoil True ?pkt"] len by (simp add: spoil_def)
  have "a XOR 0xFF \<noteq> a" for a :: u8
  proof
    assume "a XOR 0xFF = a"
    then have "bit (a XOR 0xFF) 0 = bit a 0" by simp
    then show False by (simp add: bit_simps)
  qed
  then show ?thesis unfolding good bad by (metis split_join_u16(1))
qed

section \<open>Properties\<close>

text \<open>
  The load generator. On a socket that accepts every write, and for any behaviour of the
  server, a run without \<^verbatim>\<open>--frame\<close> ends; the bytes it has written are a HELLO and then the readings
  1 to \<open>k\<close>, in order, \<open>k\<close> at most the count; \<open>k\<close> is 0 if no valid HELLO_ACK came, and the count
  unless the server closed the connection; the exit status and the printed totals say so. With
  \<^verbatim>\<open>--bad-checksum\<close> the checksum field of every reading differs from the checksum of its payload.
\<close>

lemma fake_client_wire:
  assumes "txs s = []" and "\<not> fc_frame opts" and "0 \<le> fc_count opts" and "fc_count opts < 2 ^ 31 - 1"
  shows "\<exists>code lines s' k. fc_main host opts calloc_ok stale img0 b s = Some (code, lines, s') \<and> int k \<le> fc_count opts \<and>
    tx_out s' = tx_out s @ wire_packet PKT_HELLO (fc_devid opts) (pair_bytes 0x00010000 1) @
      concat (map (\<lambda>j. spoil (fc_bad opts) (wire_packet PKT_SENSOR (fc_devid opts) (sensor_bytes (fc_payload opts (of_nat j)))))
        [1..<Suc k]) \<and>
    (if code = 0 then (\<exists>errors. last lines = Done (int k) errors) \<and> (int k = fc_count opts \<or> ClosedUs (int k) \<in> set lines)
     else code = 1 \<and> k = 0) \<and>
    (\<forall>x. h_checksum (pl_parse_header host (spoil True (wire_packet PKT_SENSOR (fc_devid opts) (sensor_bytes x)))) \<noteq>
       pl_checksum (sensor_bytes x) 16)"
proof -
  let ?hello = "wire_packet PKT_HELLO (fc_devid opts) (pair_bytes 0x00010000 1)"
  have spoiled: "\<forall>x. h_checksum (pl_parse_header host (spoil True (wire_packet PKT_SENSOR (fc_devid opts) (sensor_bytes x)))) \<noteq>
       pl_checksum (sensor_bytes x) 16"
    using spoiled_checksum [of host PKT_SENSOR "fc_devid opts" "sensor_bytes x" for x] by simp
  obtain n out where no: "fc_hello host (fc_devid opts) = (n, out)" by (cases "fc_hello host (fc_devid opts)")
  with fc_hello_packet [of host "fc_devid opts"] have n: "n = 20" and out: "take n out = ?hello" by auto
  have l: "length ?hello = 20" by (simp add: pl_consts)
  have w: "write_n (take n out) s = (Inr n, s\<lparr>tx_out := tx_out s @ ?hello\<rparr>)"
    unfolding out using write_n_empty_script [OF assms(1), of ?hello] unfolding l n .
  obtain t b1 s2 where r: "recv_packet host b (s\<lparr>tx_out := tx_out s @ ?hello\<rparr>) = (t, b1, s2)"
    by (cases "recv_packet host b (s\<lparr>tx_out := tx_out s @ ?hello\<rparr>)")
  have tx: "txs s2 = []" "tx_out s2 = tx_out s @ ?hello" using recv_packet_tx [OF r] assms(1) by simp_all
  show ?thesis
  proof (cases "t = int (unat (pkt_code PKT_HELLO_ACK)) \<and> fst (snd b1) = 4")
    case True
    let ?acc = "[Session (ntohl host (ld_u32 host (fst b1)))] @ [HeartbeatsTo (fc_host opts) (fc_uport opts)]"
    from fc_stream_wire [OF tx(1) assms(4), of 1 host 0 0 b1 ?acc] assms(3) obtain k errors lines s' where
      k: "fc_stream host opts 1 0 0 b1 s2 ?acc = Some (int k, errors, lines, s')" "int (1 + k) \<le> fc_count opts + 1"
      "tx_out s' = tx_out s2 @ concat (map (fc_packet opts) [1..<1 + k])"
      "int (1 + k) = fc_count opts + 1 \<or> ClosedUs (int k) \<in> set lines" by auto
    have "fc_main host opts calloc_ok stale img0 b s = Some (0, lines @ [Done (int k) errors], s')"
      unfolding fc_main_def no w r Let_def prod.case using True assms(2) k(1) by simp
    moreover have "tx_out s' = tx_out s @ ?hello @ concat (map (fc_packet opts) [1..<Suc k])" using k(3) tx(2) by simp
    moreover have "int k \<le> fc_count opts" "int k = fc_count opts \<or> ClosedUs (int k) \<in> set (lines @ [Done (int k) errors])"
      using k(2,4) by auto
    ultimately show ?thesis using spoiled by (intro exI [of _ "0::int"] exI [of _ "lines @ [Done (int k) errors]"] exI [of _ s'] exI [of _ k]) simp
  next
    case False
    then obtain lines where "fc_main host opts calloc_ok stale img0 b s = Some (1, lines, s2)"
      unfolding fc_main_def no w r Let_def prod.case by (cases "t = 0") (simp_all only: if_True if_False simp_thms)
    then show ?thesis using tx(2) assms(3) spoiled
      by (intro exI [of _ "1::int"] exI [of _ lines] exI [of _ s2] exI [of _ "0::nat"]) simp
  qed
qed

end
