(* ===== verification/Fake_Client_Main.thy ===== *)
theory Fake_Client_Main
  imports Fake_Client Parse_Num
begin

text \<open>
  \<^verbatim>\<open>main\<close> of \<^verbatim>\<open>tools/fake_client.c\<close> from its arguments on: option parsing, address lookup and connecting, the
  heartbeat thread, and then the run on the connected socket of theory \<open>Fake_Client\<close>. Shown here:
  options written out are read back, connecting leaks no descriptor, which datagrams the
  heartbeat thread sends, and what the frame mode puts on the wire.
\<close>

section \<open>Options\<close>

text \<open>\<open>wave\<close> is the sine wave, \<open>atof\<close> what the program computes from the argument of \<^verbatim>\<open>-r\<close>.\<close>

definition fc_defaults :: "(u32 \<Rightarrow> i32 \<times> i32) \<Rightarrow> fc_options" where
  "fc_defaults wave = \<lparr>fc_host = ''127.0.0.1'', fc_port = 9000, fc_uport = 9001, fc_devid = 0x1001,
     fc_rate = \<lparr>rate_positive = True, rate_ms = 1000, rate_us = 1000000\<rparr>, fc_count = 10, fc_bad = False, fc_flood = False,
     fc_frame = False, fc_wave = wave\<rparr>"

fun fc_parse :: "(string \<Rightarrow> rate) \<Rightarrow> opt list \<Rightarrow> fc_options \<Rightarrow> int + fc_options" where
  "fc_parse atof [] opts = Inr opts"
| "fc_parse atof (Opt x arg # rest) opts =
     (if x = CHR ''h'' then fc_parse atof rest (opts\<lparr>fc_host := arg\<rparr>)
      else if x = CHR ''p'' then fc_parse atof rest (opts\<lparr>fc_port := of_int (atoi arg)\<rparr>)
      else if x = CHR ''u'' then fc_parse atof rest (opts\<lparr>fc_uport := of_int (atoi arg)\<rparr>)
      else if x = CHR ''d'' then fc_parse atof rest (opts\<lparr>fc_devid := ucast (strtoul arg)\<rparr>)
      else if x = CHR ''r'' then fc_parse atof rest (opts\<lparr>fc_rate := atof arg\<rparr>)
      else if x = CHR ''n'' then fc_parse atof rest (opts\<lparr>fc_count := atoi arg\<rparr>)
      else if x = CHR ''B'' then fc_parse atof rest (opts\<lparr>fc_bad := True\<rparr>)
      else if x = CHR ''F'' then fc_parse atof rest (opts\<lparr>fc_flood := True\<rparr>)
      else if x = CHR ''M'' then fc_parse atof rest (opts\<lparr>fc_frame := True\<rparr>)
      else Inl 2)"

section \<open>Connecting\<close>

text \<open>
  The loop over the addresses \<^verbatim>\<open>getaddrinfo\<close> found, each given by what \<^verbatim>\<open>socket\<close> and \<^verbatim>\<open>connect\<close> return for it.
  The result is \<^verbatim>\<open>fd\<close> after the loop and the descriptors opened and not closed.
\<close>

fun connect_loop :: "int \<Rightarrow> (int \<times> int) list \<Rightarrow> int \<times> int list" where
  "connect_loop fd [] = (fd, [])"
| "connect_loop fd ((sk, cn) # addrs) =
     (if sk < 0 then connect_loop sk addrs
      else if cn = 0 then (sk, [sk])
      else connect_loop (-1) addrs)"

definition connect_to :: "int \<Rightarrow> (int \<times> int) list \<Rightarrow> int \<times> int list" where
  "connect_to gai addrs = (if gai \<noteq> 0 then (-1, []) else connect_loop (-1) addrs)"

section \<open>The heartbeat thread\<close>

text \<open>
  The thread reads the flag \<^verbatim>\<open>running\<close> until it is cleared, which happens once; \<open>n\<close> is the number of reads
  that still find it set. The inner loop sleeps at most ten times.
\<close>

function hb_wait :: "nat \<Rightarrow> nat \<Rightarrow> nat" where
  "hb_wait i n = (if i < 10 \<and> n > 0 then hb_wait (i + 1) (n - 1) else n)"
  by pat_completeness auto

termination
  by (relation "measure snd") auto

declare hb_wait.simps [simp del]

lemma hb_wait_le: "hb_wait i n \<le> n"
  by (induction i n rule: hb_wait.induct) (simp add: hb_wait.simps)

function hb_loop :: "endian \<Rightarrow> u32 \<Rightarrow> u32 \<Rightarrow> nat \<Rightarrow> u8 list list" where
  "hb_loop host devid uptime n =
     (if n > 0 then (case heartbeat_round host devid uptime of (dgram, uptime1) \<Rightarrow>
        dgram # hb_loop host devid uptime1 (hb_wait 0 (n - 1)))
      else [])"
  by pat_completeness auto

termination
  by (relation "measure (\<lambda>(host, devid, uptime, n). n)") (auto intro: le_less_trans [OF hb_wait_le])

declare hb_loop.simps [simp del]

definition heartbeat_thread :: "endian \<Rightarrow> int \<Rightarrow> u32 \<Rightarrow> nat \<Rightarrow> u8 list list" where
  "heartbeat_thread host fd devid n = (if fd < 0 then [] else hb_loop host devid 0 n)"

section \<open>The program\<close>

text \<open>The arguments after \<open>args\<close>: the results of \<^verbatim>\<open>getaddrinfo\<close> and of the calls for each address, the
  allocation and the stack of the frame mode, and the socket once connected.\<close>

definition fc_program ::
  "endian \<Rightarrow> (string \<Rightarrow> rate) \<Rightarrow> (u32 \<Rightarrow> i32 \<times> i32) \<Rightarrow> opt list \<Rightarrow> int \<times> (int \<times> int) list \<Rightarrow> bool \<Rightarrow> u8 list \<Rightarrow> image \<Rightarrow>
   inbuf \<Rightarrow> sock \<Rightarrow> (int \<times> fc_line list \<times> sock) option" where
  "fc_program host atof wave args net calloc_ok stale img0 b s =
     (case fc_parse atof args (fc_defaults wave) of
        Inl rc \<Rightarrow> Some (rc, [], s)
      | Inr opts \<Rightarrow>
          if fst (connect_to (fst net) (snd net)) < 0 then Some (1, [ConnectFailed (fc_host opts) (fc_port opts)], s)
          else (case fc_main host opts calloc_ok stale img0 b s of
                  None \<Rightarrow> None
                | Some (rc, lines, s1) \<Rightarrow>
                    Some (rc, Connected (fc_host opts) (fc_port opts) (fc_devid opts) (fc_bad opts) # lines, s1)))"

section \<open>Options are read back\<close>

definition fc_args :: "string \<Rightarrow> fc_options \<Rightarrow> opt list" where
  "fc_args rate_arg opts =
     [Opt CHR ''h'' (fc_host opts), Opt CHR ''p'' (fmt_u (unat (fc_port opts))), Opt CHR ''u'' (fmt_u (unat (fc_uport opts))),
      Opt CHR ''d'' (''0x'' @ fmt_08X (fc_devid opts)), Opt CHR ''r'' rate_arg, Opt CHR ''n'' (fmt_d (fc_count opts))] @
     (if fc_bad opts then [Opt CHR ''B'' []] else []) @ (if fc_flood opts then [Opt CHR ''F'' []] else []) @
     (if fc_frame opts then [Opt CHR ''M'' []] else [])"

lemma atoi_fmt_u: "atoi (fmt_u n) = int n"
  by (simp add: fmt_u_def atoi_dec)

lemma fc_parse_args:
  assumes "atof rate_arg = fc_rate opts"
  shows "fc_parse atof (fc_args rate_arg opts) (fc_defaults (fc_wave opts)) = Inr opts"
proof -
  have "ucast (strtoul (CHR ''0'' # CHR ''x'' # fmt_08X (fc_devid opts))) = fc_devid opts" using strtoul_hex [of "fc_devid opts"] by simp
  with assms show ?thesis by (simp add: fc_args_def fc_defaults_def atoi_fmt_u atoi_fmt_d)
qed

section \<open>Connections\<close>

text \<open>The first address for which both calls succeed is used, and no other descriptor stays open.\<close>

lemma connect_loop_first:
  "connect_loop fd addrs =
     (case List.find (\<lambda>(sk, cn). 0 \<le> sk \<and> cn = 0) addrs of
        Some (sk, cn) \<Rightarrow> (sk, [sk])
      | None \<Rightarrow> (if addrs = [] then fd else min (fst (last addrs)) (-1), []))"
  by (induction fd addrs rule: connect_loop.induct) (auto split: option.split)

lemma connect_to_no_leak: "snd (connect_to gai addrs) = (if fst (connect_to gai addrs) < 0 then [] else [fst (connect_to gai addrs)])"
  by (auto simp: connect_to_def connect_loop_first split: option.split dest: find_Some_iff [THEN iffD1])

section \<open>Heartbeats\<close>

lemma hb_wait_eq: "i \<le> 10 \<Longrightarrow> hb_wait i n = n - (10 - i)"
  by (induction i n rule: hb_wait.induct) (subst hb_wait.simps, auto)

lemma heartbeat_round_packet:
  "heartbeat_round host devid uptime = (wire_packet PKT_HEARTBEAT devid (pair_bytes uptime 180000), uptime + 1000)"
proof -
  have "mem_u32 host (htonl host uptime) @ mem_u32 host (htonl host 180000) = pair_bytes uptime 180000"
    by (simp only: mem_htonl pair_bytes_def)
  then show ?thesis unfolding heartbeat_round_def
    using pl_build_wire_packet [of "pair_bytes uptime 180000" "PL_HDR_SIZE + 8" "replicate (PL_HDR_SIZE + 8) 0" host PKT_HEARTBEAT devid]
    by (simp add: pl_consts)
qed

lemma hb_loop_packets:
  "hb_loop host devid (of_nat (1000 * k)) n =
     map (\<lambda>j. wire_packet PKT_HEARTBEAT devid (pair_bytes (of_nat (1000 * j)) 180000)) [k..<k + (n + 10) div 11]"
proof (induction n arbitrary: k rule: less_induct)
  case (less n)
  show ?case
  proof (cases n)
    case 0
    then show ?thesis by (simp add: hb_loop.simps)
  next
    case (Suc m)
    have up: "of_nat (1000 * k) + 1000 = (of_nat (1000 * Suc k) :: u32)" by simp
    have cnt: "(n + 10) div 11 = Suc ((m - 10 + 10) div 11)" using Suc by (cases "m < 10") simp_all
    then have upt: "[k..<k + (n + 10) div 11] = k # [Suc k..<Suc k + (m - 10 + 10) div 11]" by (simp add: upt_conv_Cons)
    have "hb_loop host devid (of_nat (1000 * k)) n =
        wire_packet PKT_HEARTBEAT devid (pair_bytes (of_nat (1000 * k)) 180000) # hb_loop host devid (of_nat (1000 * Suc k)) (m - 10)"
      unfolding up [symmetric] by (subst hb_loop.simps) (simp add: Suc heartbeat_round_packet hb_wait_eq)
    with less.IH [of "m - 10" "Suc k"] Suc show ?thesis unfolding upt list.map by simp
  qed
qed

lemma heartbeat_thread_packets:
  "0 \<le> fd \<Longrightarrow> heartbeat_thread host fd devid n =
     map (\<lambda>j. wire_packet PKT_HEARTBEAT devid (pair_bytes (of_nat (1000 * j)) 180000)) [0..<(n + 10) div 11]"
  using hb_loop_packets [of host devid 0 n] by (simp add: heartbeat_thread_def)

section \<open>The frame mode\<close>

text \<open>The image it sends.\<close>

definition fc_image :: image where
  "fc_image = image_test_pattern \<lparr>img_w = 160, img_h = 120, pix = Some (replicate 19200 0)\<rparr>"

lemma fc_image_shape: "img_w fc_image = 160" "img_h fc_image = 120" "pix fc_image = Some (the (pix fc_image))"
    "length (the (pix fc_image)) = 19200"
  by (simp_all add: fc_image_def image_test_pattern_def Let_def)

lemma frame_ok_fc_image: "frame_ok 160 120 (the (pix fc_image))"
  by (simp add: frame_ok_def fc_image_shape(4))

lemma fc_send_chunks_wire:
  assumes "frame_ok w h px" and "length stale = 1048"
    and "img_w src = int (unat w)" and "img_h src = int (unat h)" and "pix src = Some px"
  shows "set idxs \<subseteq> {..<nchunks (length px)} \<Longrightarrow> txs s = [] \<Longrightarrow>
    fc_send_chunks stale dev src (of_nat (length px)) (of_nat (nchunks (length px))) idxs s =
      s\<lparr>tx_out := tx_out s @ concat (map (\<lambda>n. wire_packet PKT_FRAME dev (chunk_payload w h 1 px n)) idxs)\<rparr>"
proof (induction idxs arbitrary: s)
  case (Cons n idxs)
  let ?pkt = "wire_packet PKT_FRAME dev (chunk_payload w h 1 px n)"
  have "n < nchunks (length px)" using Cons.prems by simp
  note pkt = chunk_packet_eq [OF assms(1) this assms(2-5), of dev]
  have len: "length ?pkt = 24 + length (chunk_of px n)" by (simp add: length_chunk_payload pl_consts)
  then have "take (24 + length (chunk_of px n)) (?pkt @ drop (24 + length (chunk_of px n)) stale) = ?pkt" by simp
  moreover have "write_n ?pkt s = (Inr (24 + length (chunk_of px n)), s\<lparr>tx_out := tx_out s @ ?pkt\<rparr>)"
    using write_n_empty_script [OF Cons.prems(2), of ?pkt] len by simp
  ultimately show ?case using Cons.IH [of "s\<lparr>tx_out := tx_out s @ ?pkt\<rparr>"] Cons.prems
    by (simp only: fc_send_chunks.simps pkt Let_def prod.case) simp
qed simp

lemma fc_frame_mode_wire:
  assumes "fc_frame_mode calloc_ok stale img0 dev s = (0, lines, s')" and "txs s = []" and "length stale = 1048"
  shows "tx_out s' = tx_out s @ concat (map (\<lambda>n. wire_packet PKT_FRAME dev (chunk_payload 160 120 1 (the (pix fc_image)) n)) [0..<19])"
proof -
  let ?img = "image_test_pattern (img0\<lparr>img_w := 160, img_h := 120, pix := Some (replicate 19200 0)\<rparr>)" and ?px = "the (pix fc_image)"
  have calloc_ok using assms(1) by (cases calloc_ok) (simp_all add: fc_frame_mode_def image_alloc_def IMAGE_MAX_PIXELS_def)
  then have "image_alloc calloc_ok img0 160 120 = (0, img0\<lparr>img_w := 160, img_h := 120, pix := Some (replicate 19200 0)\<rparr>)"
    by (simp add: image_alloc_def IMAGE_MAX_PIXELS_def)
  moreover have img: "img_w ?img = 160" "img_h ?img = 120" "pix ?img = Some ?px"
    by (simp_all add: fc_image_def image_test_pattern_def Let_def)
  moreover have cc: "frame_chunk_count 19200 = 19" by (simp add: frame_chunk_count_def FRAME_CHUNK_MAX_def)
  ultimately have s': "s' = fc_send_chunks stale dev ?img 19200 19 [0..<19] s"
    using assms(1) by (simp add: fc_frame_mode_def Let_def del: upt_rec_numeral)
  have n: "nchunks (length ?px) = 19" by (simp add: fc_image_shape(4) nchunks_def)
  have "fc_send_chunks stale dev ?img (of_nat (length ?px)) (of_nat (nchunks (length ?px))) [0..<19] s =
      s\<lparr>tx_out := tx_out s @ concat (map (\<lambda>n. wire_packet PKT_FRAME dev (chunk_payload 160 120 1 ?px n)) [0..<19])\<rparr>"
    by (rule fc_send_chunks_wire [OF frame_ok_fc_image assms(3)]) (use img n assms(2) in auto)
  then show ?thesis unfolding s' n unfolding fc_image_shape(4) by (simp del: upt_rec_numeral)
qed

text \<open>A run with \<^verbatim>\<open>--frame\<close> that reports success has sent its HELLO and the nineteen chunks.\<close>

lemma fc_main_frame_wire:
  assumes "fc_main host opts calloc_ok stale img0 b s = Some (0, lines, s')" and "fc_frame opts" and "txs s = []" and "length stale = 1048"
  shows "tx_out s' = tx_out s @ wire_packet PKT_HELLO (fc_devid opts) (pair_bytes 0x00010000 1) @
    concat (map (\<lambda>n. wire_packet PKT_FRAME (fc_devid opts) (chunk_payload 160 120 1 (the (pix fc_image)) n)) [0..<19])"
proof -
  let ?hello = "wire_packet PKT_HELLO (fc_devid opts) (pair_bytes 0x00010000 1)"
  obtain n out where no: "fc_hello host (fc_devid opts) = (n, out)" by (cases "fc_hello host (fc_devid opts)")
  with fc_hello_packet [of host "fc_devid opts"] have n: "n = 20" and out: "take n out = ?hello" by auto
  have l: "length ?hello = 20" by (simp add: pl_consts)
  have w: "write_n (take n out) s = (Inr n, s\<lparr>tx_out := tx_out s @ ?hello\<rparr>)"
    unfolding out using write_n_empty_script [OF assms(3), of ?hello] unfolding l n .
  obtain t b1 s2 where r: "recv_packet host b (s\<lparr>tx_out := tx_out s @ ?hello\<rparr>) = (t, b1, s2)"
    by (cases "recv_packet host b (s\<lparr>tx_out := tx_out s @ ?hello\<rparr>)")
  have tx: "txs s2 = []" "tx_out s2 = tx_out s @ ?hello" using recv_packet_tx [OF r] assms(3) by simp_all
  obtain rc lines1 s3 where fm: "fc_frame_mode calloc_ok stale img0 (fc_devid opts) s2 = (rc, lines1, s3)"
    by (cases "fc_frame_mode calloc_ok stale img0 (fc_devid opts) s2")
  have "rc = 0 \<and> s' = s3"
    using assms(1,2) unfolding fc_main_def no w r Let_def prod.case fm
    by (cases "t = int (unat (pkt_code PKT_HELLO_ACK)) \<and> fst (snd b1) = 4"; cases "t = 0") (simp_all only: if_True if_False simp_thms option.inject prod.inject, simp_all)
  with fc_frame_mode_wire [of calloc_ok stale img0 "fc_devid opts" s2 lines1 s3] fm tx assms(4) show ?thesis by simp
qed

text \<open>The client receives a packet of the server whole, however it was cut into segments.\<close>

lemma recv_packet_wire:
  assumes "rx_bytes (rx s) = wire_packet t i p @ rest" and "length p \<le> length buf" and "0 < length p" and "length p \<le> PL_MAX_PAYLOAD"
  obtains es where "rx_bytes es = rest" and "rx_stop es = rx_stop (rx s)"
    and "recv_packet host (buf, plen, h0) s =
      (int (unat (pkt_code t)), (p @ drop (length p) buf, of_nat (length p), wire_header t i p), s\<lparr>rx := es\<rparr>)"
proof -
  let ?h = "wire_header t i p" and ?hb = "hdr_mem BigEndian (wire_header t i p)"
  have cut: "rx_bytes (rx s) = ?hb @ p @ rest" using assms(1) by (simp add: wire_packet_def)
  obtain es1 where r1: "read_n PL_HDR_SIZE (replicate PL_HDR_SIZE 0) s = (Inr PL_HDR_SIZE, ?hb, s\<lparr>rx := es1\<rparr>)"
    and es1: "rx_bytes es1 = p @ rest" "rx_stop es1 = rx_stop (rx s)"
    by (rule read_n_full [of PL_HDR_SIZE s "replicate PL_HDR_SIZE 0"]) (use cut in \<open>simp_all add: memcpy_at_0\<close>)
  obtain es2 where r2: "read_n (length p) buf (s\<lparr>rx := es1\<rparr>) = (Inr (length p), p @ drop (length p) buf, s\<lparr>rx := es2\<rparr>)"
    and es2: "rx_bytes es2 = rest" "rx_stop es2 = rx_stop (rx s)"
    by (rule read_n_full [of "length p" "s\<lparr>rx := es1\<rparr>" buf]) (use assms(2) es1 in \<open>simp_all add: memcpy_at_0\<close>)
  have hdr: "pl_parse_header host ?hb = ?h" by (rule hdr.dec_enc_exact)
  have h: "h_type ?h = pkt_code t" "h_payload_len ?h = of_nat (length p)" by (simp_all add: wire_header_def)
  have len: "unat (of_nat (length p) :: u16) = length p" using assms(4) by (intro unat_of_nat_small) (simp add: pl_consts)
  moreover have "(of_nat (length p) :: u16) \<noteq> 0" using len assms(3) by (metis less_numeral_extra(3) unat_0)
  moreover have "(0::nat) \<noteq> PL_HDR_SIZE" by (simp add: pl_consts)
  ultimately have "recv_packet host (buf, plen, h0) s =
      (int (unat (pkt_code t)), (p @ drop (length p) buf, of_nat (length p), ?h), s\<lparr>rx := es2\<rparr>)"
    using r1 r2 assms(4) by (simp add: recv_packet_def Let_def hdr h)
  with es2 show ?thesis by (rule that)
qed

text \<open>The frame mode reports success once the server has answered the HELLO.\<close>

lemma fc_main_frame_succeeds:
  assumes "rx_bytes (rx s) = wire_packet PKT_HELLO_ACK i (mem_u32 BigEndian sid) @ rest" and "length buf = PL_MAX_PAYLOAD"
    and "fc_frame opts" and "txs s = []"
  shows "\<exists>lines s'. fc_main host opts True stale img0 (buf, plen, h0) s = Some (0, lines, s')"
proof -
  let ?hello = "wire_packet PKT_HELLO (fc_devid opts) (pair_bytes 0x00010000 1)"
  obtain n out where no: "fc_hello host (fc_devid opts) = (n, out)" by (cases "fc_hello host (fc_devid opts)")
  with fc_hello_packet [of host "fc_devid opts"] have n: "n = 20" and out: "take n out = ?hello" by auto
  have l: "length ?hello = 20" by (simp add: pl_consts)
  let ?s1 = "s\<lparr>tx_out := tx_out s @ ?hello\<rparr>"
  have w: "write_n (take n out) s = (Inr n, ?s1)"
    unfolding out using write_n_empty_script [OF assms(4), of ?hello] unfolding l n .
  have rx1: "rx_bytes (rx ?s1) = wire_packet PKT_HELLO_ACK i (mem_u32 BigEndian sid) @ rest" using assms(1) by simp
  obtain es where r: "recv_packet host (buf, plen, h0) ?s1 = (int (unat (pkt_code PKT_HELLO_ACK)),
      (mem_u32 BigEndian sid @ drop (length (mem_u32 BigEndian sid)) buf, of_nat (length (mem_u32 BigEndian sid)),
       wire_header PKT_HELLO_ACK i (mem_u32 BigEndian sid)), ?s1\<lparr>rx := es\<rparr>)"
    by (rule recv_packet_wire [OF rx1, of buf host plen h0]) (simp_all add: assms(2) pl_consts)
  have "(of_nat (length (mem_u32 BigEndian sid)) :: u16) = 4" by simp
  moreover obtain lines s3 where "fc_frame_mode True stale img0 (fc_devid opts) (?s1\<lparr>rx := es\<rparr>) = (0, lines, s3)"
    by (simp add: fc_frame_mode_def image_alloc_def IMAGE_MAX_PIXELS_def Let_def)
  ultimately show ?thesis
    unfolding fc_main_def no w r Let_def prod.case using assms(3) by (simp del: mem_u32.simps)
qed

end
