(* ===== verification/Unit_Tests.thy ===== *)
theory Unit_Tests
  imports Fw_Telemetry Tring
begin

text \<open>
  The unit tests of the repository that exercise pure code, \<^verbatim>\<open>common/checksum_test.c\<close>,
  \<^verbatim>\<open>kmod/tring_test.c\<close> and \<^verbatim>\<open>firmware/fw_frame_test.c\<close>: every test function is the list of the
  conditions it hands to \<^verbatim>\<open>CHECK\<close>, computed on the model, and every condition is shown to hold,
  for either byte order of the host, any results of \<^verbatim>\<open>rand\<close> and any initial contents of the
  buffers the tests leave uninitialised. The assertions the authors wrote down are thus
  theorems of the model.
\<close>

section \<open>\<open>CHECK\<close> and the exit code\<close>

definition check_failures :: "bool list \<Rightarrow> nat" where
  "check_failures cs = length (filter Not cs)"

definition test_exit :: "bool list \<Rightarrow> int" where
  "test_exit cs = (if check_failures cs = 0 then 0 else 1)"

lemma test_exit_0: "test_exit cs = 0 \<longleftrightarrow> list_all id cs"
  by (induction cs) (auto simp: test_exit_def check_failures_def)

section \<open>\<open>common/checksum_test.c\<close>\<close>

definition ck_verify :: "endian \<Rightarrow> u8 list \<Rightarrow> nat \<Rightarrow> u16 \<Rightarrow> bool" where
  "ck_verify host payload len wire_checksum \<longleftrightarrow> pl_checksum payload len = ntohs host wire_checksum"

definition test_empty :: "bool list" where
  "test_empty = [pl_checksum [] 0 = 0xFFFF]"

definition test_known_vector :: "bool list" where
  "test_known_vector =
     [pl_checksum [0x00, 0x01] 2 = 0xFFFE,
      pl_checksum [0xFF, 0xFF, 0x00, 0x01] 4 = 0xFFFE,
      pl_checksum [0xFF, 0xFF, 0xFF, 0xFF] 4 = 0x0000]"

definition test_odd_length :: "bool list" where
  "test_odd_length =
     [pl_checksum [0xAB] 1 = NOT 0xAB00,
      pl_checksum [0x12, 0x34, 0x56] 3 = NOT 0x6834]"

definition test_self_verify :: "bool list" where
  "test_self_verify =
     (let payload = map (\<lambda>i. of_nat (i * 17 + 3)) [0..<16];
          c = pl_checksum payload 16;
          with_ck = payload @ [ucast (drop_bit 8 c), ucast (c AND 0xFF)]
      in [pl_checksum with_ck 18 = 0x0000])"

definition test_sensor_roundtrip :: "endian \<Rightarrow> bool list" where
  "test_sensor_roundtrip host =
     (let s = mem_u32 host (htonl host 42) @ mem_u32 host (htonl host 123456) @
            mem_u32 host (htonl host 2654) @ mem_u32 host (htonl host 4810);
          c = pl_checksum s 16;
          wire = htons host c;
          s' = s[7 := (s ! 7) XOR 0x01]
      in [ck_verify host s 16 wire, \<not> ck_verify host s' 16 wire])"

text \<open>\<open>rand k\<close> is the \<open>k\<close>-th result of \<^verbatim>\<open>rand()\<close> after the seed; a trial takes 18 of them.\<close>

definition bitflip_trial :: "(nat \<Rightarrow> nat) \<Rightarrow> nat \<Rightarrow> bool" where
  "bitflip_trial rand k =
     (let buf = map (\<lambda>i. of_nat (rand (k + i))) [0..<16];
          good = pl_checksum buf 16;
          byte = rand (k + 16) mod 16;
          bit = rand (k + 17) mod 8;
          buf' = buf[byte := (buf ! byte) XOR push_bit bit 1]
      in pl_checksum buf' 16 = good)"

fun bitflip_missed :: "(nat \<Rightarrow> nat) \<Rightarrow> nat \<Rightarrow> nat \<Rightarrow> nat" where
  "bitflip_missed rand k 0 = 0"
| "bitflip_missed rand k (Suc t) =
     (if bitflip_trial rand k then 1 else 0) + bitflip_missed rand (k + 18) t"

definition test_bitflip_detection :: "(nat \<Rightarrow> nat) \<Rightarrow> bool list" where
  "test_bitflip_detection rand = [bitflip_missed rand 0 20000 = 0]"

definition checksum_test_main :: "endian \<Rightarrow> (nat \<Rightarrow> nat) \<Rightarrow> int" where
  "checksum_test_main host rand =
     test_exit (test_empty @ test_known_vector @ test_odd_length @ test_self_verify @
       test_sensor_roundtrip host @ test_bitflip_detection rand)"

section \<open>\<open>kmod/tring_test.c\<close>\<close>

definition test_rec :: "u32 \<Rightarrow> telemetry_record" where
  "test_rec sq = \<lparr>device_id = 0x1001, seq = sq, temperature = 2500 + sq, humidity = 5000 - sq,
     server_timestamp_ns = ucast sq * 1000\<rparr>"

text \<open>The loops over \<^verbatim>\<open>i\<close>: the return values of the pushes, the results of the pops.\<close>

fun push_seqs :: "u32 list \<Rightarrow> tring \<Rightarrow> int list \<times> tring" where
  "push_seqs [] r = ([], r)"
| "push_seqs (i # is) r =
     (let (flag, r1) = tring_push r (test_rec i); (flags, r2) = push_seqs is r1 in (flag # flags, r2))"

fun pop_seqs :: "u32 list \<Rightarrow> tring \<Rightarrow> bool list \<times> tring" where
  "pop_seqs [] r = ([], r)"
| "pop_seqs (i # is) r =
     (case tring_pop r of
        None \<Rightarrow> (let (cs, r2) = pop_seqs is r in (False # False # cs, r2))
      | Some (out, r1) \<Rightarrow> (let (cs, r2) = pop_seqs is r1 in (True # (seq out = i) # cs, r2)))"

text \<open>The \<^verbatim>\<open>while (tring_pop(&r, &out))\<close> loop: the checks, \<^verbatim>\<open>last\<close> and \<^verbatim>\<open>n\<close>.\<close>

function drain_seqs :: "tring \<Rightarrow> u32 \<Rightarrow> u32 \<Rightarrow> bool list \<times> u32 \<times> u32" where
  "drain_seqs r lst n =
     (case tring_pop r of
        None \<Rightarrow> ([], lst, n)
      | Some (out, r1) \<Rightarrow>
          (let (cs, res) = drain_seqs r1 (seq out) (n + 1) in ((seq out = lst + 1) # cs, res)))"
  by pat_completeness auto
termination
  by (relation "measure (\<lambda>(r, _). unat (count r))")
    (auto simp: tring_pop_def Let_def unat_count_pred unat_gt_0 split: if_splits)

declare drain_seqs.simps [simp del]

definition test_fifo_order :: "tring \<Rightarrow> bool list" where
  "test_fifo_order r0 =
     (let seqs = map of_nat [1..<11];
          (flags, r1) = push_seqs seqs (tring_init r0);
          (pops, r2) = pop_seqs seqs r1
      in map (\<lambda>f. f = 0) flags @ [tring_count r1 = 10] @ pops @
         [tring_pop r2 = None, produced r2 = 10 \<and> dropped r2 = 0])"

definition test_drop_oldest :: "tring \<Rightarrow> bool list" where
  "test_drop_oldest r0 =
     (let total = TRING_CAP + 5;
          (flags, r1) = push_seqs (map of_nat [1..<unat total + 1]) (tring_init r0);
          drops = sum_list flags
      in [tring_count r1 = TRING_CAP, drops = 5, dropped r1 = 5, produced r1 = ucast total] @
         (case tring_pop r1 of
            None \<Rightarrow> [False]
          | Some (out, r2) \<Rightarrow>
              (let (cs, lst, n) = drain_seqs r2 (seq out) 1
               in [True, seq out = 6] @ cs @ [n = TRING_CAP, lst = total])))"

definition tring_test_main :: "tring \<Rightarrow> tring \<Rightarrow> int" where
  "tring_test_main ra rb = test_exit (test_fifo_order ra @ test_drop_oldest rb)"

section \<open>\<open>firmware/fw_frame_test.c\<close>\<close>

definition sensor_checks :: "endian \<Rightarrow> nat \<times> u8 list \<Rightarrow> bool list" where
  "sensor_checks host res =
     (let (n, pkt) = res; h = pl_parse_header host pkt; s = drop PL_HDR_SIZE pkt
      in [n = PL_SENSOR_PACKET_SIZE,
          h_type h = pkt_code PKT_SENSOR \<and> h_device_id h = 0x1001 \<and> h_payload_len h = 16,
          pl_checksum (drop PL_HDR_SIZE pkt) (unat (h_payload_len h)) = h_checksum h,
          ntohl host (ld_u32 host s) = 42 \<and> ntohl host (ld_u32 host (drop 8 s)) = 2654 \<and>
            ntohl host (ld_u32 host (drop 12 s)) = 4810])"

definition neg_temp_checks :: "endian \<Rightarrow> u8 list \<Rightarrow> bool list" where
  "neg_temp_checks host pkt =
     [sint (ntohl host (ld_u32 host (drop 8 (drop PL_HDR_SIZE pkt)))) = -512]"

definition hello_checks :: "endian \<Rightarrow> nat \<times> u8 list \<Rightarrow> bool list" where
  "hello_checks host res =
     (let (n, pkt) = res; h = pl_parse_header host pkt; hello = drop PL_HDR_SIZE pkt
      in [n = PL_HELLO_PACKET_SIZE,
          h_type h = pkt_code PKT_HELLO \<and> h_payload_len h = 8,
          pl_checksum (drop PL_HDR_SIZE pkt) 8 = h_checksum h,
          ntohl host (ld_u32 host hello) = 0x00010002 \<and> ntohl host (ld_u32 host (drop 4 hello)) = 1])"

definition heartbeat_checks :: "endian \<Rightarrow> nat \<times> u8 list \<Rightarrow> bool list" where
  "heartbeat_checks host res =
     (let (n, pkt) = res; h = pl_parse_header host pkt; hb = drop PL_HDR_SIZE pkt
      in [n = PL_HEARTBEAT_PACKET_SIZE,
          h_type h = pkt_code PKT_HEARTBEAT \<and> h_payload_len h = 8,
          ntohl host (ld_u32 host hb) = 60000 \<and> ntohl host (ld_u32 host (drop 4 hb)) = 180000])"

definition server_decodes_firmware :: "endian \<Rightarrow> u8 list \<Rightarrow> u8 list \<Rightarrow> bool list" where
  "server_decodes_firmware host pkt tiny =
     (let b1 = pl_build_sensor pkt 64 0x1001 42 12345 2654 4810;
          b2 = pl_build_sensor (snd b1) 64 0x2002 7 0 (- 512) 3300;
          b3 = pl_build_hello (snd b2) 64 0x1001 0x00010002 0x1;
          b4 = pl_build_heartbeat (snd b3) 64 0x1001 60000 180000
      in sensor_checks host b1 @ neg_temp_checks host (snd b2) @ hello_checks host b3 @
         heartbeat_checks host b4 @ [fst (pl_build_sensor tiny 8 1 1 1 1 1) = 0])"

definition hello_ack_checks :: "nat \<times> u8 list \<Rightarrow> bool list" where
  "hello_ack_checks res =
     (let (n, pkt) = res in
      (n = PL_HDR_SIZE + 4) #
      (case pl_parse_header_fw pkt of
         None \<Rightarrow> [False]
       | Some rh \<Rightarrow>
           [True,
            rx_type rh = pkt_code PKT_HELLO_ACK \<and> rx_device_id rh = 0x1001 \<and> rx_payload_len rh = 4,
            pl_checksum (drop PL_HDR_SIZE pkt) (unat (rx_payload_len rh)) = rx_checksum rh,
            rd_u32 pkt PL_HDR_SIZE = 7]))"

definition error_checks :: "u8 list \<Rightarrow> bool list" where
  "error_checks pkt =
     [(case pl_parse_header_fw pkt of None \<Rightarrow> False | Some rh \<Rightarrow> rx_type rh = pkt_code PKT_ERROR),
      rd_u16 pkt PL_HDR_SIZE = err_code PL_ERR_BAD_CHECKSUM,
      pl_parse_header_fw (pkt[0 := (pkt ! 0) XOR 0xFF]) = None]"

definition firmware_decodes_server :: "endian \<Rightarrow> u8 list \<Rightarrow> bool list" where
  "firmware_decodes_server host pkt =
     (let sid_be = mem_u32 host (htonl host 7);
          b1 = pl_build host pkt 64 PKT_HELLO_ACK 0x1001 (Some sid_be) 4;
          code_be = mem_u16 host (htons host (err_code PL_ERR_BAD_CHECKSUM));
          b2 = pl_build host (snd b1) 64 PKT_ERROR 0x1001 (Some code_be) 2
      in hello_ack_checks b1 @ error_checks (snd b2))"

definition fw_frame_test_main :: "endian \<Rightarrow> u8 list \<Rightarrow> u8 list \<Rightarrow> u8 list \<Rightarrow> int" where
  "fw_frame_test_main host pkt tiny pkt2 =
     test_exit (server_decodes_firmware host pkt tiny @ firmware_decodes_server host pkt2)"

section \<open>The checksum tests pass\<close>

lemma test_vectors:
  "list_all id test_empty" "list_all id test_known_vector" "list_all id test_odd_length"
  by code_simp+

lemma test_self_verify_ok: "list_all id test_self_verify"
proof -
  define payload :: "u8 list" where "payload = map (\<lambda>i. of_nat (i * 17 + 3)) [0..<16]"
  show ?thesis
    using pl_checksum_self_verify [of payload]
    by (simp add: test_self_verify_def low_byte Let_def payload_def del: upt.simps)
qed

lemma xor_bit_ne: "n < 8 \<Longrightarrow> (x :: u8) XOR push_bit n 1 \<noteq> x"
proof
  assume n: "n < 8" and eq: "x XOR push_bit n 1 = x"
  have "bit (x XOR push_bit n 1) n \<longleftrightarrow> \<not> bit x n"
    using n by (simp add: bit_xor_iff bit_exp_iff)
  with eq show False by simp
qed

lemma test_sensor_roundtrip_ok: "list_all id (test_sensor_roundtrip host)"
proof -
  define s :: "u8 list" where "s = mem_u32 BigEndian 42 @ mem_u32 BigEndian 123456 @
    mem_u32 BigEndian 2654 @ mem_u32 BigEndian 4810"
  have "pl_checksum (s[7 := (s ! 7) XOR push_bit 0 1]) 16 \<noteq> pl_checksum s 16"
    by (rule checksum_byte_changes) (use xor_bit_ne [of 0 "s ! 7"] in \<open>simp_all add: s_def\<close>)
  then show ?thesis
    by (simp add: test_sensor_roundtrip_def ck_verify_def mem_htonl Let_def s_def del: mem_u32.simps)
qed

lemma bitflip_trial_detected: "\<not> bitflip_trial rand k"
  unfolding bitflip_trial_def Let_def
  by (rule checksum_byte_changes) (simp_all add: xor_bit_ne [unfolded push_bit_of_1])

lemma bitflip_missed_0: "bitflip_missed rand k t = 0"
  by (induction t arbitrary: k) (simp_all add: bitflip_trial_detected)

lemma checksum_test_passes: "checksum_test_main host rand = 0"
  by (simp add: checksum_test_main_def test_exit_0 test_vectors test_self_verify_ok
      test_sensor_roundtrip_ok test_bitflip_detection_def bitflip_missed_0)

section \<open>The ring tests pass\<close>

lemma push_seqs_account:
  "tring_invar r \<Longrightarrow> push_seqs is r = (flags, r') \<Longrightarrow>
   tring_invar r' \<and> tring_list r' = last_n 256 (tring_list r @ map test_rec is) \<and>
   produced r' = produced r + of_nat (length is) \<and> dropped r' = dropped r + of_int (sum_list flags) \<and>
   sum_list flags = int (length (tring_list r @ map test_rec is) - 256) \<and> list_all (\<lambda>f. 0 \<le> f) flags"
proof (induction "is" arbitrary: r flags)
  case Nil
  then show ?case using tr.length_contents [of r] by simp
next
  case (Cons i "is")
  let ?s = "snd (tring_push r (test_rec i))"
  obtain fs where run: "push_seqs is ?s = (fs, r')" and flags: "flags = fst (tring_push r (test_rec i)) # fs"
    using Cons.prems(2) by (auto simp: split_def Let_def prod_eq_iff)
  have inv: "tring_invar ?s" using Cons.prems(1) by (rule tring_invar_push)
  have len: "length (tring_list r) \<le> 256" using Cons.prems(1) by (rule tr.length_contents)
  have s: "tring_list ?s = last_n 256 (tring_list r @ [test_rec i])"
    using Cons.prems(1) by (rule tr.upto.contents_push_last_n)
  show ?case
    using Cons.IH [OF inv run] len
    by (auto simp: flags s tring_push_flag tring_push_counters last_n_last_n_append
        simp del: length_tring_list)
qed

lemma tring_pop_Cons:
  assumes "tring_invar r" and "tring_list r = x # xs"
  obtains r' where "tring_pop r = Some (x, r')" and "tring_list r' = xs" and "tring_invar r'"
  using tr.pop_nonempty [OF assms(1)] unfolding assms(2) list.sel by blast

lemma pop_seqs_drain:
  "tring_invar r \<Longrightarrow> tring_list r = map test_rec is \<Longrightarrow> pop_seqs is r = (cs, r') \<Longrightarrow>
   list_all id cs \<and> tring_pop r' = None \<and> produced r' = produced r \<and> dropped r' = dropped r"
proof (induction "is" arbitrary: r cs)
  case Nil
  then show ?case using tr.pop_None [of r] by simp
next
  case (Cons i "is")
  obtain r1 where p: "tring_pop r = Some (test_rec i, r1)" and r1: "tring_list r1 = map test_rec is" "tring_invar r1"
    using tring_pop_Cons [OF Cons.prems(1) Cons.prems(2) [unfolded list.map]] .
  obtain cs1 where run: "pop_seqs is r1 = (cs1, r')" and cs: "cs = True # (seq (test_rec i) = i) # cs1"
    using Cons.prems(3) p by (auto split: prod.splits)
  show ?case
    using Cons.IH [OF r1(2,1) run] tring_pop_counters [OF p] by (simp add: cs test_rec_def)
qed

lemma drain_seqs_upt:
  "tring_invar r \<Longrightarrow> tring_list r = map (\<lambda>k. test_rec (of_nat k)) [a..<a + m] \<Longrightarrow>
   drain_seqs r (of_nat a - 1) n = (cs, res) \<Longrightarrow>
   list_all id cs \<and> res = (of_nat (a + m) - 1, n + of_nat m)"
proof (induction m arbitrary: a r n cs)
  case 0
  then show ?case using tr.pop_None [of r] by (simp add: drain_seqs.simps [of r])
next
  case (Suc m)
  have xs: "tring_list r = test_rec (of_nat a) # map (\<lambda>k. test_rec (of_nat k)) [Suc a..<Suc a + m]"
  proof -
    have "[a..<a + Suc m] = a # [Suc a..<Suc a + m]" by (simp only: upt_conv_Cons add_Suc_right add_Suc less_add_Suc1)
    with Suc.prems(2) show ?thesis by (simp only: list.map)
  qed
  obtain r1 where p: "tring_pop r = Some (test_rec (of_nat a), r1)"
      and r1: "tring_list r1 = map (\<lambda>k. test_rec (of_nat k)) [Suc a..<Suc a + m]" "tring_invar r1"
    using tring_pop_Cons [OF Suc.prems(1) xs] .
  have sq: "seq (test_rec (of_nat a)) = of_nat (Suc a) - 1" by (simp add: test_rec_def)
  obtain cs1 where run: "drain_seqs r1 (of_nat (Suc a) - 1) (n + 1) = (cs1, res)"
      and cs: "cs = True # cs1"
    using Suc.prems(3) p by (auto simp: drain_seqs.simps [of r] sq split: prod.splits)
  show ?case using Suc.IH [OF r1(2,1) run] by (simp add: cs algebra_simps)
qed

lemma test_fifo_order_ok:
  assumes "length (buf r) = 256"
  shows "list_all id (test_fifo_order r)"
proof -
  let ?seqs = "map of_nat [1..<11] :: u32 list"
  obtain flags r1 where push: "push_seqs ?seqs (tring_init r) = (flags, r1)" by (cases "push_seqs ?seqs (tring_init r)")
  obtain cs r2 where pop: "pop_seqs ?seqs r1 = (cs, r2)" by (cases "pop_seqs ?seqs r1")
  note init = tring_init_empty [OF assms]
  have r1: "tring_invar r1" "tring_list r1 = map test_rec ?seqs" "produced r1 = 10" "dropped r1 = 0"
      and flags: "sum_list flags = 0" "list_all (\<lambda>f. 0 \<le> f) flags"
    using push_seqs_account [OF _ push] init by (simp_all add: tring_init_def del: upt.simps)
  have "\<forall>f \<in> set flags. f = 0"
    using flags sum_list_nonneg_eq_0_iff [of flags] by (simp add: list_all_iff)
  moreover have "tring_count r1 = 10"
    using length_tring_list [of r1] unfolding r1(2) tring_count_def
    by (simp add: word_unat_eq_iff del: length_tring_list upt.simps)
  moreover have "list_all id cs \<and> tring_pop r2 = None \<and> produced r2 = 10 \<and> dropped r2 = 0"
    using pop_seqs_drain [OF r1(1,2) pop] r1(3,4) by simp
  ultimately show ?thesis
    unfolding test_fifo_order_def Let_def push prod.case pop by (auto simp: list_all_iff)
qed

lemma test_drop_oldest_ok:
  assumes "length (buf r) = 256"
  shows "list_all id (test_drop_oldest r)"
proof -
  let ?seqs = "map of_nat [1..<262] :: u32 list"
  obtain flags r1 where push: "push_seqs ?seqs (tring_init r) = (flags, r1)" by (cases "push_seqs ?seqs (tring_init r)")
  note init = tring_init_empty [OF assms]
  have r1: "tring_invar r1" "tring_list r1 = last_n 256 (map test_rec ?seqs)" "produced r1 = 261"
      "dropped r1 = 5" and flags: "sum_list flags = 5"
    using push_seqs_account [OF _ push] init by (simp_all add: tring_init_def del: upt.simps upt_rec_numeral)
  have total: "unat (TRING_CAP + 5) + 1 = 262" by (simp add: TRING_CAP_def)
  have l1: "tring_list r1 = test_rec 6 # map (\<lambda>k. test_rec (of_nat k)) [7..<7 + 255]"
  proof -
    have "(1::nat) + 5 = 6" "(6::nat) < 262" "Suc 6 = 7" "(262::nat) = 7 + 255" by simp_all
    then have "drop 5 [1..<262] = 6 # [7..<7 + 255 :: nat]" by (metis drop_upt upt_conv_Cons)
    then show ?thesis
      unfolding r1(2) last_n_def by (simp add: drop_map del: upt.simps upt_rec_numeral)
  qed
  obtain r2 where p: "tring_pop r1 = Some (test_rec 6, r2)"
      and r2: "tring_list r2 = map (\<lambda>k. test_rec (of_nat k)) [7..<7 + 255]" "tring_invar r2"
    using tring_pop_Cons [OF r1(1) l1] .
  obtain cs res where drain: "drain_seqs r2 (of_nat 7 - 1) 1 = (cs, res)" by (cases "drain_seqs r2 (of_nat 7 - 1) 1")
  have "tring_count r1 = 256"
    using length_tring_list [of r1] unfolding l1 tring_count_def
    by (simp add: word_unat_eq_iff del: length_tring_list upt.simps)
  then show ?thesis
    using drain_seqs_upt [OF r2(2,1) drain] drain total
    unfolding test_drop_oldest_def Let_def total push prod.case p option.case
    by (simp add: TRING_CAP_def r1(3,4) flags test_rec_def del: upt_rec_numeral)
qed

lemma tring_test_passes:
  "length (buf ra) = 256 \<Longrightarrow> length (buf rb) = 256 \<Longrightarrow> tring_test_main ra rb = 0"
  by (simp add: tring_test_main_def test_exit_0 test_fifo_order_ok test_drop_oldest_ok)

section \<open>The frame tests pass\<close>

text \<open>What either parser and a payload read see in a buffer that starts with a packet.\<close>

lemma drop_packet: "drop PL_HDR_SIZE (wire_packet t dev p @ rest) = p @ rest"
  by (simp add: wire_packet_def pl_consts)

lemma checksum_packet:
  "length p = n \<Longrightarrow> pl_checksum (p @ rest) n = pl_checksum p n"
  using pl_checksum_append [of p rest] by simp

lemma payload_fields:
  "ld_u32 BigEndian (sensor_bytes s @ rest) = s_seq s"
  "ld_u32 BigEndian (drop 8 (sensor_bytes s @ rest)) = s_temperature s"
  "ld_u32 BigEndian (drop 12 (sensor_bytes s @ rest)) = s_humidity s"
  "ld_u32 BigEndian (pair_bytes a b @ rest) = a"
  "ld_u32 BigEndian (drop 4 (pair_bytes a b @ rest)) = b"
  by (simp_all add: sensor_bytes_def pair_bytes_def c32.dec_enc del: mem_u32.simps ld_u32.simps)

lemmas packet_reads = Let_def prod.case pl_parse_header_wire_packet wire_header_def drop_packet ntohl_ld_u32
  payload_fields

lemma sensor_checks_ok:
  "list_all id (sensor_checks host (PL_SENSOR_PACKET_SIZE, wire_packet PKT_SENSOR 0x1001 (sensor_bytes
     \<lparr>s_seq = 42, s_timestamp_ms = ts, s_temperature = 2654, s_humidity = 4810\<rparr>) @ rest))"
  unfolding sensor_checks_def packet_reads
  by (simp add: checksum_packet del: drop_append ld_u32.simps)

lemma neg_temp_checks_ok:
  "list_all id (neg_temp_checks host (wire_packet PKT_SENSOR dev (sensor_bytes
     \<lparr>s_seq = sq, s_timestamp_ms = ts, s_temperature = - 512, s_humidity = h\<rparr>) @ rest))"
  unfolding neg_temp_checks_def packet_reads
  by (simp add: checksum_packet del: drop_append ld_u32.simps)

lemma hello_checks_ok:
  "list_all id (hello_checks host (PL_HELLO_PACKET_SIZE, wire_packet PKT_HELLO dev (pair_bytes 0x00010002 1) @ rest))"
  unfolding hello_checks_def packet_reads
  by (simp add: checksum_packet del: drop_append ld_u32.simps)

lemma heartbeat_checks_ok:
  "list_all id (heartbeat_checks host
     (PL_HEARTBEAT_PACKET_SIZE, wire_packet PKT_HEARTBEAT dev (pair_bytes 60000 180000) @ rest))"
  unfolding heartbeat_checks_def packet_reads
  by (simp add: checksum_packet del: drop_append ld_u32.simps)

lemma server_decodes_firmware_ok:
  assumes "length pkt = 64"
  shows "list_all id (server_decodes_firmware host pkt tiny)"
proof -
  have tiny: "fst (pl_build_sensor tiny 8 1 1 1 1 1) = 0"
    by (simp add: pl_build_sensor_def pl_consts)
  show ?thesis
    using assms
    by (simp add: server_decodes_firmware_def Let_def pl_build_sensor_packet pl_build_hello_packet
        pl_build_heartbeat_packet telemetry_size_asserts pl_consts tiny neg_temp_checks_ok
        sensor_checks_ok [unfolded pl_consts] hello_checks_ok [unfolded pl_consts]
        heartbeat_checks_ok [unfolded pl_consts])
qed

lemma fw_parses_packet:
  "pl_parse_header_fw (wire_packet t dev p @ rest) =
     Some \<lparr>rx_type = pkt_code t, rx_device_id = dev, rx_payload_len = of_nat (length p),
       rx_checksum = pl_checksum p (length p)\<rparr>"
proof -
  have "pl_parse_header_fw (wire_packet t dev p @ rest) = (let h = wire_header t dev p in
    if h_magic h = PL_MAGIC \<and> h_version h = PL_VERSION then
      Some \<lparr>rx_type = h_type h, rx_device_id = h_device_id h, rx_payload_len = h_payload_len h, rx_checksum = h_checksum h\<rparr>
    else None)"
    unfolding pl_parse_header_wire_packet [symmetric, of t dev p BigEndian rest]
    by (rule pl_parse_header_fw_host) simp
  then show ?thesis by (simp add: wire_header_def)
qed

lemma fw_rejects_magic:
  "pl_parse_header_fw ((wire_packet t dev p @ rest)[0 := ((wire_packet t dev p @ rest) ! 0) XOR 0xFF]) = None"
  by (simp add: pl_parse_header_fw_def rd_u16_def wire_packet_def wire_header_def hdr_mem_def pl_consts)

lemma hello_ack_checks_ok:
  "list_all id (hello_ack_checks (PL_HDR_SIZE + 4, wire_packet PKT_HELLO_ACK 0x1001 (mem_u32 BigEndian 7) @ rest))"
  unfolding hello_ack_checks_def Let_def prod.case fw_parses_packet option.case drop_packet
  by (simp add: checksum_packet rd_u32_ld pl_consts wire_packet_def c32.dec_enc del: mem_u32.simps ld_u32.simps)

lemma error_checks_ok:
  "list_all id (error_checks (wire_packet PKT_ERROR dev (mem_u16 BigEndian (err_code PL_ERR_BAD_CHECKSUM)) @ rest))"
  unfolding error_checks_def fw_parses_packet option.case fw_rejects_magic
  by (simp add: rd_u16_ld pl_consts wire_packet_def c16.dec_enc del: mem_u16.simps ld_u16.simps err_code.simps)

lemma firmware_decodes_server_ok:
  assumes "length pkt = 64"
  shows "list_all id (firmware_decodes_server host pkt)"
proof -
  let ?sid = "mem_u32 BigEndian 7" and ?code = "mem_u16 BigEndian (err_code PL_ERR_BAD_CHECKSUM)"
  have b1: "pl_build host pkt 64 PKT_HELLO_ACK 0x1001 (Some ?sid) 4 =
      (PL_HDR_SIZE + 4, wire_packet PKT_HELLO_ACK 0x1001 ?sid @ drop (PL_HDR_SIZE + 4) pkt)"
    using pl_build_wire_packet [of ?sid 64 pkt host PKT_HELLO_ACK "0x1001"] assms
    by (simp add: pl_consts del: mem_u32.simps)
  have b2: "pl_build host out 64 PKT_ERROR 0x1001 (Some ?code) 2 =
      (PL_HDR_SIZE + 2, wire_packet PKT_ERROR 0x1001 ?code @ drop (PL_HDR_SIZE + 2) out)" if "length out = 64" for out
    using pl_build_wire_packet [of ?code 64 out host PKT_ERROR "0x1001"] that
    by (simp add: pl_consts del: mem_u16.simps err_code.simps)
  have len: "length (wire_packet PKT_HELLO_ACK 0x1001 ?sid @ drop (PL_HDR_SIZE + 4) pkt) = 64"
    using assms by (simp add: pl_consts)
  show ?thesis
    unfolding firmware_decodes_server_def Let_def mem_htonl mem_htons b1 snd_conv b2 [OF len] list_all_append
    using hello_ack_checks_ok error_checks_ok by blast
qed

lemma fw_frame_test_passes:
  "length pkt = 64 \<Longrightarrow> length pkt2 = 64 \<Longrightarrow> fw_frame_test_main host pkt tiny pkt2 = 0"
  by (simp add: fw_frame_test_main_def test_exit_0 server_decodes_firmware_ok firmware_decodes_server_ok)

end
