(* ===== verification/Spec2Isabelle.thy ===== *)
theory Spec2Isabelle
  imports Wire Fw_Telemetry Tring Telemetry_Drv Telemetry_Fops Telemetry_Wait Telemetry_Tools Sink Sink_Chardev
    Device_Table Device_Table_Conc Device_Fields_Conc Image Convolve Frame Frame_Asm Bmp Netutil Client_Handler
    Client_Session Frame_Session Server Server_Main Server_Account Fw_Tasks Fw_Pipeline Fw_Link Fw_Boot
    Sketch_Framing Sketch_Tasks Imaging_Demo Fake_Client Fake_Client_Main Unit_Tests
begin

text \<open>
  A verification of PulseLink: an ESP32 device samples a sensor and streams readings over TCP to a
  server, which keeps a table of devices and hands every reading to a sink, in memory or the Linux
  character device \<^verbatim>\<open>/dev/telemetry\<close>; programs read that device back. The same connection carries
  image frames, which the server reassembles, filters and stores. Sources are under \<^verbatim>\<open>src/\<close>.

  \<^bold>\<open>Conventions.\<close> C integers of fixed width are words (\<^verbatim>\<open>uint32_t\<close> is \<open>u32\<close>; \<^verbatim>\<open>int32_t\<close> is \<open>i32\<close>, read by
  \<open>sint\<close>), so that wrap-around is that of the code; an \<^verbatim>\<open>int\<close> that cannot overflow is an \<open>int\<close>. A byte
  buffer is a list. A pointer that may be NULL is an option, error codes and errno values are values.
  The byte order of the host is a parameter. Code outside the sources (allocators, the kernel's copy
  routines, sockets, the clock, FreeRTOS) is an argument: what the calls of a round return, or, for
  the queue of the firmware, functions with a named hypothesis. Stateful code is a function from
  state to state; threads are step relations.

  \<^bold>\<open>Theories and the code they model.\<close>
  \<^item> \<open>Prelude\<close>: word and buffer lemmas, errno, collections of simplification rules.
  \<^item> \<open>Protocol\<close>, \<open>Checksum\<close>, \<open>Codec\<close>, \<open>Wire\<close>: \<^verbatim>\<open>common/protocol.h\<close>, \<^verbatim>\<open>checksum.c\<close>, \<^verbatim>\<open>wire.c\<close>. The checksum loop
    is the RFC 1071 sum. \<open>Codec\<close> has the locale of fixed-size encodings and its interpretations. Packets
    built on one host parse on any other; \<open>wire_packet\<close> is the reference packet.
  \<^item> \<open>Fw_Telemetry\<close>: \<^verbatim>\<open>firmware/telemetry.c\<close>; its builders make the server's packets.
  \<^item> \<open>Records\<close>: the record of \<^verbatim>\<open>server/sink.h\<close> and \<^verbatim>\<open>kmod/telemetry_uapi.h\<close>.
  \<^item> \<open>Ring_Spec\<close>: the abstract drop-oldest queue, a locale that both rings interpret.
  \<^item> \<open>Tring\<close>, \<open>Telemetry_Drv\<close>, \<open>Telemetry_Fops\<close>, \<open>Telemetry_Wait\<close>, \<open>Telemetry_Tools\<close>: \<^verbatim>\<open>kmod/\<close>. The ring, the file
    operations of the driver, its tables and any sequence of system calls through them, its sleeping
    and waking as a step relation, \<^verbatim>\<open>telemetry_cat\<close> and \<^verbatim>\<open>telemetry_stat\<close>.
  \<^item> \<open>Printf\<close>, \<open>Parse_Num\<close>: the conversions of \<^verbatim>\<open>printf\<close> the programs use; \<^verbatim>\<open>atoi\<close> and \<^verbatim>\<open>strtoul\<close>, which read them back.
  \<^item> \<open>Sink\<close>, \<open>Sink_Chardev\<close>: \<^verbatim>\<open>server/sink.h\<close>, \<^verbatim>\<open>ring_log.c\<close>, \<^verbatim>\<open>sink_chardev.c\<close>, a locale for what the server needs of
    a sink, and its interpretations.
  \<^item> \<open>Device_Table\<close>, \<open>Device_Table_Conc\<close>, \<open>Device_Fields_Conc\<close>: \<^verbatim>\<open>server/device_table.c\<close>, a map from ids to devices
    with stable pointers; the double-checked insertion under concurrent calls; and the calls on one
    device as interleavings of their atomic operations: counters lose nothing, a lone writer's reading
    stays whole, and the two races the separate operations leave. The locale \<open>stored_field\<close> has the argument for
    one field, interpreted for the three fields of a reading.
  \<^item> \<open>Image\<close>, \<open>Convolve\<close>, \<open>Bmp\<close>, \<open>Frame\<close>, \<open>Frame_Asm\<close>, \<open>Imaging_Demo\<close>: \<^verbatim>\<open>imaging/\<close>. Every pixel of the pattern and the
    filters, the layout of BMP files and their round trip, chunks and reassembly in any order, the
    program \<^verbatim>\<open>pl_imaging\<close>.
  \<^item> \<open>Netutil\<close>: \<^verbatim>\<open>common/netutil.c\<close> over a socket given by what its next calls find.
  \<^item> \<open>Client_Handler\<close>, \<open>Client_Session\<close>, \<open>Frame_Session\<close>: \<^verbatim>\<open>server/client_handler.c\<close>. The phases of one round
    (\<open>read_header\<close>, \<open>check_framing\<close>, \<open>read_payload\<close>, \<open>check_payload\<close>, \<open>dispatch\<close>), the loop, and whole sessions, with
    readings and with image frames.
  \<^item> \<open>Server\<close>, \<open>Server_Main\<close>: \<^verbatim>\<open>tcp_listener.c\<close>, \<^verbatim>\<open>udp_listener.c\<close>, \<^verbatim>\<open>reaper.c\<close>, \<^verbatim>\<open>main.c\<close>, \<^verbatim>\<open>log.h\<close>; the relation \<open>server_step\<close>
    interleaves rounds of all threads, \<open>server_main\<close> is the program from its arguments to its exit status.
    Slots and workers add up in every reachable state, and a stop always leads to an empty server.
  \<^item> \<open>Server_Account\<close>: table, sink and sessions together, over the reachable states of \<open>server_step\<close>: what the sink was
    given is what the device counters counted, session numbers are distinct; and the device id of a
    reading, which the code does not check.
  \<^item> \<open>Fw_Tasks\<close>, \<open>Fw_Pipeline\<close>, \<open>Fw_Link\<close>, \<open>Fw_Boot\<close>: \<^verbatim>\<open>firmware/pulselink_fw.ino\<close>. Reading with a deadline, the
    handshake, the back-off, the sampler and the uplink over one queue; the bytes of a connection and the
    acknowledgements; \<^verbatim>\<open>setup\<close>, the tasks that show the state, and the watchdog.
  \<^item> \<open>Sketch_Framing\<close>, \<open>Sketch_Tasks\<close>: \<^verbatim>\<open>firmware/wokwi_singlefile/sketch.ino\<close>, the firmware in one file, translated on its own
    (definitions \<open>sk_...\<close>) and shown to do what the modular firmware does.
  \<^item> \<open>Unit_Tests\<close>: the test programs \<^verbatim>\<open>common/checksum_test.c\<close>, \<^verbatim>\<open>kmod/tring_test.c\<close> and \<^verbatim>\<open>firmware/fw_frame_test.c\<close> as the
    conditions they check, all of which hold.
  \<^item> \<open>Fake_Client\<close>, \<open>Fake_Client_Main\<close>: \<^verbatim>\<open>tools/fake_client.c\<close>, on a connected socket and from its arguments on.
  \<^item> This theory: the path of a reading from the sampler to \<^verbatim>\<open>telemetry_cat\<close>, of a frame from the load generator
    to the server's disk, and heartbeats.

  \<^bold>\<open>Loops and bounds.\<close> Loops are structural recursion or functions with a termination proof. The worker loop
  ends because each round consumes events of its socket or counts a tick of silence towards the
  fifteen that end it. The waiting loops of the firmware and of \<^verbatim>\<open>tools/fake_client.c\<close> are partial
  (\<open>None\<close>: still running), and theorems show that they return when the clock passes the deadline, or
  the count is below \<open>2^31 - 1\<close>; the heartbeat thread of the latter is given the number of times it finds
  its flag set. \<^verbatim>\<open>telemetry_cat\<close> is given nine reads: a ring holds 256 records, a read
  delivers up to 32, the ninth finds it empty.

  \<^bold>\<open>Not modelled.\<close> \<^verbatim>\<open>firmware/protocol.h\<close> and \<^verbatim>\<open>firmware/checksum.c\<close> are copies of the files under \<^verbatim>\<open>common/\<close> and share
  their model. Of \<^verbatim>\<open>server/main.c\<close> and \<^verbatim>\<open>fake_client.c\<close> the signal masks and the usage texts are left out; of the load
  generator and of the firmware floating-point arithmetic: its values are parameters. The server's
  threads other than \<^verbatim>\<open>main\<close> log lines that nothing depends on; they are left out. The watchdog theorem
  counts the time of blocking calls only. The step relation of the server makes a round of a thread
  one step, that of the table a critical section; only \<open>Device_Fields_Conc\<close> goes down to single atomic
  operations, and memory orders weaker than the sequentially consistent one of the code's \<^verbatim>\<open>atomic_\<close> calls are
  not considered. The test programs \<^verbatim>\<open>img_test.c\<close>, \<^verbatim>\<open>dt_test.c\<close>, \<^verbatim>\<open>frame_e2e_test.c\<close> and \<^verbatim>\<open>integ_test.c\<close> start threads, sockets and
  files around the modelled code; the theorems on frames, the device table and the sessions say in
  general what they sample.
\<close>

section \<open>From the device to the reader\<close>

text \<open>The bytes a device sends over a connection: its HELLO and its readings, as the firmware builds them.\<close>

definition fw_stream :: "u32 \<Rightarrow> u32 \<Rightarrow> u32 \<Rightarrow> pl_sensor_payload list \<Rightarrow> u8 list" where
  "fw_stream dev firmware_ver caps xs =
     snd (pl_build_hello (replicate PL_HELLO_PACKET_SIZE 0) PL_HELLO_PACKET_SIZE dev firmware_ver caps) @
     concat (map (\<lambda>x. snd (pl_build_sensor (replicate PL_SENSOR_PACKET_SIZE 0) PL_SENSOR_PACKET_SIZE dev
       (s_seq x) (s_timestamp_ms x) (s_temperature x) (s_humidity x))) xs)"

lemma fw_stream_packets: "fw_stream dev fv caps xs = wire_packet PKT_HELLO dev (pair_bytes fv caps) @ sensor_packets dev xs"
proof -
  have "sensor_bytes \<lparr>s_seq = s_seq x, s_timestamp_ms = s_timestamp_ms x, s_temperature = s_temperature x,
      s_humidity = s_humidity x\<rparr> = sensor_bytes x" for x by (simp add: sensor_bytes_def)
  then show ?thesis by (simp add: fw_stream_def sensor_packets_def pl_build_hello_packet pl_build_sensor_packet)
qed

text \<open>
  From the wire to the reader: a device's bytes arrive at the server in any segmentation; the
  server's worker records them through the character-device sink into the driver; then
  \<^verbatim>\<open>telemetry_cat\<close> reads the device.
\<close>

lemma telemetry_end_to_end:
  assumes "rx_bytes (rx s) = fw_stream dev fv caps xs" and "fst (rx_stop (rx s)) = Closed" and "txs s = []"
    and "running c" and "length payload0 = PL_MAX_PAYLOAD" and "dt_invar (dtable c)" and "e_calloc_dev (envs 0)"
    and "ctx_sink c = dev_sink host" and "dev_invar (length xs) (sink_st c)" and "length recs = BATCH * REC_SZ"
  shows "\<exists>w' s' c'. client_worker host envs payload0 fd (s, c) = (Leave, w', s', c') \<and>
    tx_out s' = tx_out s @ wire_packet PKT_HELLO_ACK dev (mem_u32 BigEndian (next_session c)) @ acks dev 0 xs \<and>
    cat_loop host (cat_reads host 9 recs off (fst (cd_world (sink_st c')))) =
      (map cat_line (last_n 256 (dev_contents (sink_st c) @ readings dev envs 1 xs)), None)"
proof -
  have "rx_bytes (rx s) = wire_packet PKT_HELLO dev (pair_bytes fv caps) @ sensor_packets dev xs"
    using assms(1) by (simp add: fw_stream_packets)
  from client_session_run [where envs = envs, OF this _ assms(2-7), of host fd]
  obtain w' s' c' where run: "client_worker host envs payload0 fd (s, c) = (Leave, w', s', c')"
    and tx: "tx_out s' = tx_out s @ wire_packet PKT_HELLO_ACK dev (mem_u32 BigEndian (next_session c)) @ acks dev 0 xs"
    and sink: "sink_st c' = sink_writes (dev_sink host) (readings dev envs 1 xs) (sink_st c)"
    by (auto simp: pl_consts assms(8))
  have len: "length (readings dev envs k xs) = length xs" for k by (induction xs arbitrary: k) simp_all
  have contents: "dev_contents (sink_st c') = last_n 256 (dev_contents (sink_st c) @ readings dev envs 1 xs)"
    unfolding sink by (rule dev.writes_contents) (simp add: len assms(9))
  have "dev_invar 0 (sink_st c')"
    unfolding sink sink_writes_def using dev.invar_pushes [of "readings dev envs 1 xs" 0 "sink_st c" host] assms(9) by (simp add: len)
  then have inv: "tring_invar (g_ring (fst (cd_world (sink_st c'))))" by (simp add: dev_invar_def)
  have "length (tring_list (g_ring (fst (cd_world (sink_st c'))))) \<le> BATCH * 8"
    using tr.length_contents [OF inv] by (simp add: BATCH_def)
  from cat_reads_print [OF inv assms(10) this] run contents tx show ?thesis
    by (auto simp: dev_contents_def simp del: cat_reads.simps mem_u32.simps)
qed

text \<open>A server whose sink is the device, with an empty ring behind it.\<close>

definition dev_ctx :: "drv_file cd_state server_ctx" where
  "dev_ctx = \<lparr>cfg = \<lparr>tcp_port = 9000, udp_port = 9001, max_clients = 16\<rparr>, running = True, dump_requested = False,
     active_workers = 0, client_slots = 15, listen_fd = 3, pipe_bytes = 0, dtable = empty_table,
     ctx_sink = dev_sink LittleEndian, sink_st = \<lparr>cd_fd = 3, cd_world = (sample_drv, 0)\<rparr>,
     frame_dir = None, next_session = 1, open_fds = {5}, files = (\<lambda>_. None)\<rparr>"

text \<open>The payload of a reading, and the bytes of a connection as the stream the server expects.\<close>

definition payload_of :: "sensor_reading \<Rightarrow> pl_sensor_payload" where
  "payload_of r = \<lparr>s_seq = r_seq r, s_timestamp_ms = r_timestamp_ms r, s_temperature = r_temperature r, s_humidity = r_humidity r\<rparr>"

lemma link_stream:
  "hello_wire @ concat (map reading_packet rs) = fw_stream DEVICE_ID FW_VERSION CAPABILITIES (map payload_of rs)"
  by (simp add: fw_stream_packets sensor_packets_def reading_packet_def [abs_def] payload_of_def comp_def)

text \<open>
  C1. From the sensor to the reader. The device samples and sends over one connection, which comes
  up at any time and after any number of attempts; samples are taken and turns of the uplink are
  made in any order. The bytes it puts on the connection reach the server in any segmentation; the
  worker records through the character-device sink into the driver; then \<^verbatim>\<open>telemetry_cat\<close> reads the
  device. The readings sent and then the ones still queued are, in order, readings that were
  sampled; \<^verbatim>\<open>telemetry_cat\<close> prints one line for each of the newest 256 records, those in the ring before
  and then the readings sent, in the order they were sampled, each with the device's id, its
  sequence number, its values and the server's time stamp; and the server answers with a HELLO_ACK
  and an ACK for every eighth reading.
\<close>

theorem device_to_reader:
  assumes "queue_laws QUEUE_LEN contents qsend qrecv" and "contents q0 = []"
    and "list_all action_timed as" and "one_connection False as"
    and "running c" and "length payload0 = PL_MAX_PAYLOAD" and "dt_invar (dtable c)" and "e_calloc_dev (envs 0)"
    and "ctx_sink c = dev_sink host" and "dev_invar 0 (sink_st c)" and "length recs = BATCH * REC_SZ"
  shows "\<exists>sq q b g ev sent. fw_run qsend qrecv as (fw_start q0) = Some ((sq, q, b, g), ev) \<and>
    subseq (sent @ contents q) (samples 0 as) \<and>
    (\<forall>s. rx_bytes (rx s) = wire_bytes ev \<and> fst (rx_stop (rx s)) = Closed \<and> txs s = [] \<longrightarrow>
      (\<exists>w' s' c'. client_worker host envs payload0 fd (s, c) = (Leave, w', s', c') \<and>
        tx_out s' = tx_out s @ wire_packet PKT_HELLO_ACK DEVICE_ID (mem_u32 BigEndian (next_session c)) @
          acks DEVICE_ID 0 (map payload_of sent) \<and>
        cat_loop host (cat_reads host 9 recs off (fst (cd_world (sink_st c')))) =
          (map cat_line (last_n 256 (dev_contents (sink_st c) @ readings DEVICE_ID envs 1 (map payload_of sent))), None)))"
proof -
  have "backoff_ok BACKOFF_MIN_MS" by (simp add: backoff_ok_def fw_consts)
  then obtain sq q b g ev where run: "fw_run qsend qrecv as (fw_start q0) = Some ((sq, q, b, g), ev)"
    using fw_run_returns [OF assms(3), of BACKOFF_MIN_MS qsend qrecv] unfolding fw_start_def by blast
  obtain acc sent where "link_ok contents False as 0 q0 q ev acc sent"
    using fw_run_link [OF assms(1,4) run [unfolded fw_start_def]] by blast
  then have acc: "acc = sent @ contents q" "subseq acc (samples 0 as)"
    and wire: "wire_bytes ev = fw_stream DEVICE_ID FW_VERSION CAPABILITIES (map payload_of sent)"
    using assms(2) by (auto simp: link_ok_def simp flip: link_stream)
  have "dev_invar (length (map payload_of sent)) (sink_st c)" using assms(10) by (simp add: dev_invar_def)
  note srv = telemetry_end_to_end [where envs = envs and host = host and fd = fd and off = off, OF _ _ _ assms(5-9) this assms(11)]
  show ?thesis
    by (intro exI conjI, rule run, rule acc(2) [unfolded acc(1)], intro allI impI, elim conjE, rule srv) (simp_all only: wire)
qed

text \<open>Two samples; a turn without Wi-Fi, one that connects and sends the first, one that sends the second.\<close>

definition ack_obs :: "read_obs list" where
  "ack_obs = [demo_obs 1 (take PL_HDR_SIZE (wire_packet PKT_HELLO_ACK DEVICE_ID (mem_u32 BigEndian 1))),
     demo_obs 2 (mem_u32 BigEndian 1), demo_obs 2000 []]"

definition demo_turn :: "bool \<Rightarrow> bool \<Rightarrow> fw_action" where
  "demo_turn wifi up = Uplink \<lparr>n_wifi = (wifi, 0, [(False, 15000)], False), n_tcp_connected = up, n_connect = True,
     n_hello_written = PL_HELLO_PACKET_SIZE, n_hello_now = 0, n_hello_obs = ack_obs, n_written = PL_SENSOR_PACKET_SIZE,
     n_drain = [\<lparr>t_available = 0, t_now1 = 0, t_now2 = 0, t_stale = [], t_obs = [demo_obs 200 []]\<rparr>]\<rparr>"

definition demo_run :: "fw_action list" where
  "demo_run = [demo_sample 10, demo_turn False False, demo_turn True False, demo_sample 2010, demo_turn True True]"

lemma demo_handshake: "\<exists>es. do_handshake PL_HELLO_PACKET_SIZE 0 ack_obs = Some (hello_wire, Some 1, es)"
proof -
  let ?p = "wire_packet PKT_HELLO_ACK DEVICE_ID (mem_u32 BigEndian 1)"
  have live: "\<forall>ob \<in> set [demo_obs 1 (take PL_HDR_SIZE ?p)] \<union> set [demo_obs 2 (mem_u32 BigEndian 1)].
      \<not> expired (0 + 2000) ob \<and> \<not> dead ob"
    by (simp add: expired_def dead_def demo_obs_def del: mem_u32.simps)
  have "concat (map o_read [demo_obs 1 (take PL_HDR_SIZE ?p)]) = take PL_HDR_SIZE ?p"
    and "concat (map o_read [demo_obs 2 (mem_u32 BigEndian 1)]) = mem_u32 BigEndian 1"
    by (simp_all add: demo_obs_read del: mem_u32.simps)
  from do_handshake_ok [OF live this, of "[demo_obs 2000 []]"] show ?thesis by (simp add: ack_obs_def del: mem_u32.simps)
qed

lemma demo_run_ok: "list_all action_timed demo_run" "one_connection False demo_run"
proof -
  have late: "expired 2000 (demo_obs 2000 [])" "expired 200 (demo_obs 200 [])" by (simp_all add: expired_def demo_obs_def)
  then have "list_ex (expired 2000) ack_obs" by (simp add: ack_obs_def del: mem_u32.simps)
  then have "action_timed (demo_turn wifi up)" for wifi up
    using late by (simp add: action_timed_def demo_turn_def uplink_timed_def polls_end_def turn_timed_def pl_consts)
  moreover have "action_timed (demo_sample t)" for t by (simp add: action_timed_def demo_sample_def)
  ultimately show "list_all action_timed demo_run" by (simp add: demo_run_def)
  obtain es where "do_handshake PL_HELLO_PACKET_SIZE 0 ack_obs = Some (hello_wire, Some 1, es)" using demo_handshake by blast
  then show "one_connection False demo_run"
    by (simp add: demo_run_def demo_turn_def demo_sample_def turn_offline_def turn_opens_def turn_streams_def wifi_ensure_def)
qed

lemma list_queue: "queue_laws QUEUE_LEN (\<lambda>q. q) list_send list_recv"
  by (auto simp: queue_laws_def list_send_def list_recv_def split: list.split)

theorem device_to_reader_witness:
  "\<exists>sq q b g ev sent. fw_run list_send list_recv demo_run (fw_start []) = Some ((sq, q, b, g), ev) \<and>
     (let s = \<lparr>rx = [RxData (take 3 (wire_bytes ev)), RxErr EINTR, RxData (drop 3 (wire_bytes ev)), RxEof], txs = [], tx_out = []\<rparr> in
      \<exists>w' s' c'. client_worker LittleEndian demo_env (replicate 1100 0) 5 (s, dev_ctx) = (Leave, w', s', c') \<and>
        cat_loop LittleEndian (cat_reads LittleEndian 9 (replicate 768 0) 0 (fst (cd_world (sink_st c')))) =
          (map cat_line (last_n 256 (readings DEVICE_ID demo_env 1 (map payload_of sent))), None))"
proof -
  have ctx: "running dev_ctx" "length (replicate 1100 (0::u8)) = PL_MAX_PAYLOAD" "dt_invar (dtable dev_ctx)" "e_calloc_dev (demo_env 0)"
    "ctx_sink dev_ctx = dev_sink LittleEndian" "dev_invar 0 (sink_st dev_ctx)" "length (replicate 768 (0::u8)) = BATCH * REC_SZ"
    by (simp_all add: dev_ctx_def demo_env_def pl_consts empty_table_invar dev_invar_def sample_drv_empty BATCH_def REC_SZ_def)
  have old: "dev_contents (sink_st dev_ctx) = []" by (simp add: dev_ctx_def dev_contents_def sample_drv_empty)
  from device_to_reader [where envs = demo_env and fd = 5 and off = 0, OF list_queue refl demo_run_ok ctx]
  obtain sq q b g ev sent where run: "fw_run list_send list_recv demo_run (fw_start []) = Some ((sq, q, b, g), ev)"
    and srv: "\<forall>s. rx_bytes (rx s) = wire_bytes ev \<and> fst (rx_stop (rx s)) = Closed \<and> txs s = [] \<longrightarrow>
      (\<exists>w' s' c'. client_worker LittleEndian demo_env (replicate 1100 0) 5 (s, dev_ctx) = (Leave, w', s', c') \<and>
        tx_out s' = tx_out s @ wire_packet PKT_HELLO_ACK DEVICE_ID (mem_u32 BigEndian (next_session dev_ctx)) @
          acks DEVICE_ID 0 (map payload_of sent) \<and>
        cat_loop LittleEndian (cat_reads LittleEndian 9 (replicate 768 0) 0 (fst (cd_world (sink_st c')))) =
          (map cat_line (last_n 256 (dev_contents (sink_st dev_ctx) @ readings DEVICE_ID demo_env 1 (map payload_of sent))), None))" by blast
  let ?s = "\<lparr>rx = [RxData (take 3 (wire_bytes ev)), RxErr EINTR, RxData (drop 3 (wire_bytes ev)), RxEof], txs = [], tx_out = []\<rparr> :: sock"
  have "rx_bytes (rx ?s) = wire_bytes ev \<and> fst (rx_stop (rx ?s)) = Closed \<and> txs ?s = []" by simp
  with srv [THEN spec, of ?s] run show ?thesis unfolding Let_def old by auto
qed

text \<open>The acknowledged readings: when their ACKs come in while the device drains its connection, it prints them.\<close>

fun acked :: "nat \<Rightarrow> pl_sensor_payload list \<Rightarrow> u32 list" where
  "acked n [] = []"
| "acked n (x # xs) = (if Suc n mod 8 = 0 then s_seq x # acked (Suc n) xs else acked (Suc n) xs)"

lemma acks_acked: "acks i n xs = concat (map (\<lambda>k. wire_packet PKT_ACK i (mem_u32 BigEndian k)) (acked n xs))"
  by (induction xs arbitrary: n) (simp_all del: mem_u32.simps)

lemma acks_printed:
  "list_all2 (ack_turn DEVICE_ID) (acked 0 xs) ts \<Longrightarrow> t_available t < PL_HDR_SIZE \<Longrightarrow>
   drain_replies (ts @ [t]) = Some (map Ack (acked 0 xs))"
  by (rule drain_replies_acks)

section \<open>A frame from the load generator to the disk\<close>

lemma fc_image_record: "fc_image = \<lparr>img_w = int (unat (160::u16)), img_h = int (unat (120::u16)), pix = Some (the (pix fc_image))\<rparr>"
  by (rule image.equality) (simp_all add: fc_image_shape(1,2) fc_image_shape(3) [symmetric])

lemma nineteen: "insert 18 (set [0..<18]) = {..<nchunks (length (the (pix fc_image)))}" "[0..<19] = [0..<18] @ [18]"
proof -
  show "insert 18 (set [0..<18]) = {..<nchunks (length (the (pix fc_image)))}" by (auto simp: fc_image_shape(4) nchunks_def)
  show "[0..<19] = [0..<18] @ [18]" using upt_Suc_append [of 0 18] by simp
qed

text \<open>
  C8. A frame from the load generator to the disk. When \<^verbatim>\<open>fake_client --frame\<close>, given any other options,
  reports success on a connection that takes its writes, and the bytes it wrote reach the server in
  any segmentation, then, memory and disk permitting, the server leaves in its frame directory the
  BMP file of the test pattern of 160 by 120 pixels and the one of its Sobel edges, under names
  made of the id given with \<^verbatim>\<open>-d\<close>.
\<close>

theorem frame_end_to_end:
  assumes "fc_program chost atof wave args net calloc_ok stale img0 b cs = Some (0, lines, cs')"
    and "fc_parse atof args (fc_defaults wave) = Inr opts" and "fc_frame opts"
    and "txs cs = []" and "tx_out cs = []" and "length stale = 1048"
    and "rx_bytes (rx s) = tx_out cs'" and "fst (rx_stop (rx s)) = Closed" and "txs s = []"
    and "running c" and "length payload0 = PL_MAX_PAYLOAD" and "frame_dir c = Some dir"
    and "\<forall>k. frame_memory (envs k) 19200 \<and> frame_disk (envs k) fc_image"
    and "blank = snd (image_alloc True \<lparr>img_w = 0, img_h = 0, pix = None\<rparr> 160 120)"
  shows "\<exists>wk' s' c'. client_worker host envs payload0 fd (s, c) = (Leave, wk', s', c') \<and>
    files c' = (files c)(frame_path dir (fc_devid opts) ''_in.bmp'' \<mapsto> bmp_bytes fc_image,
      frame_path dir (fc_devid opts) ''_edges.bmp'' \<mapsto> bmp_bytes (snd (sobel fc_image blank)))"
proof -
  let ?px = "the (pix fc_image)" and ?i = "fc_devid opts" and ?hello = "pair_bytes 0x00010000 1"
  obtain lines1 where "fc_main chost opts calloc_ok stale img0 b cs = Some (0, lines1, cs')"
    using assms(1,2) by (auto simp: fc_program_def split: if_split_asm option.split_asm prod.split_asm)
  from fc_main_frame_wire [OF this assms(3,4,6)] assms(5,7) nineteen(2)
  have bytes: "rx_bytes (rx s) = wire_packet PKT_HELLO ?i ?hello @
      concat (map (\<lambda>n. wire_packet PKT_FRAME ?i (chunk_payload 160 120 1 ?px n)) ([0..<18] @ [18]))" by (simp only: append_Nil)
  have mem: "\<forall>k. frame_memory (envs k) (length ?px) \<and> frame_disk (envs k) fc_image" unfolding fc_image_shape(4) by (rule assms(13))
  have blank: "blank = snd (image_alloc True \<lparr>img_w = 0, img_h = 0, pix = None\<rparr> (img_w fc_image) (img_h fc_image))"
    using assms(14) by (simp only: fc_image_shape(1,2))
  have hello: "length ?hello \<le> PL_MAX_PAYLOAD" by (simp add: pl_consts)
  have "(18::nat) \<notin> set [0..<18]" by simp
  from frame_session_run [where envs = envs and host = host and fd = fd, OF bytes hello assms(8-11) frame_ok_fc_image this nineteen(1) fc_image_record blank mem assms(12)]
  show ?thesis by blast
qed

definition big_disk :: "nat \<Rightarrow> wenv" where
  "big_disk k = (frame_env k)\<lparr>e_fopen_in := Some (65536, 4096), e_fopen_edges := Some (65536, 4096)\<rparr>"

definition client_sock :: sock where
  "client_sock = \<lparr>rx = [RxData (wire_packet PKT_HELLO_ACK 42 (mem_u32 BigEndian 1))], txs = [], tx_out = []\<rparr>"

definition frame_args :: "opt list" where
  "frame_args = [Opt CHR ''d'' ''0x0000002A'', Opt CHR ''M'' []]"

definition flat_wave :: "u32 \<Rightarrow> i32 \<times> i32" where
  "flat_wave n = (0, 0)"

abbreviation run_frame_client :: "(int \<times> fc_line list \<times> sock) option" where
  "run_frame_client \<equiv> fc_program BigEndian (\<lambda>_. fc_rate (fc_defaults flat_wave)) flat_wave frame_args (0, [(4, 0)]) True
     (replicate 1048 0) no_image (replicate 1100 0, 0, wire_header PKT_ACK 0 []) client_sock"

lemma fmt_08X_42: "fmt_08X 42 = ''0000002A''"
proof -
  have "replicate 6 CHR ''0'' = ''000000''" by (simp add: numeral_eq_Suc)
  moreover have "char_of (50::nat) = CHR ''2''" "char_of (65::nat) = CHR ''A''" by (simp_all add: char_of_def bit_iff_odd)
  ultimately show ?thesis
    by (simp add: fmt_08X_def pad_left_def base_str.simps [of 16 42] base_str.simps [of 16 2] digit_char_def)
qed

lemma frame_args_parse:
  "fc_parse atof frame_args (fc_defaults wave) = Inr ((fc_defaults wave)\<lparr>fc_devid := 42, fc_frame := True\<rparr>)"
  using strtoul_hex [of 42] by (simp add: frame_args_def fmt_08X_42)

lemma frame_client_succeeds: "\<exists>lines cs'. run_frame_client = Some (0, lines, cs')"
proof -
  let ?opts = "(fc_defaults flat_wave)\<lparr>fc_devid := 42, fc_frame := True\<rparr>"
  have "rx_bytes (rx client_sock) = wire_packet PKT_HELLO_ACK 42 (mem_u32 BigEndian 1) @ []" "txs client_sock = []"
    by (simp_all add: client_sock_def del: mem_u32.simps)
  then obtain lines cs' where "fc_main BigEndian ?opts True (replicate 1048 0) no_image (replicate 1100 0, 0, wire_header PKT_ACK 0 []) client_sock =
      Some (0, lines, cs')"
    using fc_main_frame_succeeds [of client_sock 42 1 "[]" "replicate 1100 0" ?opts BigEndian "replicate 1048 0" no_image 0 "wire_header PKT_ACK 0 []"]
    by (auto simp: pl_consts simp del: mem_u32.simps)
  then show ?thesis by (simp add: fc_program_def frame_args_parse connect_to_def)
qed

lemma big_disk_ok: "\<forall>k. frame_memory (big_disk k) 19200 \<and> frame_disk (big_disk k) fc_image"
proof -
  have "image_ok fc_image" by (subst fc_image_record) (rule frame_ok_image [OF frame_ok_fc_image])
  then have "length (bmp_bytes fc_image) \<le> 65536" using length_bmp_bytes [of fc_image] by (simp add: fc_image_shape(1,2))
  then show ?thesis by (simp add: frame_memory_def frame_disk_def big_disk_def frame_env_def)
qed

theorem frame_end_to_end_witness:
  "\<exists>lines cs'. run_frame_client = Some (0, lines, cs') \<and>
     (\<exists>wk' s' c'. client_worker LittleEndian big_disk (replicate 1100 0) 5
        (\<lparr>rx = [RxData (tx_out cs'), RxEof], txs = [], tx_out = []\<rparr>, demo_ctx\<lparr>frame_dir := Some ''/f''\<rparr>) = (Leave, wk', s', c') \<and>
        files c' (frame_path ''/f'' 42 ''_in.bmp'') = Some (bmp_bytes fc_image))"
proof -
  obtain lines cs' where run: "run_frame_client = Some (0, lines, cs')" using frame_client_succeeds by blast
  let ?s = "\<lparr>rx = [RxData (tx_out cs'), RxEof], txs = [], tx_out = []\<rparr> :: sock" and ?c = "demo_ctx\<lparr>frame_dir := Some ''/f''\<rparr>"
  have sock: "txs client_sock = []" "tx_out client_sock = []" by (simp_all add: client_sock_def)
  have s: "rx_bytes (rx ?s) = tx_out cs'" "fst (rx_stop (rx ?s)) = Closed" "txs ?s = []" by simp_all
  have c: "running ?c" "length (replicate 1100 (0::u8)) = PL_MAX_PAYLOAD" "frame_dir ?c = Some ''/f''" by (simp_all add: demo_ctx_def pl_consts)
  have "frame_path ''/f'' 42 ''_in.bmp'' \<noteq> frame_path ''/f'' 42 ''_edges.bmp''" by (simp add: frame_path_def fmt_08X_42)
  with frame_end_to_end [OF run frame_args_parse _ sock _ s c big_disk_ok refl, of LittleEndian 5] run show ?thesis by auto
qed

section \<open>Liveness signals\<close>

lemma udp_heartbeat_packet:
  assumes "length p \<le> 1100"
  shows "udp_heartbeat host (wire_packet PKT_HEARTBEAT i p) = Some i"
proof -
  have "pl_parse_header host (wire_packet PKT_HEARTBEAT i p) = wire_header PKT_HEARTBEAT i p"
    using pl_parse_header_wire_packet [of host PKT_HEARTBEAT i p "[]"] by simp
  moreover have "unat (of_nat (length p) :: u16) = length p" using assms by (intro unat_of_nat_small) simp
  ultimately show ?thesis unfolding udp_heartbeat_def by (simp add: wire_header_def drop_wire_packet Let_def)
qed

text \<open>Every heartbeat of the firmware and of the load generator, sent to the UDP listener of the
  server, refreshes the device that sent it.\<close>

lemma udp_accepts_heartbeat:
  "udp_listener_iter host calloc_ok clock now (Inr (wire_packet PKT_HEARTBEAT i (pair_bytes x y))) c =
     c\<lparr>dtable := dt_touch calloc_ok clock i now (dtable c)\<rparr>"
proof -
  have cut: "take (PL_HDR_SIZE + PL_MAX_PAYLOAD) (wire_packet PKT_HEARTBEAT i (pair_bytes x y)) = wire_packet PKT_HEARTBEAT i (pair_bytes x y)"
    by (simp add: pl_consts)
  show ?thesis unfolding udp_listener_iter_def sum.case cut by (simp add: udp_heartbeat_packet)
qed

lemma heartbeats_refresh_device:
  "heartbeat_task_iter True millis heap = Some pkt \<Longrightarrow>
     udp_listener_iter host calloc_ok clock now (Inr pkt) c = c\<lparr>dtable := dt_touch calloc_ok clock DEVICE_ID now (dtable c)\<rparr>"
  "0 \<le> fd \<Longrightarrow> pkt \<in> set (heartbeat_thread host' fd devid n) \<Longrightarrow>
     udp_listener_iter host calloc_ok clock now (Inr pkt) c = c\<lparr>dtable := dt_touch calloc_ok clock devid now (dtable c)\<rparr>"
  by (auto simp: heartbeat_task_iter_def pl_build_heartbeat_packet heartbeat_thread_packets udp_accepts_heartbeat)

text \<open>Out of the box the device and the load generator talk to the ports the server listens on.\<close>

lemma default_ports_agree:
  "tcp_port (o_cfg default_options) = SERVER_TCP_PORT \<and> udp_port (o_cfg default_options) = SERVER_UDP_PORT \<and>
   fc_port (fc_defaults wave) = SERVER_TCP_PORT \<and> fc_uport (fc_defaults wave) = SERVER_UDP_PORT"
  by (simp add: default_options_def fc_defaults_def SERVER_TCP_PORT_def SERVER_UDP_PORT_def)

end
